(* ===== verification/Prelude.thy ===== *)
theory Prelude
  imports Main "HOL-Library.Word"
begin

text \<open>
  What every component theory shares: the result type of a kernel function, the checked
  integer arithmetic of the dev profile (\<^verbatim>\<open>cargo run\<close>, where an overflow panics), the
  integer helpers of Rust's standard library that the kernel calls, and generic lemmas on
  powers of two, bit masks and pairwise-disjoint lists.

  A kernel function ends in one of four ways: it returns a value (\<open>Ok\<close>), it returns
  \<^verbatim>\<open>Err(msg)\<close> of \<^verbatim>\<open>result.rs\<close>, it panics, or it leaves the set of defined behaviours by a
  raw memory access that no object backs (\<open>UB\<close>). Functions whose Rust type is not
  \<^verbatim>\<open>Result\<close> use the same type and never return \<open>Err\<close>. A function that may not return at all
  has a type \<open>'a res option\<close>, where \<open>None\<close> is "does not return".
\<close>

unbundle bit_operations_syntax

named_theorems res_simps \<open>evaluation of the result monad\<close>
named_theorems arith_defs \<open>checked integer operations\<close>

type_synonym u8 = "8 word"
type_synonym u16 = "16 word"
type_synonym u32 = "32 word"
type_synonym u64 = "64 word"
type_synonym usize = nat

section \<open>Results\<close>

datatype 'a res = Ok 'a | Err string | Panic string | UB

fun and_then :: "'a res \<Rightarrow> ('a \<Rightarrow> 'b res) \<Rightarrow> 'b res" where
  "and_then (Ok a) f = f a"
| "and_then (Err e) f = Err e"
| "and_then (Panic p) f = Panic p"
| "and_then UB f = UB"

text \<open>\<^verbatim>\<open>Result::expect\<close> and \<^verbatim>\<open>Result::unwrap\<close>: an error becomes a panic.\<close>

fun expect :: "'a res \<Rightarrow> string \<Rightarrow> 'a res" where
  "expect (Ok a) m = Ok a"
| "expect (Err e) m = Panic m"
| "expect (Panic p) m = Panic p"
| "expect UB m = UB"

text \<open>\<^verbatim>\<open>Option::ok_or\<close> and \<^verbatim>\<open>Option::expect\<close>.\<close>

definition ok_or :: "'a option \<Rightarrow> string \<Rightarrow> 'a res" where
  "ok_or x e = (case x of None \<Rightarrow> Err e | Some a \<Rightarrow> Ok a)"

definition expect_some :: "'a option \<Rightarrow> string \<Rightarrow> 'a res" where
  "expect_some x m = (case x of None \<Rightarrow> Panic m | Some a \<Rightarrow> Ok a)"

definition assert_that :: "bool \<Rightarrow> string \<Rightarrow> unit res" where
  "assert_that b m = (if b then Ok () else Panic m)"

text \<open>The outcomes that are not faults: a value or an error value.\<close>

definition no_fault :: "'a res \<Rightarrow> bool" where
  "no_fault r \<longleftrightarrow> (case r of Ok _ \<Rightarrow> True | Err _ \<Rightarrow> True | Panic _ \<Rightarrow> False | UB \<Rightarrow> False)"

lemma and_then_eq_Ok [res_simps]:
  "and_then m f = Ok b \<longleftrightarrow> (\<exists>a. m = Ok a \<and> f a = Ok b)"
  by (cases m) auto

lemma and_then_Ok_right [simp]: "and_then m Ok = m"
  by (cases m) auto

lemma and_then_assoc: "and_then (and_then m f) g = and_then m (\<lambda>a. and_then (f a) g)"
  by (cases m) auto

lemma expect_eq_Ok [res_simps]: "expect r m = Ok a \<longleftrightarrow> r = Ok a"
  by (cases r) auto

lemma ok_or_eq_Ok [res_simps]: "ok_or x e = Ok a \<longleftrightarrow> x = Some a"
  by (auto simp: ok_or_def split: option.splits)

lemma ok_or_simps [simp]: "ok_or None e = Err e" "ok_or (Some a) e = Ok a"
  by (simp_all add: ok_or_def)

lemma expect_some_simps [simp]: "expect_some None e = Panic e" "expect_some (Some a) e = Ok a"
  by (simp_all add: expect_some_def)

lemma assert_that_eq_Ok [res_simps]: "assert_that b m = Ok u \<longleftrightarrow> b"
  by (simp add: assert_that_def)

lemma assert_that_True [simp]: "assert_that True m = Ok ()"
  by (simp add: assert_that_def)

lemma no_fault_simps [simp]:
  "no_fault (Ok a)" "no_fault (Err e)" "\<not> no_fault (Panic p)" "\<not> no_fault UB"
  by (simp_all add: no_fault_def)

text \<open>The same sequencing for functions that may not return.\<close>

definition and_then_opt :: "'a res option \<Rightarrow> ('a \<Rightarrow> 'b res option) \<Rightarrow> 'b res option" where
  "and_then_opt m f = (case m of None \<Rightarrow> None | Some (Ok a) \<Rightarrow> f a
     | Some (Err e) \<Rightarrow> Some (Err e) | Some (Panic p) \<Rightarrow> Some (Panic p) | Some UB \<Rightarrow> Some UB)"

lemma and_then_opt_simps [simp]:
  "and_then_opt None f = None"
  "and_then_opt (Some (Ok a)) f = f a"
  "and_then_opt (Some (Err e)) f = Some (Err e)"
  "and_then_opt (Some (Panic p)) f = Some (Panic p)"
  "and_then_opt (Some UB) f = Some UB"
  by (simp_all add: and_then_opt_def)

lemma and_then_opt_eq_Ok: "and_then_opt m f = Some (Ok z) \<longleftrightarrow> (\<exists>u. m = Some (Ok u) \<and> f u = Some (Ok z))"
  by (auto simp: and_then_opt_def split: option.splits res.splits)

section \<open>Checked arithmetic\<close>

text \<open>
  Unsigned values of width \<open>w\<close> are naturals below \<open>2 ^ w\<close>; each operation that the dev
  profile checks panics where the exact result leaves that range. Signed 64-bit values are
  integers in \<open>[-2^63, 2^63)\<close>.
\<close>

definition add_u :: "nat \<Rightarrow> nat \<Rightarrow> nat \<Rightarrow> nat res" where
  [arith_defs]: "add_u w a b =
     (if a + b < 2 ^ w then Ok (a + b) else Panic ''attempt to add with overflow'')"

definition sub_u :: "nat \<Rightarrow> nat \<Rightarrow> nat res" where
  [arith_defs]: "sub_u a b =
     (if b \<le> a then Ok (a - b) else Panic ''attempt to subtract with overflow'')"

definition mul_u :: "nat \<Rightarrow> nat \<Rightarrow> nat \<Rightarrow> nat res" where
  [arith_defs]: "mul_u w a b =
     (if a * b < 2 ^ w then Ok (a * b) else Panic ''attempt to multiply with overflow'')"

definition div_u :: "nat \<Rightarrow> nat \<Rightarrow> nat res" where
  [arith_defs]: "div_u a b =
     (if b = 0 then Panic ''attempt to divide by zero'' else Ok (a div b))"

abbreviation add64 :: "nat \<Rightarrow> nat \<Rightarrow> nat res" where "add64 \<equiv> add_u 64"
abbreviation mul64 :: "nat \<Rightarrow> nat \<Rightarrow> nat res" where "mul64 \<equiv> mul_u 64"

definition saturating_sub :: "nat \<Rightarrow> nat \<Rightarrow> nat" where
  "saturating_sub a b = (if a < b then 0 else a - b)"

definition chk_i64 :: "int \<Rightarrow> int res" where
  [arith_defs]: "chk_i64 x =
     (if - (2 ^ 63) \<le> x \<and> x < 2 ^ 63 then Ok x else Panic ''i64 arithmetic overflow'')"

section \<open>Bit lengths\<close>

text \<open>\<open>bit_len n\<close> is the number of binary digits of \<open>n\<close>; \<^verbatim>\<open>leading_zeros\<close> of a word follows.\<close>

fun bit_len :: "nat \<Rightarrow> nat" where
  "bit_len n = (if n = 0 then 0 else Suc (bit_len (n div 2)))"

declare bit_len.simps [simp del]

definition leading_zeros :: "'a::len word \<Rightarrow> nat" where
  "leading_zeros w = LENGTH('a) - bit_len (unat w)"

lemma bit_len_0 [simp]: "bit_len 0 = 0"
  by (simp add: bit_len.simps)

lemma bit_len_bounds: "0 < n \<Longrightarrow> 2 ^ (bit_len n - 1) \<le> n \<and> n < 2 ^ bit_len n \<and> 0 < bit_len n"
proof (induction n rule: bit_len.induct)
  case (1 n)
  show ?case
  proof (cases "n div 2 = 0")
    case True
    with "1.prems" have "n = 1" by auto
    then show ?thesis by (simp add: bit_len.simps)
  next
    case False
    let ?b = "bit_len (n div 2)"
    have IH: "2 ^ (?b - 1) \<le> n div 2" "n div 2 < 2 ^ ?b" "0 < ?b"
      using "1.IH" "1.prems" False by auto
    have b: "bit_len n = Suc ?b" using "1.prems" by (simp add: bit_len.simps [of n])
    from IH(3) obtain c where c: "?b = Suc c" using gr0_conv_Suc by blast
    show ?thesis using IH(1,2) unfolding b c by (simp add: b c) linarith
  qed
qed

lemma bit_len_le_iff: "bit_len n \<le> k \<longleftrightarrow> n < 2 ^ k"
proof (cases "n = 0")
  case False
  then have b: "2 ^ (bit_len n - 1) \<le> n" "n < 2 ^ bit_len n" "0 < bit_len n"
    using bit_len_bounds by auto
  show ?thesis
  proof
    assume "bit_len n \<le> k"
    then have "(2::nat) ^ bit_len n \<le> 2 ^ k" by simp
    with b(2) show "n < 2 ^ k" by linarith
  next
    assume "n < 2 ^ k"
    with b(1) have "(2::nat) ^ (bit_len n - 1) < 2 ^ k" by linarith
    then have "bit_len n - 1 < k" by simp
    then show "bit_len n \<le> k" by simp
  qed
qed simp

section \<open>Powers of two and masks\<close>

definition is_pow2 :: "nat \<Rightarrow> bool" where
  "is_pow2 n \<longleftrightarrow> n \<noteq> 0 \<and> n = 2 ^ (bit_len n - 1)"

lemma bit_len_pow2 [simp]: "bit_len (2 ^ k) = Suc k"
proof -
  have "bit_len (2 ^ k) \<le> Suc k" by (simp add: bit_len_le_iff)
  moreover have "\<not> bit_len (2 ^ k) \<le> k" by (simp add: bit_len_le_iff)
  ultimately show ?thesis by simp
qed

lemma is_pow2_iff: "is_pow2 n \<longleftrightarrow> (\<exists>k. n = 2 ^ k)"
  by (auto simp: is_pow2_def)

lemma is_pow2_max: "is_pow2 a \<Longrightarrow> is_pow2 b \<Longrightarrow> is_pow2 (max a b)"
  by (simp add: max_def)

lemma pow2_dvd: "is_pow2 a \<Longrightarrow> is_pow2 b \<Longrightarrow> a \<le> b \<Longrightarrow> a dvd b"
  by (auto simp: is_pow2_iff le_imp_power_dvd)

text \<open>\<open>x & !(a - 1)\<close> on 64-bit values, the round-down idiom for a power of two \<open>a\<close>.\<close>

definition and_not64 :: "nat \<Rightarrow> nat \<Rightarrow> nat" where
  "and_not64 x m = unat ((word_of_nat x :: u64) AND NOT (word_of_nat m))"

lemma word_mask_eq: "word_of_nat (2 ^ k - 1) = (mask k :: 'a::len word)"
  by (simp add: mask_eq_exp_minus_1)

lemma and_not64_pow2:
  assumes "x < 2 ^ 64" "k < 64"
  shows "and_not64 x (2 ^ k - 1) = x - x mod 2 ^ k"
proof -
  have "(word_of_nat x :: u64) AND NOT (mask k) = push_bit k (drop_bit k (word_of_nat x))"
    by (rule bit_word_eqI) (auto simp: bit_simps)
  then have "and_not64 x (2 ^ k - 1) = unat (push_bit k (drop_bit k (word_of_nat x :: u64)))"
    by (simp only: and_not64_def word_mask_eq)
  also have "\<dots> = take_bit 64 (push_bit k (drop_bit k x))"
    using assms by (simp add: unat_drop_bit_eq unsigned_push_bit_eq take_bit_eq_mod unat_of_nat)
  also have "\<dots> = x - x mod 2 ^ k"
  proof -
    have "x div 2 ^ k * 2 ^ k < 2 ^ 64"
      using assms(1) by (rule le_less_trans [OF div_times_less_eq_dividend])
    then show ?thesis
      by (simp add: push_bit_eq_mult drop_bit_eq_div take_bit_eq_mod minus_mod_eq_div_mult)
  qed
  finally show ?thesis .
qed

lemma drop_and_mask: "drop_bit s (x AND push_bit s (mask w)) = (take_bit w (drop_bit s x) :: nat)"
  by (intro bit_eqI) (auto simp: bit_simps)

lemma push_or_add:
  assumes "b < 2 ^ k"
  shows "push_bit k a OR b = a * 2 ^ k + (b :: nat)"
proof -
  have "\<not> bit b i" if "k \<le> i" for i
    using assms that by (metis bit_take_bit_iff not_le take_bit_nat_eq_self)
  then have "push_bit k a OR b = push_bit k a + b"
    by (intro disjunctive_add [symmetric]) (auto simp: bit_simps)
  then show ?thesis by (simp add: push_bit_eq_mult)
qed

lemma unat_u64: "n < 2 ^ 64 \<Longrightarrow> unat (word_of_nat n :: u64) = n"
  by (simp add: unat_of_nat)

section \<open>Little-endian bytes\<close>

fun le_nat :: "u8 list \<Rightarrow> nat" where
  "le_nat [] = 0"
| "le_nat (b # bs) = unat b + 256 * le_nat bs"

fun le_bytes :: "nat \<Rightarrow> nat \<Rightarrow> u8 list" where
  "le_bytes 0 x = []"
| "le_bytes (Suc n) x = word_of_nat x # le_bytes n (x div 256)"

lemma length_le_bytes [simp]: "length (le_bytes n x) = n"
  by (induction n arbitrary: x) auto

lemma le_nat_bound: "le_nat bs < 256 ^ length bs"
proof (induction bs)
  case (Cons b bs)
  have "unat b < 256" using unsigned_less [of b, where ?'a = nat] by simp
  with Cons show ?case by simp
qed simp

lemma le_nat_le_bytes: "le_nat (le_bytes n x) = x mod 256 ^ n"
  by (induction n arbitrary: x) (simp_all add: mod_mult2_eq unat_of_nat)

lemma le_bytes_le_nat: "le_bytes (length bs) (le_nat bs) = bs"
proof (induction bs)
  case (Cons b bs)
  have "unat b < 256" using unsigned_less [of b, where ?'a = nat] by simp
  then have "(unat b + 256 * le_nat bs) div 256 = le_nat bs" by simp
  moreover have "(256 :: u8) * w = 0" for w
    by (rule trans [OF arg_cong [where f = "\<lambda>x. x * w", of 256 0]]) simp_all
  ultimately show ?case using Cons.IH by simp
qed simp

text \<open>A read of \<open>n\<close> bytes at \<open>ofs\<close> through a raw pointer into a buffer.\<close>

definition read_le :: "u8 list \<Rightarrow> nat \<Rightarrow> nat \<Rightarrow> nat res" where
  "read_le bs ofs n = (if ofs + n \<le> length bs then Ok (le_nat (take n (drop ofs bs))) else UB)"

section \<open>Loops over a list with early exit\<close>

fun fold_res :: "('a \<Rightarrow> 'b \<Rightarrow> 'a res) \<Rightarrow> 'a \<Rightarrow> 'b list \<Rightarrow> 'a res" where
  "fold_res f a [] = Ok a"
| "fold_res f a (x # xs) = and_then (f a x) (\<lambda>a'. fold_res f a' xs)"

lemma fold_res_append:
  "fold_res f a (xs @ ys) = and_then (fold_res f a xs) (\<lambda>a'. fold_res f a' ys)"
  by (induction xs arbitrary: a) (auto simp: and_then_assoc)

lemma fold_res_inv:
  assumes "\<And>a x. x \<in> set xs \<Longrightarrow> I a \<Longrightarrow> \<exists>a'. f a x = Ok a' \<and> I a'" "I a"
  shows "\<exists>a'. fold_res f a xs = Ok a' \<and> I a'"
  using assms
proof (induction xs arbitrary: a)
  case (Cons x xs)
  from Cons.prems obtain b where "f a x = Ok b" "I b" by (metis list.set_intros(1))
  with Cons show ?case by simp
qed simp

section \<open>Lists whose elements are pairwise related\<close>

lemma sorted_wrt_sym_mem:
  assumes "sorted_wrt R xs" "\<And>x y. R x y \<Longrightarrow> R y x" "x \<in> set xs" "y \<in> set xs" "x \<noteq> y"
  shows "R x y"
  using assms by (induction xs) auto

lemma sorted_wrt_replace:
  assumes "sorted_wrt R (xs @ y # zs)" "\<And>x y. R x y \<Longrightarrow> R y x"
    and "sorted_wrt R ys"
    and "\<And>w v. w \<in> set ys \<Longrightarrow> R y v \<Longrightarrow> R w v"
  shows "sorted_wrt R (xs @ ys @ zs)"
  using assms by (auto simp: sorted_wrt_append)

end
