(* ===== verification/Uefi_Memory.thy ===== *)
theory Uefi_Memory
  imports Prelude
begin

text \<open>
  The memory map the firmware hands over (\<^verbatim>\<open>uefi.rs\<close>): memory types, descriptors, the
  \<^verbatim>\<open>MemoryMapHolder\<close> with its raw buffer, and the iterator that walks it in steps of
  \<^verbatim>\<open>descriptor_size\<close>. A \<^verbatim>\<open>for\<close> loop over the iterator is \<open>for_mmap\<close>, which does not return
  when the firmware reports a descriptor size of 0; \<open>for_mmap_valid\<close> shows that over a
  valid map it runs the body over the decoded descriptors in order.
\<close>

datatype EfiMemoryType =
    RESERVED | LOADER_CODE | LOADER_DATA | BOOT_SERVICES_CODE | BOOT_SERVICES_DATA
  | RUNTIME_SERVICES_CODE | RUNTIME_SERVICES_DATA | CONVENTIONAL_MEMORY | UNUSABLE_MEMORY
  | ACPI_RECLAIM_MEMORY | ACPI_MEMORY_NVS | MEMORY_MAPPED_IO | MEMORY_MAPPED_IO_PORT_SPACE
  | PAL_CODE | PERSISTENT_MEMORY

text \<open>The C enum read back from memory: a discriminant outside the enum is undefined.\<close>

definition efi_memory_types :: "EfiMemoryType list" where
  "efi_memory_types =
    [RESERVED, LOADER_CODE, LOADER_DATA, BOOT_SERVICES_CODE, BOOT_SERVICES_DATA,
     RUNTIME_SERVICES_CODE, RUNTIME_SERVICES_DATA, CONVENTIONAL_MEMORY, UNUSABLE_MEMORY,
     ACPI_RECLAIM_MEMORY, ACPI_MEMORY_NVS, MEMORY_MAPPED_IO, MEMORY_MAPPED_IO_PORT_SPACE,
     PAL_CODE, PERSISTENT_MEMORY]"

definition efi_memory_type_of :: "nat \<Rightarrow> EfiMemoryType res" where
  "efi_memory_type_of n =
     (if n < length efi_memory_types then Ok (efi_memory_types ! n) else UB)"

record EfiMemoryDescriptor =
  memory_type :: EfiMemoryType
  physical_start :: nat
  virtual_start :: nat
  number_of_pages :: nat
  attribute :: nat

definition MEMORY_MAP_BUFFER_SIZE :: usize where
  "MEMORY_MAP_BUFFER_SIZE = 0x8000"

record MemoryMapHolder =
  memory_map_buffer :: "u8 list"
  memory_map_size :: usize
  map_key :: usize
  descriptor_size :: usize
  descriptor_version :: nat

definition MemoryMapHolder_new :: MemoryMapHolder where
  "MemoryMapHolder_new =
     \<lparr>memory_map_buffer = replicate MEMORY_MAP_BUFFER_SIZE 0,
      memory_map_size = MEMORY_MAP_BUFFER_SIZE,
      map_key = 0, descriptor_size = 0, descriptor_version = 0\<rparr>"

text \<open>The \<^verbatim>\<open>repr(C)\<close> layout of a descriptor: a 4-byte type, 4 bytes of padding, four \<^verbatim>\<open>u64\<close>.\<close>

definition read_descriptor :: "u8 list \<Rightarrow> usize \<Rightarrow> EfiMemoryDescriptor res" where
  "read_descriptor buf ofs =
     and_then (read_le buf ofs 4) (\<lambda>t.
     and_then (efi_memory_type_of t) (\<lambda>ty.
     and_then (read_le buf (ofs + 8) 8) (\<lambda>ps.
     and_then (read_le buf (ofs + 16) 8) (\<lambda>vs.
     and_then (read_le buf (ofs + 24) 8) (\<lambda>np.
     and_then (read_le buf (ofs + 32) 8) (\<lambda>at.
     Ok \<lparr>memory_type = ty, physical_start = ps, virtual_start = vs,
         number_of_pages = np, attribute = at\<rparr>))))))"

definition MemoryMapIterator_next ::
    "MemoryMapHolder \<Rightarrow> usize \<Rightarrow> (EfiMemoryDescriptor \<times> usize) option res" where
  "MemoryMapIterator_next mmap ofs =
     (if memory_map_size mmap \<le> ofs then Ok None
      else and_then (read_descriptor (memory_map_buffer mmap) ofs) (\<lambda>e.
           and_then (add64 ofs (descriptor_size mmap)) (\<lambda>ofs'.
           Ok (Some (e, ofs')))))"

partial_function (option) for_mmap ::
    "MemoryMapHolder \<Rightarrow> ('s \<Rightarrow> EfiMemoryDescriptor \<Rightarrow> 's res) \<Rightarrow> 's \<Rightarrow> usize \<Rightarrow> 's res option" where
  "for_mmap mmap body s ofs =
     (case MemoryMapIterator_next mmap ofs of
        Ok None \<Rightarrow> Some (Ok s)
      | Ok (Some (e, ofs')) \<Rightarrow>
          (case body s e of
             Ok s' \<Rightarrow> for_mmap mmap body s' ofs'
           | Err m \<Rightarrow> Some (Err m) | Panic m \<Rightarrow> Some (Panic m) | UB \<Rightarrow> Some UB)
      | Err m \<Rightarrow> Some (Err m) | Panic m \<Rightarrow> Some (Panic m) | UB \<Rightarrow> Some UB)"

text \<open>
  A map the firmware may return: the buffer holds the descriptors \<open>ds\<close> back to back in
  slots of \<^verbatim>\<open>descriptor_size\<close> bytes.
\<close>

definition valid_mmap :: "MemoryMapHolder \<Rightarrow> EfiMemoryDescriptor list \<Rightarrow> bool" where
  "valid_mmap mmap ds \<longleftrightarrow>
     0 < descriptor_size mmap \<and>
     memory_map_size mmap = length ds * descriptor_size mmap \<and>
     memory_map_size mmap < 2 ^ 64 \<and>
     (\<forall>i < length ds. read_descriptor (memory_map_buffer mmap) (i * descriptor_size mmap) = Ok (ds ! i))"

lemma for_mmap_valid_from:
  assumes "valid_mmap mmap ds" "n \<le> length ds"
  shows "for_mmap mmap body s (n * descriptor_size mmap) = Some (fold_res body s (drop n ds))"
  using assms(2)
proof (induction "length ds - n" arbitrary: n s)
  case 0
  then show ?case
    using assms(1) by (subst for_mmap.simps) (simp add: MemoryMapIterator_next_def valid_mmap_def)
next
  case (Suc k)
  let ?d = "descriptor_size mmap"
  have n: "n < length ds" using Suc.hyps(2) by simp
  then have le: "Suc n * ?d \<le> length ds * ?d" by (intro mult_le_mono1) simp
  have "n * ?d < length ds * ?d" using n assms(1) by (simp add: valid_mmap_def)
  then have nxt: "MemoryMapIterator_next mmap (n * ?d) = Ok (Some (ds ! n, Suc n * ?d))"
    using assms(1) n le
    by (auto simp: MemoryMapIterator_next_def valid_mmap_def add_u_def add.commute)
  have "drop n ds = ds ! n # drop (Suc n) ds" using n by (simp add: Cons_nth_drop_Suc)
  moreover have "for_mmap mmap body s' (Suc n * ?d) = Some (fold_res body s' (drop (Suc n) ds))" for s'
    using Suc.hyps(1) [of "Suc n" s'] Suc.hyps(2) n by simp
  ultimately show ?case
    by (subst for_mmap.simps) (simp add: nxt split: res.split)
qed

lemma for_mmap_valid:
  "valid_mmap mmap ds \<Longrightarrow> for_mmap mmap body s 0 = Some (fold_res body s ds)"
  using for_mmap_valid_from [of mmap ds 0] by simp

lemma read_le_bound: "read_le bs ofs n = Ok x \<Longrightarrow> x < 256 ^ n"
  using le_nat_bound [of "take n (drop ofs bs)"] by (auto simp: read_le_def split: if_splits)

lemma read_descriptor_bounds:
  assumes "read_descriptor buf ofs = Ok e"
  shows "physical_start e < 2 ^ 64" "number_of_pages e < 2 ^ 64"
  using assms by (auto simp: read_descriptor_def res_simps dest!: read_le_bound)

end
