(* ===== verification/First_Fit.thy ===== *)
theory First_Fit
  imports Uefi_Memory
begin

text \<open>
  The kernel's global allocator (\<^verbatim>\<open>allocator.rs\<close>). Memory is the map \<open>headers\<close> from an
  address to the \<^verbatim>\<open>Header\<close> stored there; a raw write destroys every header it overlaps
  (\<open>clobber\<close>), and reading an address that holds no header is \<open>UB\<close>, so the theorems below
  also show that the unsafe code only dereferences headers that are really there.

  The abstract view is the list of blocks \<open>(address, size, allocated)\<close> on the chain from
  \<^verbatim>\<open>first_header\<close>. The invariant \<open>heap_inv\<close> says the chain is that list, and that its blocks
  are 32-byte granular, inside the address space and pairwise disjoint. \<open>spec_alloc\<close> is
  first fit on lists; \<open>alloc_loop_spec\<close> shows that the pointer walk computes it.
\<close>

section \<open>Rounding\<close>

definition checked_shl64 :: "u64 \<Rightarrow> nat \<Rightarrow> u64 option" where
  "checked_shl64 v n = (if n < 64 then Some (push_bit n v) else None)"

definition round_up_to_nearest_pow2 :: "usize \<Rightarrow> usize res" where
  "round_up_to_nearest_pow2 v =
     ok_or (map_option unat (checked_shl64 1 (64 - leading_zeros (word_of_nat v - 1 :: u64))))
       ''Out of range''"

section \<open>Headers in memory\<close>

record Header =
  next_header :: "usize option"
  hdr_size :: usize
  is_allocated :: bool

definition HEADER_SIZE :: usize where
  "HEADER_SIZE = 32"

type_synonym header_mem = "usize \<Rightarrow> Header option"

record heap_state =
  first_header :: "usize option"
  headers :: header_mem

definition clobber :: "header_mem \<Rightarrow> usize \<Rightarrow> usize \<Rightarrow> header_mem" where
  "clobber m a n = (\<lambda>x. if x < a + n \<and> a < x + HEADER_SIZE then None else m x)"

definition new_from_addr :: "header_mem \<Rightarrow> usize \<Rightarrow> header_mem" where
  "new_from_addr m addr = (clobber m addr HEADER_SIZE)
     (addr := Some \<lparr>next_header = None, hdr_size = 0, is_allocated = False\<rparr>)"

definition get_header :: "header_mem \<Rightarrow> usize \<Rightarrow> Header res" where
  "get_header m a = (case m a of None \<Rightarrow> UB | Some h \<Rightarrow> Ok h)"

definition end_addr :: "usize \<Rightarrow> Header \<Rightarrow> usize res" where
  "end_addr self h = add64 self (hdr_size h)"

definition can_provide :: "Header \<Rightarrow> usize \<Rightarrow> usize \<Rightarrow> bool res" where
  "can_provide h sz align =
     and_then (add64 sz (HEADER_SIZE * 2)) (\<lambda>x.
     and_then (add64 x align) (\<lambda>n. Ok (n \<le> hdr_size h)))"

section \<open>Allocation\<close>

text \<open>
  \<^verbatim>\<open>Header::provide\<close> in the order of its statements: the header for the allocated object takes
  over \<^verbatim>\<open>self\<close>'s successor (\<open>link_allocated\<close>), a padding header follows it when the object does
  not end where \<^verbatim>\<open>self\<close> ends (\<open>link_padding\<close>), and \<^verbatim>\<open>self\<close> is shrunk (\<open>shrink_self\<close>).
\<close>

definition link_allocated :: "header_mem \<Rightarrow> usize \<Rightarrow> usize \<Rightarrow> usize \<Rightarrow> header_mem res" where
  "link_allocated m self ha ha_size =
     (let m1 = new_from_addr m ha in
      and_then (get_header m1 self) (\<lambda>self1.
      Ok (m1(self := Some (self1\<lparr>next_header := None\<rparr>),
             ha := Some \<lparr>next_header = next_header self1, hdr_size = ha_size,
                         is_allocated = True\<rparr>))))"

definition link_padding ::
    "header_mem \<Rightarrow> usize \<Rightarrow> usize \<Rightarrow> usize \<Rightarrow> usize \<Rightarrow> (header_mem \<times> usize) res" where
  "link_padding m2 ha ha_size ha_end self_end =
     (if ha_end \<noteq> self_end then
        (let m3 = new_from_addr m2 ha_end in
         and_then (sub_u self_end ha_end) (\<lambda>pad_size.
         and_then (add64 ha_size pad_size) (\<lambda>used.
         and_then (get_header m3 ha) (\<lambda>hh.
         Ok (m3(ha_end := Some \<lparr>next_header = next_header hh, hdr_size = pad_size,
                                is_allocated = False\<rparr>,
                ha := Some (hh\<lparr>next_header := Some ha_end\<rparr>)), used)))))
      else Ok (m2, ha_size))"

definition shrink_self :: "header_mem \<Rightarrow> usize \<Rightarrow> usize \<Rightarrow> usize \<Rightarrow> header_mem res" where
  "shrink_self m4 self ha size_used =
     and_then (get_header m4 self) (\<lambda>self4.
     and_then (add64 size_used HEADER_SIZE) (\<lambda>need.
     and_then (assert_that (need \<le> hdr_size self4)
                 ''self.size >= size_used + HEADER_SIZE'') (\<lambda>_.
     Ok (m4(self := Some (self4\<lparr>hdr_size := hdr_size self4 - size_used,
                                next_header := Some ha\<rparr>))))))"

definition provide ::
    "header_mem \<Rightarrow> usize \<Rightarrow> usize \<Rightarrow> usize \<Rightarrow> (usize option \<times> header_mem) res" where
  "provide m self size0 align0 =
    (case round_up_to_nearest_pow2 size0 of
       Ok p2 \<Rightarrow>
        (let sz = max p2 HEADER_SIZE; align = max align0 HEADER_SIZE in
         and_then (get_header m self) (\<lambda>h.
         and_then (if is_allocated h then Ok False else can_provide h sz align) (\<lambda>ok.
         if \<not> ok then Ok (None, m) else
         and_then (end_addr self h) (\<lambda>self_end.
         and_then (sub_u self_end sz) (\<lambda>top.
         let allocated_addr = and_not64 top (align - 1) in
         and_then (sub_u allocated_addr HEADER_SIZE) (\<lambda>ha.
         and_then (add64 sz HEADER_SIZE) (\<lambda>ha_size.
         and_then (link_allocated m self ha ha_size) (\<lambda>m2.
         and_then (add64 ha ha_size) (\<lambda>ha_end.
         and_then (link_padding m2 ha ha_size ha_end self_end) (\<lambda>(m4, size_used).
         and_then (shrink_self m4 self ha size_used) (\<lambda>m5.
         Ok (Some allocated_addr, m5))))))))))))
     | _ \<Rightarrow> Ok (None, m))"

partial_function (option) alloc_loop ::
    "header_mem \<Rightarrow> usize option \<Rightarrow> usize \<Rightarrow> usize \<Rightarrow> (usize \<times> header_mem) res option" where
  "alloc_loop m header sz align =
    (case header of
       None \<Rightarrow> Some (Ok (0, m))
     | Some e \<Rightarrow>
        (case provide m e sz align of
           Ok (Some p, m') \<Rightarrow> Some (Ok (p, m'))
         | Ok (None, m') \<Rightarrow>
             (case get_header m' e of
                Ok h \<Rightarrow> alloc_loop m' (next_header h) sz align
              | Err x \<Rightarrow> Some (Err x) | Panic x \<Rightarrow> Some (Panic x) | UB \<Rightarrow> Some UB)
         | Err x \<Rightarrow> Some (Err x) | Panic x \<Rightarrow> Some (Panic x) | UB \<Rightarrow> Some UB))"

definition alloc_with_options ::
    "heap_state \<Rightarrow> usize \<Rightarrow> usize \<Rightarrow> (usize \<times> heap_state) res option" where
  "alloc_with_options s sz align =
     map_option (\<lambda>r. and_then r (\<lambda>(p, m). Ok (p, s\<lparr>headers := m\<rparr>)))
       (alloc_loop (headers s) (first_header s) sz align)"

definition dealloc :: "heap_state \<Rightarrow> usize \<Rightarrow> heap_state res" where
  "dealloc s ptr =
     and_then (sub_u ptr HEADER_SIZE) (\<lambda>a.
     and_then (get_header (headers s) a) (\<lambda>h.
     Ok (s\<lparr>headers := (headers s)(a := Some (h\<lparr>is_allocated := False\<rparr>))\<rparr>)))"

section \<open>Filling the free list from the memory map\<close>

definition add_free_from_descriptor :: "heap_state \<Rightarrow> EfiMemoryDescriptor \<Rightarrow> heap_state res" where
  "add_free_from_descriptor s desc =
     and_then (mul64 (number_of_pages desc) 4096) (\<lambda>sz0.
     let (start_addr, sz) =
           (if physical_start desc = 0 then (4096, saturating_sub sz0 4096)
            else (physical_start desc, sz0)) in
     if sz \<le> 4096 then Ok s
     else
       (let m1 = new_from_addr (headers s) start_addr in
        Ok (s\<lparr>first_header := Some start_addr,
              headers := m1(start_addr := Some \<lparr>next_header = first_header s, hdr_size = sz,
                                                is_allocated = False\<rparr>)\<rparr>)))"

definition init_with_mmap :: "heap_state \<Rightarrow> MemoryMapHolder \<Rightarrow> heap_state res option" where
  "init_with_mmap s mmap =
     for_mmap mmap
       (\<lambda>s e. if memory_type e \<noteq> CONVENTIONAL_MEMORY then Ok s else add_free_from_descriptor s e)
       s 0"

definition ALLOCATOR :: heap_state where
  "ALLOCATOR = \<lparr>first_header = None, headers = (\<lambda>_. None)\<rparr>"

section \<open>Rounding up to a power of two\<close>

lemma round_up_eq:
  assumes "v < 2 ^ 64"
  shows "round_up_to_nearest_pow2 v =
    (if 0 < v \<and> v \<le> 2 ^ 63 then Ok (2 ^ bit_len (v - 1)) else Err ''Out of range'')"
proof (cases "v = 0")
  case True
  have "unat (- 1 :: u64) = 2 ^ 64 - 1"
    by (simp add: unsigned_minus_1_eq_mask mask_eq_exp_minus_1)
  moreover have "\<not> bit_len (2 ^ 64 - 1) \<le> 63" unfolding bit_len_le_iff by simp
  moreover have "bit_len (2 ^ 64 - 1) \<le> 64" unfolding bit_len_le_iff by simp
  ultimately show ?thesis using True
    by (simp add: round_up_to_nearest_pow2_def leading_zeros_def checked_shl64_def)
next
  case False
  have "unat (word_of_nat v - 1 :: u64) = v - 1"
  proof -
    have "(word_of_nat v - 1 :: u64) = word_of_nat (v - 1)"
      using False by (simp add: of_nat_diff)
    then show ?thesis using assms by (simp add: unat_of_nat take_bit_eq_mod)
  qed
  moreover have "bit_len (v - 1) \<le> 64" using assms by (simp add: bit_len_le_iff)
  moreover have "bit_len (v - 1) \<le> 63 \<longleftrightarrow> v \<le> 2 ^ 63"
    using False unfolding bit_len_le_iff by auto
  moreover have "unat (push_bit k (1 :: u64)) = 2 ^ k" if "k < 64" for k
  proof -
    have "(2 :: nat) ^ k < 2 ^ 64" using that by (intro power_strict_increasing) simp_all
    moreover have "push_bit k (1 :: u64) = word_of_nat (2 ^ k)" by simp
    ultimately show ?thesis by (simp only: unat_of_nat take_bit_eq_mod) simp
  qed
  ultimately show ?thesis using False
    by (auto simp: round_up_to_nearest_pow2_def leading_zeros_def checked_shl64_def less_Suc_eq_le)
qed

lemma le_pow2_bit_len: "0 < v \<Longrightarrow> v \<le> 2 ^ bit_len (v - 1)"
  using bit_len_le_iff [of "v - 1" "bit_len (v - 1)"] by simp

lemma pow2_bit_len_least:
  assumes "0 < v" "v \<le> 2 ^ k"
  shows "(2 :: nat) ^ bit_len (v - 1) \<le> 2 ^ k"
  using assms by (simp add: bit_len_le_iff)

section \<open>Blocks, the chain and the invariant\<close>

type_synonym block = "usize \<times> usize \<times> bool"

fun wf_block :: "block \<Rightarrow> bool" where
  "wf_block (a, s, al) \<longleftrightarrow> 0 < a \<and> 32 dvd a \<and> 32 dvd s \<and> 32 \<le> s \<and> a + s < 2 ^ 64"

fun blk_disj :: "block \<Rightarrow> block \<Rightarrow> bool" where
  "blk_disj (a, s, _) (b, t, _) \<longleftrightarrow> a + s \<le> b \<or> b + t \<le> a"

fun chain :: "header_mem \<Rightarrow> usize option \<Rightarrow> block list \<Rightarrow> bool" where
  "chain m None [] = True"
| "chain m (Some a) ((b, s, al) # bs) =
     (a = b \<and> (case m a of None \<Rightarrow> False
               | Some h \<Rightarrow> hdr_size h = s \<and> is_allocated h = al \<and> chain m (next_header h) bs))"
| "chain m _ _ = False"

definition heap_inv :: "heap_state \<Rightarrow> block list \<Rightarrow> bool" where
  "heap_inv s bs \<longleftrightarrow> chain (headers s) (first_header s) bs \<and> list_all wf_block bs \<and>
     sorted_wrt blk_disj bs"

lemma blk_disj_sym: "blk_disj x y \<Longrightarrow> blk_disj y x"
  by (cases x; cases y) auto

lemma chain_Some:
  "chain m (Some a) bs \<longleftrightarrow>
    (\<exists>h bs'. m a = Some h \<and> bs = (a, hdr_size h, is_allocated h) # bs' \<and> chain m (next_header h) bs')"
  by (cases bs) (auto split: option.splits)

lemma chain_None [simp]: "chain m None bs \<longleftrightarrow> bs = []"
  by (cases bs) auto

lemma chain_cong:
  assumes "\<And>b. b \<in> set bs \<Longrightarrow> m' (fst b) = m (fst b)"
  shows "chain m' p bs = chain m p bs"
  using assms
proof (induction bs arbitrary: p)
  case Nil
  then show ?case by (cases p) auto
next
  case (Cons b bs)
  have "m' (fst b) = m (fst b)" and "\<And>p. chain m' p bs = chain m p bs"
    using Cons by simp_all
  then show ?case by (cases p; cases b) (simp_all cong: conj_cong option.case_cong)
qed

lemma chain_unique: "chain m p bs \<Longrightarrow> chain m p bs2 \<Longrightarrow> bs = bs2"
proof (induction bs arbitrary: p bs2)
  case Nil
  then show ?case by (cases p; cases bs2) auto
next
  case (Cons b bs)
  then obtain a where p: "p = Some a" by (cases p) auto
  then show ?case using Cons.prems Cons.IH by (auto simp: chain_Some)
qed

lemma heap_inv_unique: "heap_inv s bs \<Longrightarrow> heap_inv s bs2 \<Longrightarrow> bs = bs2"
  unfolding heap_inv_def using chain_unique by blast

section \<open>First fit on lists\<close>

definition eff_size :: "usize \<Rightarrow> usize" where
  "eff_size n = max (2 ^ bit_len (n - 1)) 32"

definition eff_align :: "usize \<Rightarrow> usize" where
  "eff_align n = max n 32"

text \<open>What \<^verbatim>\<open>core::alloc::Layout\<close> guarantees of every layout.\<close>

definition layout_ok :: "usize \<Rightarrow> usize \<Rightarrow> bool" where
  "layout_ok n align \<longleftrightarrow> is_pow2 align \<and> align \<le> 2 ^ 63 \<and> n \<le> 2 ^ 63 - align"

definition fits :: "usize \<Rightarrow> usize \<Rightarrow> block \<Rightarrow> bool" where
  "fits n align b \<longleftrightarrow> (case b of (a, s, al) \<Rightarrow>
     0 < n \<and> \<not> al \<and> eff_size n + 64 + eff_align align \<le> s)"

definition alloc_addr :: "usize \<Rightarrow> usize \<Rightarrow> block \<Rightarrow> usize" where
  "alloc_addr n align b = (case b of (a, s, al) \<Rightarrow>
     (let top = a + s - eff_size n in top - top mod eff_align align))"

definition split_block :: "usize \<Rightarrow> usize \<Rightarrow> block \<Rightarrow> block list" where
  "split_block n align b = (case b of (a, s, al) \<Rightarrow>
     (let p = alloc_addr n align b in
      [(a, p - 32 - a, False), (p - 32, eff_size n + 32, True)] @
      (if p + eff_size n \<noteq> a + s then [(p + eff_size n, a + s - (p + eff_size n), False)] else [])))"

fun spec_alloc :: "usize \<Rightarrow> usize \<Rightarrow> block list \<Rightarrow> usize \<times> block list" where
  "spec_alloc n align [] = (0, [])"
| "spec_alloc n align (b # bs) =
     (if fits n align b then (alloc_addr n align b, split_block n align b @ bs)
      else (let (p, bs') = spec_alloc n align bs in (p, b # bs')))"

text \<open>The arithmetic of one split, stated once for the proofs that follow.\<close>

lemma eff_align_pow2:
  assumes "layout_ok n align"
  obtains k where "eff_align align = 2 ^ k" "k < 64" "32 dvd eff_align align"
proof -
  have 32: "is_pow2 32" using is_pow2_iff [of 32] by (auto intro: exI [of _ 5])
  then have p: "is_pow2 (eff_align align)"
    using assms is_pow2_max by (simp add: eff_align_def layout_ok_def)
  then obtain k where k: "eff_align align = 2 ^ k" by (auto simp: is_pow2_iff)
  have "eff_align align \<le> 2 ^ 63" using assms by (simp add: eff_align_def layout_ok_def)
  then have "k \<le> 63" unfolding k by (rule power_le_imp_le_exp [rotated]) simp
  then have "k < 64" by simp
  moreover have "32 dvd eff_align align" using pow2_dvd [OF 32 p] by (simp add: eff_align_def)
  ultimately show thesis using that k by blast
qed

lemma eff_size_dvd: "32 dvd eff_size n"
proof -
  have 32: "is_pow2 32" using is_pow2_iff [of 32] by (auto intro: exI [of _ 5])
  have "is_pow2 (2 ^ bit_len (n - 1))" by (auto simp: is_pow2_iff)
  then have "is_pow2 (eff_size n)" unfolding eff_size_def using 32 by (rule is_pow2_max)
  with 32 show ?thesis by (rule pow2_dvd) (simp add: eff_size_def)
qed

lemma eff_size_ge: "n \<le> eff_size n"
  using le_pow2_bit_len [of n] by (cases "n = 0") (auto simp: eff_size_def)

lemma request_no_overflow:
  assumes "layout_ok n align" "0 < n"
  shows "eff_size n + 64 + eff_align align < 2 ^ 64"
proof -
  have a: "align \<le> 2 ^ 62"
  proof (rule ccontr)
    assume "\<not> align \<le> 2 ^ 62"
    moreover obtain k where "align = 2 ^ k" using assms(1) by (auto simp: layout_ok_def is_pow2_iff)
    ultimately have "(2 :: nat) ^ 62 < 2 ^ k" by simp
    then have "62 < k" by (rule power_less_imp_less_exp [rotated]) simp
    then have "(2 :: nat) ^ 63 \<le> 2 ^ k" by (intro power_increasing) simp_all
    then show False using assms \<open>align = 2 ^ k\<close> by (simp add: layout_ok_def)
  qed
  have "n \<le> 2 ^ 63" using assms(1) by (auto simp: layout_ok_def)
  then have "(2 :: nat) ^ bit_len (n - 1) \<le> 2 ^ 63" using assms(2) by (rule pow2_bit_len_least [rotated])
  then show ?thesis using a by (simp add: eff_size_def eff_align_def)
qed

lemma split_arith:
  fixes a s sz al p :: nat
  assumes "32 dvd a" "32 dvd s" "32 dvd sz" "32 dvd al" "sz + 64 + al \<le> s" "0 < al"
    and p: "p = (a + s - sz) - (a + s - sz) mod al"
  shows "al dvd p" "32 dvd p" "a + 64 < p" "p + sz \<le> a + s"
    "p + sz \<noteq> a + s \<Longrightarrow> p + sz + 32 \<le> a + s" "32 dvd p + sz"
proof -
  let ?t = "a + s - sz"
  have m: "?t mod al < al" using assms(6) by simp
  have "p = ?t div al * al" unfolding p by (simp add: minus_mod_eq_div_mult)
  then show d: "al dvd p" by simp
  then show d32: "32 dvd p" using assms(4) dvd_trans by blast
  show "a + 64 < p" using m assms(5) p by linarith
  show le: "p + sz \<le> a + s" using assms(5) p by linarith
  show ds: "32 dvd p + sz" using d32 assms(3) by simp
  assume ne: "p + sz \<noteq> a + s"
  have "32 dvd (a + s) - (p + sz)" by (rule dvd_diff_nat [OF dvd_add [OF assms(1,2)] ds])
  moreover have "0 < (a + s) - (p + sz)" using ne le by simp
  ultimately have "32 \<le> (a + s) - (p + sz)" by (rule dvd_imp_le)
  then show "p + sz + 32 \<le> a + s" using le by linarith
qed

lemmas header_defs = get_header_def end_addr_def can_provide_def new_from_addr_def clobber_def
  HEADER_SIZE_def

lemma provide_None:
  assumes "m a = Some h" "layout_ok n align" "\<not> fits n align (a, hdr_size h, is_allocated h)"
    "n < 2 ^ 64"
  shows "provide m a n align = Ok (None, m)"
proof (cases "n = 0")
  case True
  then show ?thesis by (simp add: provide_def round_up_eq)
next
  case False
  then have "n \<le> 2 ^ 63" using assms(2) by (auto simp: layout_ok_def)
  then have r: "round_up_to_nearest_pow2 n = Ok (2 ^ bit_len (n - 1))"
    using assms(4) False by (simp add: round_up_eq)
  have "eff_size n + 64 + eff_align align < 2 ^ 64"
    using request_no_overflow assms(2) False by simp
  then show ?thesis using assms(1,3) False unfolding provide_def r
    by (auto simp: Let_def header_defs add_u_def fits_def eff_size_def eff_align_def max.commute)
qed

lemma link_allocated_spec:
  assumes "m a = Some h" "a + 32 \<le> ha"
  shows "\<exists>m2. link_allocated m a ha z = Ok m2 \<and> m2 a = Some (h\<lparr>next_header := None\<rparr>) \<and>
    m2 ha = Some \<lparr>next_header = next_header h, hdr_size = z, is_allocated = True\<rparr> \<and>
    (\<forall>x. x \<noteq> a \<and> x + 32 \<le> ha \<or> ha + 32 \<le> x \<longrightarrow> m2 x = m x)"
  using assms by (auto simp: link_allocated_def header_defs)

lemma link_padding_spec:
  assumes "m ha = Some h" "ha + 32 \<le> he" "he \<le> e" "z + (e - he) < 2 ^ 64"
  shows "\<exists>m4. link_padding m ha z he e = Ok (m4, z + (e - he)) \<and>
    m4 ha = Some (if he \<noteq> e then h\<lparr>next_header := Some he\<rparr> else h) \<and>
    (he \<noteq> e \<longrightarrow> m4 he = Some \<lparr>next_header = next_header h, hdr_size = e - he,
                               is_allocated = False\<rparr>) \<and>
    (\<forall>x. x \<noteq> ha \<and> x + 32 \<le> he \<or> he + 32 \<le> x \<or> he = e \<longrightarrow> m4 x = m x)"
  using assms by (auto simp: link_padding_def header_defs add_u_def sub_u_def Let_def)

lemma shrink_self_spec:
  assumes "m a = Some h" "used + 32 \<le> hdr_size h" "hdr_size h < 2 ^ 64"
  shows "shrink_self m a ha used =
    Ok (m(a := Some (h\<lparr>hdr_size := hdr_size h - used, next_header := Some ha\<rparr>)))"
  using assms by (simp add: shrink_self_def header_defs add_u_def)

lemma provide_Some:
  assumes h: "m a = Some h" and lay: "layout_ok n align" and n: "n < 2 ^ 64"
    and fit: "fits n align (a, hdr_size h, is_allocated h)"
    and wf: "wf_block (a, hdr_size h, is_allocated h)"
  defines "p \<equiv> alloc_addr n align (a, hdr_size h, is_allocated h)"
    and "sz \<equiv> eff_size n" and "e \<equiv> a + hdr_size h"
  shows "\<exists>m'. provide m a n align = Ok (Some p, m') \<and>
    m' a = Some \<lparr>next_header = Some (p - 32), hdr_size = p - 32 - a, is_allocated = False\<rparr> \<and>
    m' (p - 32) = Some \<lparr>next_header = (if p + sz \<noteq> e then Some (p + sz) else next_header h),
                        hdr_size = sz + 32, is_allocated = True\<rparr> \<and>
    (p + sz \<noteq> e \<longrightarrow> m' (p + sz) =
       Some \<lparr>next_header = next_header h, hdr_size = e - (p + sz), is_allocated = False\<rparr>) \<and>
    (\<forall>x. x + 32 \<le> a \<or> e \<le> x \<longrightarrow> m' x = m x)"
proof -
  have n0: "0 < n" and free: "\<not> is_allocated h"
    and room: "sz + 64 + eff_align align \<le> hdr_size h"
    using fit by (auto simp: fits_def sz_def)
  obtain k where k: "eff_align align = 2 ^ k" "k < 64" "32 dvd eff_align align"
    using eff_align_pow2 [OF lay] by blast
  have p: "p = (e - sz) - (e - sz) mod eff_align align"
    by (simp add: p_def alloc_addr_def e_def sz_def Let_def)
  have e64: "e < 2 ^ 64" using wf by (simp add: e_def)
  have sz32: "32 \<le> sz" by (simp add: sz_def eff_size_def)
  have "32 dvd a" "32 dvd hdr_size h" "32 dvd sz" using wf eff_size_dvd by (auto simp: sz_def)
  note A = split_arith [OF this k(3) room _ p [unfolded e_def]]
  have pa: "a + 64 < p" and pe: "p + sz \<le> e" and pad: "p + sz \<noteq> e \<Longrightarrow> p + sz + 32 \<le> e"
    using A k(1) unfolding e_def by simp_all
  have lv: "and_not64 (e - sz) (eff_align align - 1) = p"
    unfolding p k(1) using e64 k(2) by (intro and_not64_pow2) simp_all
  have "n \<le> 2 ^ 63" using lay by (auto simp: layout_ok_def)
  then have r: "round_up_to_nearest_pow2 n = Ok (2 ^ bit_len (n - 1))"
    using n n0 by (simp add: round_up_eq)
  have sz': "max (2 ^ bit_len (n - 1)) HEADER_SIZE = sz" "max align HEADER_SIZE = eff_align align"
    by (simp_all add: sz_def eff_size_def eff_align_def HEADER_SIZE_def)
  have cp: "can_provide h sz (eff_align align) = Ok True"
    using room request_no_overflow [OF lay n0]
    by (simp add: can_provide_def add_u_def HEADER_SIZE_def sz_def)
  have arith: "p - 32 + (sz + 32) = p + sz" "p + sz < 2 ^ 64" "sz + 32 < 2 ^ 64" "sz \<le> e"
    "sz + 32 + (e - (p + sz)) < 2 ^ 64" "sz + 32 + (e - (p + sz)) + 32 \<le> hdr_size h"
    "sz + 32 + (e - (p + sz)) + 32 < 2 ^ 64"
    "hdr_size h - (sz + 32 + (e - (p + sz))) = p - 32 - a" "p - 32 \<noteq> a" "p + sz \<noteq> a"
    "p + sz \<noteq> p - 32" "32 \<le> p" "a < p" "\<not> p < a + 64"
    using pa pe e64 sz32 unfolding e_def by linarith+
  let ?ha = "p - 32" and ?he = "p + sz"
  let ?h2 = "\<lparr>next_header = next_header h, hdr_size = sz + 32, is_allocated = True\<rparr>"
  have g: "a + 32 \<le> ?ha" "?ha + 32 \<le> ?he" using pa sz32 by linarith+
  obtain m2 where m2: "link_allocated m a ?ha (sz + 32) = Ok m2"
    "m2 a = Some (h\<lparr>next_header := None\<rparr>)" "m2 ?ha = Some ?h2"
    "\<And>x. x \<noteq> a \<and> x + 32 \<le> ?ha \<or> ?ha + 32 \<le> x \<Longrightarrow> m2 x = m x"
    using link_allocated_spec [of m a, OF h g(1), of "sz + 32"] by blast
  obtain m4 where m4: "link_padding m2 ?ha (sz + 32) ?he e = Ok (m4, sz + 32 + (e - ?he))"
    "m4 ?ha = Some (if ?he \<noteq> e then ?h2\<lparr>next_header := Some ?he\<rparr> else ?h2)"
    "?he \<noteq> e \<Longrightarrow> m4 ?he = Some \<lparr>next_header = next_header h, hdr_size = e - ?he, is_allocated = False\<rparr>"
    "\<And>x. x \<noteq> ?ha \<and> x + 32 \<le> ?he \<or> ?he + 32 \<le> x \<or> ?he = e \<Longrightarrow> m4 x = m2 x"
    using link_padding_spec [of m2 ?ha, OF m2(3) g(2) pe arith(5)] by auto
  have "m4 a = m2 a" using pa by (intro m4(4)) linarith
  then have m4a: "m4 a = Some (h\<lparr>next_header := None\<rparr>)" using m2(2) by simp
  let ?m5 = "m4(a := Some \<lparr>next_header = Some ?ha, hdr_size = p - 32 - a, is_allocated = False\<rparr>)"
  have sh: "shrink_self m4 a ?ha (sz + 32 + (e - ?he)) = Ok ?m5"
  proof -
    have "h\<lparr>hdr_size := x, next_header := y\<rparr> =
        \<lparr>next_header = y, hdr_size = x, is_allocated = False\<rparr>" for x y
      using free by (cases h) simp
    then show ?thesis
      using shrink_self_spec [of m4 a, OF m4a, of "sz + 32 + (e - ?he)" ?ha] arith wf by simp
  qed
  have "provide m a n align = Ok (Some p, ?m5)"
    unfolding provide_def r res.case Let_def sz'
    using h free cp arith e64 lv m2(1) m4(1) sh
    by (simp add: get_header_def end_addr_def add_u_def sub_u_def HEADER_SIZE_def less_diff_conv2
        flip: e_def)
  moreover have "\<forall>x. x + 32 \<le> a \<or> e \<le> x \<longrightarrow> ?m5 x = m x"
  proof (intro allI impI)
    fix x assume x: "x + 32 \<le> a \<or> e \<le> x"
    then have "m2 x = m x" using pa pe sz32 by (intro m2(4)) linarith
    moreover have "m4 x = m2 x" using x pa pe pad sz32 by (intro m4(4)) linarith
    moreover have "x \<noteq> a" using x pa pe by linarith
    ultimately show "?m5 x = m x" by simp
  qed
  ultimately show ?thesis using m4(2,3) arith by (intro exI [of _ ?m5]) simp
qed

section \<open>The pointer walk computes first fit\<close>

definition apart :: "usize \<Rightarrow> block \<Rightarrow> bool" where
  "apart x b \<longleftrightarrow> x + 32 \<le> fst b \<or> fst b + fst (snd b) \<le> x"

lemma blk_disj_apart: "wf_block b \<Longrightarrow> blk_disj b c \<Longrightarrow> apart (fst b) c"
  by (cases b; cases c) (auto simp: apart_def)

lemma layout_ok_64: "layout_ok n align \<Longrightarrow> n < 2 ^ 64"
  by (auto simp: layout_ok_def)

lemma alloc_loop_step_fit:
  assumes h: "m a = Some h" and lay: "layout_ok n align" and b: "b = (a, hdr_size h, is_allocated h)"
    and fit: "fits n align b" and wf: "list_all wf_block (b # bs)" and d: "sorted_wrt blk_disj (b # bs)"
    and ch: "chain m (next_header h) bs"
  shows "\<exists>m'. alloc_loop m (Some a) n align = Some (Ok (alloc_addr n align b, m')) \<and>
    chain m' (Some a) (split_block n align b @ bs) \<and> (\<forall>x. apart x b \<longrightarrow> m' x = m x)"
proof -
  let ?p = "alloc_addr n align b" and ?sz = "eff_size n" and ?e = "a + hdr_size h"
  obtain m' where pr: "provide m a n align = Ok (Some ?p, m')"
    and m': "m' a = Some \<lparr>next_header = Some (?p - 32), hdr_size = ?p - 32 - a, is_allocated = False\<rparr>"
      "m' (?p - 32) = Some \<lparr>next_header = (if ?p + ?sz \<noteq> ?e then Some (?p + ?sz) else next_header h),
                            hdr_size = ?sz + 32, is_allocated = True\<rparr>"
      "?p + ?sz \<noteq> ?e \<longrightarrow> m' (?p + ?sz) =
         Some \<lparr>next_header = next_header h, hdr_size = ?e - (?p + ?sz), is_allocated = False\<rparr>"
      "\<forall>x. x + 32 \<le> a \<or> ?e \<le> x \<longrightarrow> m' x = m x"
    using provide_Some [of m a, OF h lay layout_ok_64 [OF lay], folded b] fit wf by auto
  have "chain m' (next_header h) bs"
  proof -
    have "m' (fst c) = m (fst c)" if "c \<in> set bs" for c
    proof -
      have "blk_disj c b" "wf_block c"
        using that d wf by (auto simp: list_all_iff intro: blk_disj_sym)
      then have "apart (fst c) b" by (rule blk_disj_apart [rotated])
      then show ?thesis using m'(4) by (auto simp: apart_def b)
    qed
    then have "chain m' (next_header h) bs = chain m (next_header h) bs" by (rule chain_cong)
    then show ?thesis using ch by simp
  qed
  then have "chain m' (Some a) (split_block n align b @ bs)"
    using m'(1-3) by (simp add: split_block_def b Let_def)
  moreover have "alloc_loop m (Some a) n align = Some (Ok (?p, m'))"
    by (simp add: alloc_loop.simps pr)
  ultimately show ?thesis using m'(4) b by (auto simp: apart_def)
qed

lemma alloc_loop_spec:
  assumes "chain m p bs" "list_all wf_block bs" "sorted_wrt blk_disj bs" "layout_ok n align"
  shows "\<exists>m'. alloc_loop m p n align = Some (Ok (fst (spec_alloc n align bs), m')) \<and>
    chain m' p (snd (spec_alloc n align bs)) \<and>
    (\<forall>x. (\<forall>b \<in> set bs. apart x b) \<longrightarrow> m' x = m x)"
  using assms(1-3)
proof (induction bs arbitrary: p)
  case Nil
  then show ?case by (cases p) (auto simp: alloc_loop.simps)
next
  case (Cons b bs)
  then obtain a h where p: "p = Some a" and h: "m a = Some h"
    and b: "b = (a, hdr_size h, is_allocated h)" and ch: "chain m (next_header h) bs"
    by (cases p) (auto simp: chain_Some)
  show ?case
  proof (cases "fits n align b")
    case True
    with alloc_loop_step_fit [of m a, OF h assms(4) b True Cons.prems(2,3) ch] show ?thesis
      by (auto simp: p)
  next
    case False
    then have pr: "provide m a n align = Ok (None, m)"
      using provide_None [of m a, OF h assms(4)] layout_ok_64 [OF assms(4)] b by simp
    from Cons.IH [OF ch] Cons.prems obtain m' where
      m': "alloc_loop m (next_header h) n align = Some (Ok (fst (spec_alloc n align bs), m'))"
        "chain m' (next_header h) (snd (spec_alloc n align bs))"
        "\<forall>x. (\<forall>b \<in> set bs. apart x b) \<longrightarrow> m' x = m x"
      by auto
    have "\<forall>c \<in> set bs. apart a c"
      using Cons.prems(2,3) blk_disj_apart [of b] b by (auto simp: list_all_iff)
    then have "m' a = Some h" using m'(3) h by simp
    then show ?thesis using m' False
      by (auto simp: p b alloc_loop.simps [of m "Some a"] pr get_header_def h split: prod.splits)
  qed
qed

section \<open>First fit keeps the blocks well formed and disjoint\<close>

lemma split_block_facts:
  assumes wf: "wf_block b" and fit: "fits n align b" and lay: "layout_ok n align"
  defines "p \<equiv> alloc_addr n align b"
  shows "eff_align align dvd p" "fst b + 64 < p" "p + eff_size n \<le> fst b + fst (snd b)"
    "list_all wf_block (split_block n align b)" "sorted_wrt blk_disj (split_block n align b)"
    "\<And>c. c \<in> set (split_block n align b) \<Longrightarrow>
       fst b \<le> fst c \<and> fst c + fst (snd c) \<le> fst b + fst (snd b)"
    "sum_list (map (\<lambda>c. fst (snd c)) (split_block n align b)) = fst (snd b)"
proof -
  obtain a s al where b: "b = (a, s, al)" by (cases b)
  let ?z = "eff_size n"
  have room: "?z + 64 + eff_align align \<le> s" using fit by (simp add: b fits_def)
  have p: "p = (a + s - ?z) - (a + s - ?z) mod eff_align align"
    by (simp add: p_def b alloc_addr_def Let_def)
  have dv: "32 dvd a" "32 dvd s" "32 dvd ?z" "32 dvd eff_align align" "0 < eff_align align"
    using wf eff_size_dvd by (auto simp: b eff_align_def intro: eff_align_pow2 [OF lay, unfolded eff_align_def])
  note A = split_arith [OF dv(1-4) room dv(5) p]
  have z: "32 \<le> ?z" by (simp add: eff_size_def)
  have e: "a + s < 2 ^ 64" "0 < a" using wf by (auto simp: b)
  show "eff_align align dvd p" "fst b + 64 < p" "p + ?z \<le> fst b + fst (snd b)"
    using A by (simp_all add: b)
  have d1: "32 dvd p - 32 - a" "32 dvd p - 32" "32 dvd a + s - (p + ?z)" "32 dvd ?z + 32"
    using A(2,6) dv by (simp_all add: dvd_diff_nat)
  show "list_all wf_block (split_block n align b)"
    using A(3-6) d1 dv z e by (auto simp: split_block_def b Let_def p_def [unfolded b, symmetric])
  show "sorted_wrt blk_disj (split_block n align b)"
    using A(3-6) z by (auto simp: split_block_def b Let_def p_def [unfolded b, symmetric])
  show "fst b \<le> fst c \<and> fst c + fst (snd c) \<le> fst b + fst (snd b)"
    if "c \<in> set (split_block n align b)" for c
    using that A(3-5) z
    by (auto simp: split_block_def b Let_def p_def [unfolded b, symmetric] split: if_splits)
  show "sum_list (map (\<lambda>c. fst (snd c)) (split_block n align b)) = fst (snd b)"
    using A(3-5) z by (auto simp: split_block_def b Let_def p_def [unfolded b, symmetric])
qed

definition allocated :: "block list \<Rightarrow> block set" where
  "allocated bs = {c \<in> set bs. snd (snd c)}"

definition total_size :: "block list \<Rightarrow> nat" where
  "total_size bs = sum_list (map (\<lambda>c. fst (snd c)) bs)"

lemma allocated_append: "allocated (xs @ ys) = allocated xs \<union> allocated ys"
  by (auto simp: allocated_def)

lemma allocated_Cons: "allocated (b # bs) = (if snd (snd b) then {b} else {}) \<union> allocated bs"
  by (auto simp: allocated_def)

lemma total_size_append: "total_size (xs @ ys) = total_size xs + total_size ys"
  by (simp add: total_size_def)

lemma fits_free: "fits n align b \<Longrightarrow> \<not> snd (snd b) \<and> 0 < n"
  by (auto simp: fits_def split: prod.splits)

lemma spec_alloc_within:
  assumes "list_all wf_block bs" "layout_ok n align" "c \<in> set (snd (spec_alloc n align bs))"
  shows "\<exists>b \<in> set bs. fst b \<le> fst c \<and> fst c + fst (snd c) \<le> fst b + fst (snd b)"
  using assms
proof (induction bs)
  case (Cons b bs)
  then show ?case
    by (auto split: if_splits prod.splits dest: split_block_facts(6) [rotated 3])
qed simp

lemma blk_disj_sub:
  assumes "blk_disj b c" "fst b \<le> fst b'" "fst b' + fst (snd b') \<le> fst b + fst (snd b)"
  shows "blk_disj b' c"
  using assms by (cases b; cases c; cases b') auto

lemma spec_alloc_inv:
  assumes "list_all wf_block bs" "sorted_wrt blk_disj bs" "layout_ok n align"
  shows "list_all wf_block (snd (spec_alloc n align bs)) \<and>
    sorted_wrt blk_disj (snd (spec_alloc n align bs))"
  using assms(1,2)
proof (induction bs)
  case (Cons b bs)
  show ?case
  proof (cases "fits n align b")
    case True
    have wf: "wf_block b" using Cons.prems by simp
    note S = split_block_facts [OF wf True assms(3)]
    have "blk_disj c d" if "c \<in> set (split_block n align b)" "d \<in> set bs" for c d
      using blk_disj_sub [of b d c] S(6) [OF that(1)] that(2) Cons.prems(2) by simp
    then show ?thesis using True S(4,5) Cons.prems by (simp add: sorted_wrt_append)
  next
    case False
    have "blk_disj b c" if c: "c \<in> set (snd (spec_alloc n align bs))" for c
    proof -
      obtain d where "d \<in> set bs" "fst d \<le> fst c" "fst c + fst (snd c) \<le> fst d + fst (snd d)"
        using spec_alloc_within [OF _ assms(3) c] Cons.prems by auto
      then show ?thesis using blk_disj_sub blk_disj_sym Cons.prems(2) by (metis sorted_wrt.simps(2))
    qed
    then show ?thesis using False Cons by (auto split: prod.splits)
  qed
qed simp

lemma spec_alloc_result:
  assumes "list_all wf_block bs" "layout_ok n align" "spec_alloc n align bs = (p, bs')"
  shows "total_size bs' = total_size bs \<and>
    (p = 0 \<longleftrightarrow> list_all (\<lambda>b. \<not> fits n align b) bs) \<and>
    (p = 0 \<longrightarrow> bs' = bs) \<and>
    (p \<noteq> 0 \<longrightarrow> eff_align align dvd p \<and> 32 \<le> p \<and>
      allocated bs' = insert (p - 32, eff_size n + 32, True) (allocated bs) \<and>
      (\<exists>b \<in> set bs. fits n align b \<and> fst b + 64 < p \<and> p + eff_size n \<le> fst b + fst (snd b)))"
  using assms(1,3)
proof (induction bs arbitrary: p bs')
  case (Cons b bs)
  have wf: "wf_block b" "list_all wf_block bs" using Cons.prems(1) by simp_all
  show ?case
  proof (cases "fits n align b")
    case True
    note S = split_block_facts [OF wf(1) True assms(2)]
    have "allocated (split_block n align b) = {(alloc_addr n align b - 32, eff_size n + 32, True)}"
      by (cases b) (auto simp: split_block_def allocated_def Let_def split: if_splits)
    then have "allocated bs' = insert (p - 32, eff_size n + 32, True) (allocated (b # bs))"
      using True Cons.prems(2) fits_free [OF True] by (auto simp: allocated_append allocated_Cons)
    moreover have "p = alloc_addr n align b" "bs' = split_block n align b @ bs"
      using True Cons.prems(2) by simp_all
    ultimately show ?thesis using S(1,2,3,7) True by (simp add: total_size_def)
  next
    case False
    obtain q cs where q: "spec_alloc n align bs = (q, cs)" by fastforce
    then have "p = q" "bs' = b # cs" using Cons.prems(2) False by simp_all
    with Cons.IH [OF wf(2) q] False show ?thesis
      by (cases "q = 0") (simp_all add: allocated_Cons total_size_def insert_commute)
  qed
qed (auto simp: total_size_def)

section \<open>Deallocation, raw writes and the memory map\<close>

definition mark_free :: "usize \<Rightarrow> block list \<Rightarrow> block list" where
  "mark_free a = map (\<lambda>b. if fst b = a then (fst b, fst (snd b), False) else b)"

lemma chain_mem: "chain m p bs \<Longrightarrow> b \<in> set bs \<Longrightarrow>
    \<exists>h. m (fst b) = Some h \<and> b = (fst b, hdr_size h, is_allocated h)"
proof (induction bs arbitrary: p)
  case (Cons c bs)
  then show ?case by (cases p) (auto simp: chain_Some)
qed simp

lemma chain_mark_free:
  assumes "chain m p bs" "m a = Some h"
  shows "chain (m(a := Some (h\<lparr>is_allocated := False\<rparr>))) p (mark_free a bs)"
  using assms
proof (induction bs arbitrary: p)
  case Nil
  then show ?case by (cases p) (auto simp: mark_free_def)
next
  case (Cons c bs)
  then show ?case by (cases p) (auto simp: chain_Some mark_free_def)
qed

lemma mark_free_wf: "list_all wf_block bs \<Longrightarrow> list_all wf_block (mark_free a bs)"
  by (auto simp: mark_free_def list_all_iff)

lemma mark_free_disj:
  assumes "sorted_wrt blk_disj bs"
  shows "sorted_wrt blk_disj (mark_free a bs)"
proof -
  have "blk_disj (if fst c = a then (fst c, fst (snd c), False) else c)
      (if fst d = a then (fst d, fst (snd d), False) else d)" if "blk_disj c d" for c d
    using that by (cases c; cases d) auto
  then show ?thesis unfolding mark_free_def sorted_wrt_map
    by (intro sorted_wrt_mono_rel [OF _ assms])
qed

lemma blocks_distinct:
  assumes "list_all wf_block bs" "sorted_wrt blk_disj bs" "b \<in> set bs" "c \<in> set bs" "fst b = fst c"
  shows "b = c"
proof (rule ccontr)
  assume "b \<noteq> c"
  then have "blk_disj b c" using sorted_wrt_sym_mem [OF assms(2) blk_disj_sym] assms(3,4) by blast
  then show False using assms by (cases b; cases c) (auto simp: list_all_iff)
qed

lemma dealloc_spec:
  assumes "heap_inv s bs" "(p - 32, z, al) \<in> set bs" "32 \<le> p"
  shows "\<exists>s'. dealloc s p = Ok s' \<and> heap_inv s' (mark_free (p - 32) bs)"
proof -
  obtain h where h: "headers s (p - 32) = Some h"
    using chain_mem assms(1,2) by (fastforce simp: heap_inv_def)
  then show ?thesis using assms(1,3)
    by (auto simp: dealloc_def sub_u_def HEADER_SIZE_def get_header_def heap_inv_def
        chain_mark_free mark_free_wf mark_free_disj)
qed

lemma allocated_mark_free:
  assumes "list_all wf_block bs" "sorted_wrt blk_disj bs" "(a, z, True) \<in> set bs"
  shows "allocated (mark_free a bs) = allocated bs - {(a, z, True)}"
  using blocks_distinct [OF assms(1,2,3)]
  by (fastforce simp: allocated_def mark_free_def)

text \<open>
  The owner of an allocated block may write anything into its payload: the headers survive,
  so the allocator's view does not change.
\<close>

lemma clobber_payload:
  assumes "heap_inv s bs" "(a, z, True) \<in> set bs" "a + 32 \<le> q" "q + n \<le> a + z"
  shows "heap_inv (s\<lparr>headers := clobber (headers s) q n\<rparr>) bs"
proof -
  have "clobber (headers s) q n (fst c) = headers s (fst c)" if c: "c \<in> set bs" for c
  proof (cases "c = (a, z, True)")
    case True
    then show ?thesis using assms(3) by (simp add: clobber_def HEADER_SIZE_def)
  next
    case False
    then have "blk_disj c (a, z, True)" "wf_block c"
      using sorted_wrt_sym_mem [OF _ blk_disj_sym] assms(1,2) c
      by (auto simp: heap_inv_def list_all_iff)
    then show ?thesis using assms(3,4) by (cases c) (auto simp: clobber_def HEADER_SIZE_def)
  qed
  then have "chain (clobber (headers s) q n) (first_header s) bs = chain (headers s) (first_header s) bs"
    by (rule chain_cong)
  then show ?thesis using assms(1) by (simp add: heap_inv_def)
qed

definition region_blocks :: "EfiMemoryDescriptor \<Rightarrow> block list" where
  "region_blocks d =
     (if memory_type d \<noteq> CONVENTIONAL_MEMORY then []
      else (let (a, z) = (if physical_start d = 0 then (4096, number_of_pages d * 4096 - 4096)
                          else (physical_start d, number_of_pages d * 4096))
            in if z \<le> 4096 then [] else [(a, z, False)]))"

text \<open>What the UEFI specification promises of the conventional-memory descriptors.\<close>

definition mmap_ok :: "EfiMemoryDescriptor list \<Rightarrow> bool" where
  "mmap_ok ds \<longleftrightarrow>
     list_all (\<lambda>d. 4096 dvd physical_start d \<and>
       physical_start d + number_of_pages d * 4096 < 2 ^ 64) ds \<and>
     sorted_wrt (\<lambda>d e. physical_start d + number_of_pages d * 4096 \<le> physical_start e \<or>
       physical_start e + number_of_pages e * 4096 \<le> physical_start d) ds"

lemma add_free_spec:
  assumes inv: "heap_inv s bs" and ty: "memory_type d = CONVENTIONAL_MEMORY"
    and ok: "4096 dvd physical_start d" "physical_start d + number_of_pages d * 4096 < 2 ^ 64"
    and dj: "\<And>b c. b \<in> set (region_blocks d) \<Longrightarrow> c \<in> set bs \<Longrightarrow> blk_disj b c"
  shows "\<exists>s'. add_free_from_descriptor s d = Ok s' \<and> heap_inv s' (region_blocks d @ bs)"
proof (cases "region_blocks d = []")
  case True
  then show ?thesis using ty ok inv
    by (auto simp: region_blocks_def add_free_from_descriptor_def mul_u_def saturating_sub_def
        Let_def split: if_splits)
next
  case False
  then obtain a z where r: "region_blocks d = [(a, z, False)]" and z: "4096 < z"
    and az: "(a, z) = (if physical_start d = 0 then (4096, number_of_pages d * 4096 - 4096)
                       else (physical_start d, number_of_pages d * 4096))"
    using ty by (auto simp: region_blocks_def Let_def split: if_splits)
  let ?m = "(new_from_addr (headers s) a)
    (a := Some \<lparr>next_header = first_header s, hdr_size = z, is_allocated = False\<rparr>)"
  have eq: "add_free_from_descriptor s d = Ok (s\<lparr>first_header := Some a, headers := ?m\<rparr>)"
    using ok az z
    by (auto simp: add_free_from_descriptor_def mul_u_def saturating_sub_def Let_def split: if_splits)
  have d32: "(32 :: nat) dvd 4096" by (simp add: dvd_def)
  have wf: "wf_block (a, z, False)"
    using az ok z dvd_trans [OF d32 ok(1)] dvd_mult [OF d32] by (auto split: if_splits intro!: dvd_diff_nat)
  have "?m (fst c) = headers s (fst c)" if c: "c \<in> set bs" for c
  proof -
    have "blk_disj (a, z, False) c" "wf_block c"
      using dj r c inv by (auto simp: heap_inv_def list_all_iff)
    then show ?thesis using z by (cases c) (auto simp: new_from_addr_def clobber_def HEADER_SIZE_def)
  qed
  then have "chain ?m (first_header s) bs = chain (headers s) (first_header s) bs" by (rule chain_cong)
  then show ?thesis using inv wf dj r by (simp add: eq heap_inv_def chain_Some)
qed

lemma region_blocks_within:
  assumes "b \<in> set (region_blocks d)"
  shows "physical_start d \<le> fst b"
    "fst b + fst (snd b) \<le> physical_start d + number_of_pages d * 4096"
  using assms by (auto simp: region_blocks_def Let_def split: if_splits)

definition boot_blocks :: "EfiMemoryDescriptor list \<Rightarrow> block list" where
  "boot_blocks ds = concat (rev (map region_blocks ds))"

lemma init_fold_spec:
  assumes "mmap_ok ds"
  shows "\<exists>s. fold_res (\<lambda>s e. if memory_type e \<noteq> CONVENTIONAL_MEMORY then Ok s
                          else add_free_from_descriptor s e) ALLOCATOR ds = Ok s \<and>
    heap_inv s (boot_blocks ds)"
  using assms
proof (induction ds rule: rev_induct)
  case Nil
  then show ?case by (simp add: ALLOCATOR_def heap_inv_def boot_blocks_def)
next
  case (snoc d ds)
  let ?f = "\<lambda>s e. if memory_type e \<noteq> CONVENTIONAL_MEMORY then Ok s else add_free_from_descriptor s e"
  from snoc.prems have "mmap_ok ds" by (auto simp: mmap_ok_def sorted_wrt_append)
  then obtain s where s: "fold_res ?f ALLOCATOR ds = Ok s" "heap_inv s (boot_blocks ds)"
    using snoc.IH by auto
  have bl: "boot_blocks (ds @ [d]) = region_blocks d @ boot_blocks ds" by (simp add: boot_blocks_def)
  show ?case
  proof (cases "memory_type d = CONVENTIONAL_MEMORY")
    case True
    have "blk_disj b c" if bc: "b \<in> set (region_blocks d)" "c \<in> set (boot_blocks ds)" for b c
    proof -
      obtain e where e: "e \<in> set ds" "c \<in> set (region_blocks e)"
        using bc(2) by (auto simp: boot_blocks_def)
      then have "physical_start e + number_of_pages e * 4096 \<le> physical_start d \<or>
          physical_start d + number_of_pages d * 4096 \<le> physical_start e"
        using snoc.prems by (auto simp: mmap_ok_def sorted_wrt_append)
      then show ?thesis
        using region_blocks_within [OF bc(1)] region_blocks_within [OF e(2)]
        by (cases b; cases c) auto
    qed
    then show ?thesis
      using add_free_spec [OF s(2) True] snoc.prems True s(1)
      by (auto simp: fold_res_append bl mmap_ok_def)
  next
    case False
    then show ?thesis using s by (auto simp: fold_res_append bl region_blocks_def)
  qed
qed

section \<open>The interface the rest of the kernel uses\<close>

text \<open>
  The states the kernel can reach with its heap: after boot, after an allocation that
  succeeds and after freeing a live object. The second argument is the set of live objects
  as the callers know them, pointer and requested size.
\<close>

definition write_bytes :: "heap_state \<Rightarrow> usize \<Rightarrow> usize \<Rightarrow> heap_state" where
  "write_bytes s q k = s\<lparr>headers := clobber (headers s) q k\<rparr>"

text \<open>\<^verbatim>\<open>Box::new\<close>: a null pointer from the allocator is a panic, and the object is written.\<close>

definition box_alloc :: "heap_state \<Rightarrow> usize \<Rightarrow> usize \<Rightarrow> (usize \<times> heap_state) res option" where
  "box_alloc s n align =
     and_then_opt (alloc_with_options s n align) (\<lambda>(p, s').
     if p = 0 then Some (Panic ''memory allocation failed'') else Some (Ok (p, write_bytes s' p n)))"

inductive kernel_heap :: "heap_state \<Rightarrow> (usize \<times> usize) set \<Rightarrow> bool" where
  boot: "valid_mmap mm ds \<Longrightarrow> mmap_ok ds \<Longrightarrow> init_with_mmap ALLOCATOR mm = Some (Ok s) \<Longrightarrow>
     kernel_heap s {}"
| alloc: "kernel_heap s L \<Longrightarrow> layout_ok n align \<Longrightarrow>
     alloc_with_options s n align = Some (Ok (p, s')) \<Longrightarrow> p \<noteq> 0 \<Longrightarrow>
     kernel_heap s' (insert (p, n) L)"
| free: "kernel_heap s L \<Longrightarrow> (p, n) \<in> L \<Longrightarrow> dealloc s p = Ok s' \<Longrightarrow>
     kernel_heap s' (L - {(p, n)})"
| payload: "kernel_heap s L \<Longrightarrow> (p, n) \<in> L \<Longrightarrow> p \<le> q \<Longrightarrow> q + k \<le> p + n \<Longrightarrow>
     kernel_heap (write_bytes s q k) L"

inductive_cases kernel_heapE: "kernel_heap s L"

definition block_of :: "usize \<times> usize \<Rightarrow> block" where
  "block_of ob = (fst ob - 32, eff_size (snd ob) + 32, True)"

text \<open>The invariant of those states: the live objects are exactly the allocated blocks.\<close>

definition live_inv :: "heap_state \<Rightarrow> (usize \<times> usize) set \<Rightarrow> bool" where
  "live_inv s L \<longleftrightarrow> (\<exists>bs. heap_inv s bs \<and> allocated bs = block_of ` L \<and> inj_on fst L \<and>
     (\<forall>ob \<in> L. 32 \<le> fst ob))"

lemma alloc_with_options_spec:
  assumes "heap_inv s bs" "layout_ok n align"
  shows "\<exists>s'. alloc_with_options s n align = Some (Ok (fst (spec_alloc n align bs), s')) \<and>
    heap_inv s' (snd (spec_alloc n align bs))"
proof -
  obtain m' where "alloc_loop (headers s) (first_header s) n align =
      Some (Ok (fst (spec_alloc n align bs), m'))"
    "chain m' (first_header s) (snd (spec_alloc n align bs))"
    using alloc_loop_spec [of "headers s" "first_header s" bs n align] assms
    by (auto simp: heap_inv_def)
  then show ?thesis using spec_alloc_inv [of bs n align] assms
    by (auto simp: alloc_with_options_def heap_inv_def)
qed

lemma allocated_disjoint:
  assumes "heap_inv s bs" "b \<in> allocated bs" "c \<in> allocated bs" "b \<noteq> c"
  shows "blk_disj b c"
  using sorted_wrt_sym_mem [of blk_disj bs b c] blk_disj_sym assms
  by (auto simp: heap_inv_def allocated_def)

lemma block_of_mem: "allocated bs = block_of ` L \<Longrightarrow> ob \<in> L \<Longrightarrow> block_of ob \<in> set bs"
  by (metis (no_types, lifting) allocated_def image_eqI mem_Collect_eq)

lemma dvd_eff_align:
  assumes "layout_ok n align"
  shows "align dvd eff_align align"
proof (cases "align \<le> 32")
  case True
  have "is_pow2 32" using is_pow2_iff [of 32] by (auto intro: exI [of _ 5])
  then show ?thesis using pow2_dvd [of align 32] assms True
    by (simp add: layout_ok_def eff_align_def max_def)
qed (simp add: eff_align_def)

lemma carved_fresh:
  assumes "heap_inv s bs" "b \<in> set bs" "fits n align b" "fst b + 64 < p"
    "p + eff_size n \<le> fst b + fst (snd b)"
  shows "(p - 32, eff_size k + 32, True) \<notin> set bs"
proof
  let ?c = "(p - 32, eff_size k + 32, True)"
  assume c: "?c \<in> set bs"
  have "?c \<noteq> b" using fits_free [OF assms(3)] by auto
  then have "blk_disj b ?c"
    using sorted_wrt_sym_mem [OF _ blk_disj_sym assms(2) c] assms(1) by (auto simp: heap_inv_def)
  then show False using assms(4,5) by (cases b) (auto simp: eff_size_def)
qed

lemma live_alloc:
  assumes L: "live_inv s L" and lay: "layout_ok n align"
    and al: "alloc_with_options s n align = Some (Ok (p, s'))" "p \<noteq> 0"
  shows "live_inv s' (insert (p, n) L)" "p \<notin> fst ` L" "align dvd p" "32 \<le> p"
proof -
  obtain bs where bs: "heap_inv s bs" "allocated bs = block_of ` L" "inj_on fst L" "\<forall>ob \<in> L. 32 \<le> fst ob"
    using L by (auto simp: live_inv_def)
  obtain q bs' where q: "spec_alloc n align bs = (q, bs')" by fastforce
  then have pq: "q = p" and inv': "heap_inv s' bs'"
    using alloc_with_options_spec [OF bs(1) lay] al(1) by auto
  have wf: "list_all wf_block bs" using bs(1) by (simp add: heap_inv_def)
  have R: "eff_align align dvd p" "32 \<le> p"
      "allocated bs' = insert (block_of (p, n)) (allocated bs)"
      "\<exists>b \<in> set bs. fits n align b \<and> fst b + 64 < p \<and> p + eff_size n \<le> fst b + fst (snd b)"
    using spec_alloc_result [OF wf lay q] al(2) pq by (simp_all add: block_of_def)
  then obtain b where b: "b \<in> set bs" "fits n align b" "fst b + 64 < p"
      "p + eff_size n \<le> fst b + fst (snd b)"
    by blast
  show "p \<notin> fst ` L"
    using carved_fresh [OF bs(1) b] block_of_mem [OF bs(2)] by (fastforce simp: block_of_def)
  then have "inj_on fst (insert (p, n) L)" using bs(3) by (auto simp: inj_on_def)
  then show "live_inv s' (insert (p, n) L)"
    using inv' R(2,3) bs(2,4) unfolding live_inv_def by (intro exI [of _ bs']) simp
  show "align dvd p" "32 \<le> p" using R(1,2) dvd_eff_align [OF lay] dvd_trans by blast+
qed

lemma live_free:
  assumes L: "live_inv s L" and p: "(p, n) \<in> L"
  shows "\<exists>s'. dealloc s p = Ok s' \<and> live_inv s' (L - {(p, n)})"
proof -
  obtain bs where bs: "heap_inv s bs" "allocated bs = block_of ` L" "inj_on fst L" "\<forall>ob \<in> L. 32 \<le> fst ob"
    using L by (auto simp: live_inv_def)
  have m: "(p - 32, eff_size n + 32, True) \<in> set bs" "32 \<le> p"
    using block_of_mem [OF bs(2) p] bs(4) p by (auto simp: block_of_def)
  obtain s' where s': "dealloc s p = Ok s'" "heap_inv s' (mark_free (p - 32) bs)"
    using dealloc_spec [OF bs(1) m] by blast
  have "allocated (mark_free (p - 32) bs) = block_of ` L - {block_of (p, n)}"
    using allocated_mark_free [OF _ _ m(1)] bs(1,2) by (simp add: heap_inv_def block_of_def)
  also have "\<dots> = block_of ` (L - {(p, n)})"
  proof -
    have "inj_on block_of L"
    proof (rule inj_onI)
      fix x y assume xy: "x \<in> L" "y \<in> L" "block_of x = block_of y"
      moreover have "32 \<le> fst x" "32 \<le> fst y" using bs(4) xy by auto
      moreover have "fst x - 32 = fst y - 32" using xy(3) by (simp add: block_of_def)
      ultimately have "fst x = fst y" by linarith
      then show "x = y" using bs(3) xy(1,2) by (simp add: inj_on_def)
    qed
    then show ?thesis using p inj_on_image_set_diff [of block_of L L "{(p, n)}"] by simp
  qed
  finally show ?thesis using s' bs(3,4) by (auto simp: live_inv_def inj_on_def)
qed

lemma live_write:
  assumes "live_inv s L" "(p, n) \<in> L" "p \<le> q" "q + k \<le> p + n"
  shows "live_inv (write_bytes s q k) L"
proof -
  obtain bs where bs: "heap_inv s bs" "allocated bs = block_of ` L" "inj_on fst L" "\<forall>ob \<in> L. 32 \<le> fst ob"
    using assms(1) by (auto simp: live_inv_def)
  have m: "(p - 32, eff_size n + 32, True) \<in> set bs" "32 \<le> p"
    using block_of_mem [OF bs(2) assms(2)] bs(4) assms(2) by (auto simp: block_of_def)
  have "heap_inv (write_bytes s q k) bs"
    unfolding write_bytes_def using clobber_payload [OF bs(1) m(1)] m(2) assms(3,4) eff_size_ge [of n] by simp
  then show ?thesis using bs by (auto simp: live_inv_def)
qed

lemma kernel_heap_live_inv: "kernel_heap s L \<Longrightarrow> live_inv s L"
proof (induction rule: kernel_heap.induct)
  case (boot mm ds s)
  then obtain s0 where "init_with_mmap ALLOCATOR mm = Some (Ok s0)" "heap_inv s0 (boot_blocks ds)"
    using init_fold_spec [of ds] by (auto simp: init_with_mmap_def for_mmap_valid)
  moreover have "allocated (boot_blocks ds) = {}"
    by (auto simp: allocated_def boot_blocks_def region_blocks_def Let_def split: if_splits)
  ultimately show ?case using boot by (auto simp: live_inv_def)
next
  case (alloc s L n align p s')
  then show ?case by (blast intro: live_alloc)
next
  case (free s L p n s')
  then show ?case using live_free by fastforce
next
  case (payload s L p n q k)
  then show ?case using live_write by blast
qed

lemma live_disjoint:
  assumes "live_inv s L" "(p, n) \<in> L" "(q, k) \<in> L" "(p, n) \<noteq> (q, k)"
  shows "p + n \<le> q \<or> q + k \<le> p"
proof -
  obtain bs where bs: "heap_inv s bs" "allocated bs = block_of ` L" "inj_on fst L" "\<forall>ob \<in> L. 32 \<le> fst ob"
    using assms(1) by (auto simp: live_inv_def)
  have g: "32 \<le> p" "32 \<le> q" using bs(4) assms(2,3) by auto
  have "p \<noteq> q" using inj_onD [OF bs(3), of "(p, n)" "(q, k)"] assms(2-4) by auto
  then have "block_of (p, n) \<noteq> block_of (q, k)" using g by (auto simp: block_of_def)
  then have "blk_disj (block_of (p, n)) (block_of (q, k))"
    using allocated_disjoint [OF bs(1)] bs(2) assms(2,3) by blast
  then have "p + eff_size n \<le> q - 32 \<or> q + eff_size k \<le> p - 32"
    using g by (auto simp: block_of_def)
  then show ?thesis using eff_size_ge [of n] eff_size_ge [of k] by linarith
qed

lemma live_bound:
  assumes "live_inv s L" "(p, n) \<in> L"
  shows "p + n < 2 ^ 64"
proof -
  obtain bs where bs: "heap_inv s bs" "allocated bs = block_of ` L" "\<forall>ob \<in> L. 32 \<le> fst ob"
    using assms(1) by (auto simp: live_inv_def)
  then have "wf_block (block_of (p, n))" "32 \<le> p"
    using block_of_mem [OF bs(2) assms(2)] assms(2) by (auto simp: heap_inv_def list_all_iff)
  then show ?thesis using eff_size_ge [of n] by (simp add: block_of_def)
qed

lemma live_alloc_total:
  assumes "live_inv s L" "layout_ok n align"
  shows "\<exists>p s'. alloc_with_options s n align = Some (Ok (p, s')) \<and> (p = 0 \<longrightarrow> live_inv s' L)"
proof -
  obtain bs where bs: "heap_inv s bs" "allocated bs = block_of ` L" "inj_on fst L" "\<forall>ob \<in> L. 32 \<le> fst ob"
    using assms(1) by (auto simp: live_inv_def)
  obtain p bs' where p: "spec_alloc n align bs = (p, bs')" by fastforce
  obtain s' where s': "alloc_with_options s n align = Some (Ok (p, s'))" "heap_inv s' bs'"
    using alloc_with_options_spec [OF bs(1) assms(2)] p by auto
  have "p = 0 \<longrightarrow> bs' = bs"
    using spec_alloc_result [OF _ assms(2) p] bs(1) by (simp add: heap_inv_def)
  then show ?thesis using s' bs by (auto simp: live_inv_def)
qed

text \<open>
  The contract of a heap, as the page-table code and the device drivers rely on it: an
  allocation always returns, a non-null pointer is aligned, new and inside the address space,
  live objects stay apart, writing inside one disturbs nothing, and freeing removes exactly the
  freed object.
\<close>

locale kernel_allocator =
  fixes alloc :: "'s \<Rightarrow> usize \<Rightarrow> usize \<Rightarrow> (usize \<times> 's) res option"
    and free :: "'s \<Rightarrow> usize \<Rightarrow> 's res"
    and scribble :: "'s \<Rightarrow> usize \<Rightarrow> usize \<Rightarrow> 's"
    and live :: "'s \<Rightarrow> (usize \<times> usize) set \<Rightarrow> bool"
  assumes alloc_returns: "live s L \<Longrightarrow> layout_ok n align \<Longrightarrow>
      \<exists>p s'. alloc s n align = Some (Ok (p, s')) \<and> (p = 0 \<longrightarrow> live s' L)"
    and alloc_live: "live s L \<Longrightarrow> layout_ok n align \<Longrightarrow> alloc s n align = Some (Ok (p, s')) \<Longrightarrow>
      p \<noteq> 0 \<Longrightarrow> live s' (insert (p, n) L) \<and> p \<notin> fst ` L \<and> align dvd p"
    and free_live: "live s L \<Longrightarrow> (p, n) \<in> L \<Longrightarrow> \<exists>s'. free s p = Ok s' \<and> live s' (L - {(p, n)})"
    and write_live: "live s L \<Longrightarrow> (p, n) \<in> L \<Longrightarrow> p \<le> q \<Longrightarrow> q + k \<le> p + n \<Longrightarrow> live (scribble s q k) L"
    and live_apart: "live s L \<Longrightarrow> (p, n) \<in> L \<Longrightarrow> (q, k) \<in> L \<Longrightarrow> (p, n) \<noteq> (q, k) \<Longrightarrow>
      p + n \<le> q \<or> q + k \<le> p"
    and live_in_range: "live s L \<Longrightarrow> (p, n) \<in> L \<Longrightarrow> p + n < 2 ^ 64"
begin

lemma alloc_apart:
  assumes "live s L" "layout_ok n align" "alloc s n align = Some (Ok (p, s'))" "p \<noteq> 0" "(q, k) \<in> L"
  shows "p + n \<le> q \<or> q + k \<le> p"
  using alloc_live [OF assms(1-4)] assms(5) live_apart [of s' "insert (p, n) L" p n q k] by force

lemma alloc_free_restores:
  assumes "live s L" "layout_ok n align" "alloc s n align = Some (Ok (p, s'))" "p \<noteq> 0"
  shows "\<exists>s''. free s' p = Ok s'' \<and> live s'' L"
proof -
  have l: "live s' (insert (p, n) L)" "p \<notin> fst ` L" using alloc_live [OF assms] by auto
  then have "insert (p, n) L - {(p, n)} = L" by force
  then show ?thesis using free_live [OF l(1), of p n] by simp
qed

end

interpretation heap: kernel_allocator alloc_with_options dealloc write_bytes live_inv
proof
  fix s s' :: heap_state and L n align p q k
  show "live_inv s L \<Longrightarrow> layout_ok n align \<Longrightarrow>
      \<exists>p s'. alloc_with_options s n align = Some (Ok (p, s')) \<and> (p = 0 \<longrightarrow> live_inv s' L)"
    by (rule live_alloc_total)
  show "live_inv s L \<Longrightarrow> layout_ok n align \<Longrightarrow> alloc_with_options s n align = Some (Ok (p, s')) \<Longrightarrow>
      p \<noteq> 0 \<Longrightarrow> live_inv s' (insert (p, n) L) \<and> p \<notin> fst ` L \<and> align dvd p"
    using live_alloc by blast
  show "live_inv s L \<Longrightarrow> (p, n) \<in> L \<Longrightarrow> \<exists>s'. dealloc s p = Ok s' \<and> live_inv s' (L - {(p, n)})"
    by (rule live_free)
  show "live_inv s L \<Longrightarrow> (p, n) \<in> L \<Longrightarrow> p \<le> q \<Longrightarrow> q + k \<le> p + n \<Longrightarrow> live_inv (write_bytes s q k) L"
    by (rule live_write)
  show "live_inv s L \<Longrightarrow> (p, n) \<in> L \<Longrightarrow> (q, k) \<in> L \<Longrightarrow> (p, n) \<noteq> (q, k) \<Longrightarrow> p + n \<le> q \<or> q + k \<le> p"
    by (rule live_disjoint)
  show "live_inv s L \<Longrightarrow> (p, n) \<in> L \<Longrightarrow> p + n < 2 ^ 64"
    by (rule live_bound)
qed


lemma box_alloc_spec:
  assumes "live_inv s L" "layout_ok n align"
  shows "box_alloc s n align = Some (Panic ''memory allocation failed'') \<or>
    (\<exists>p s'. box_alloc s n align = Some (Ok (p, s')) \<and> live_inv s' (insert (p, n) L) \<and>
       p \<notin> fst ` L \<and> align dvd p \<and> p + n < 2 ^ 64)"
proof -
  obtain p s' where a: "alloc_with_options s n align = Some (Ok (p, s'))"
    using heap.alloc_returns [OF assms] by blast
  show ?thesis
  proof (cases "p = 0")
    case False
    have l: "live_inv s' (insert (p, n) L)" "p \<notin> fst ` L" "align dvd p"
      using heap.alloc_live [OF assms a False] by auto
    then show ?thesis
      using a False heap.write_live [OF l(1), of p n p n] heap.live_in_range [OF l(1), of p n]
      by (simp add: box_alloc_def)
  qed (simp add: a box_alloc_def)
qed

text \<open>The same on the list of blocks.\<close>

lemma box_alloc_step:
  assumes "heap_inv s bs" "layout_ok n align" "spec_alloc n align bs = (p, bs')" "p \<noteq> 0"
  shows "\<exists>s'. box_alloc s n align = Some (Ok (p, s')) \<and> heap_inv s' bs'"
proof -
  obtain s1 where s1: "alloc_with_options s n align = Some (Ok (p, s1))" "heap_inv s1 bs'"
    using alloc_with_options_spec [OF assms(1,2)] assms(3) by auto
  have m: "(p - 32, eff_size n + 32, True) \<in> set bs'" "32 \<le> p"
    using spec_alloc_result [OF _ assms(2,3)] assms(1,4)
    by (auto simp: heap_inv_def allocated_def block_of_def)
  then have "heap_inv (write_bytes s1 p n) bs'"
    using clobber_payload [OF s1(2) m(1), of p n] eff_size_ge [of n] by (simp add: write_bytes_def)
  then show ?thesis using s1(1) assms(4) by (simp add: box_alloc_def)
qed

end
