(* ===== verification/Heap_Theorems.thy ===== *)
theory Heap_Theorems
  imports First_Fit
begin

text \<open>
  The properties of the allocator, over the definitions and lemmas of \<open>First_Fit\<close>, and the
  small memory map on which their witnesses are evaluated.
\<close>

text \<open>One conventional region of 32 pages at 1 MiB, in one 40-byte descriptor slot.\<close>

definition demo_descriptor :: EfiMemoryDescriptor where
  "demo_descriptor = \<lparr>memory_type = CONVENTIONAL_MEMORY, physical_start = 0x100000,
     virtual_start = 0, number_of_pages = 32, attribute = 15\<rparr>"

definition demo_mmap :: MemoryMapHolder where
  "demo_mmap = \<lparr>memory_map_buffer =
       [7, 0, 0, 0, 0, 0, 0, 0,  0, 0, 16, 0, 0, 0, 0, 0,  0, 0, 0, 0, 0, 0, 0, 0,
        32, 0, 0, 0, 0, 0, 0, 0,  15, 0, 0, 0, 0, 0, 0, 0],
     memory_map_size = 40, map_key = 1, descriptor_size = 40, descriptor_version = 1\<rparr>"

lemma demo_valid: "valid_mmap demo_mmap [demo_descriptor]"
  by (simp add: valid_mmap_def demo_mmap_def demo_descriptor_def read_descriptor_def read_le_def
      efi_memory_type_of_def efi_memory_types_def)

lemma demo_ok: "mmap_ok [demo_descriptor]"
  by (simp add: mmap_ok_def demo_descriptor_def dvd_def)

lemma demo_blocks: "boot_blocks [demo_descriptor] = [(0x100000, 0x20000, False)]"
  by (simp add: boot_blocks_def region_blocks_def demo_descriptor_def)

lemma demo_boot: "\<exists>s. init_with_mmap ALLOCATOR demo_mmap = Some (Ok s) \<and>
    heap_inv s [(0x100000, 0x20000, False)] \<and> kernel_heap s {}"
proof -
  obtain s where "init_with_mmap ALLOCATOR demo_mmap = Some (Ok s)"
    "heap_inv s (boot_blocks [demo_descriptor])"
    using init_fold_spec [OF demo_ok] by (auto simp: init_with_mmap_def for_mmap_valid [OF demo_valid])
  then show ?thesis using kernel_heap.boot [OF demo_valid demo_ok] by (auto simp: demo_blocks)
qed

lemma demo_layout: "layout_ok 100 8" "layout_ok 4096 4096"
  by (simp_all add: layout_ok_def is_pow2_def bit_len.simps)

lemma demo_spec_alloc:
  "spec_alloc 100 8 [(0x100000, 0x20000, False)] =
     (0x11FF80, [(0x100000, 0x1FF60, False), (0x11FF60, 0xA0, True)])"
  by (simp add: fits_def alloc_addr_def split_block_def eff_size_def eff_align_def bit_len.simps Let_def)

lemma demo_spec_alloc2:
  "spec_alloc 4096 4096 [(0x100000, 0x1FF60, False), (0x11FF60, 0xA0, True)] =
     (0x11E000, [(0x100000, 0x1DFE0, False), (0x11DFE0, 0x1020, True), (0x11F000, 0xF60, False),
                 (0x11FF60, 0xA0, True)])"
  by (simp add: fits_def alloc_addr_def split_block_def eff_size_def eff_align_def bit_len.simps Let_def)

text \<open>A run of the model: boot, a 100-byte object, then a page.\<close>

lemma demo_run: "\<exists>s. kernel_heap s {(0x11E000, 4096), (0x11FF80, 100)} \<and>
    heap_inv s [(0x100000, 0x1DFE0, False), (0x11DFE0, 0x1020, True), (0x11F000, 0xF60, False),
                (0x11FF60, 0xA0, True)]"
proof -
  obtain s where s: "heap_inv s [(0x100000, 0x20000, False)]" "kernel_heap s {}"
    using demo_boot by blast
  obtain s1 where s1: "alloc_with_options s 100 8 = Some (Ok (0x11FF80, s1))"
    "heap_inv s1 [(0x100000, 0x1FF60, False), (0x11FF60, 0xA0, True)]"
    using alloc_with_options_spec [OF s(1) demo_layout(1)] by (auto simp only: demo_spec_alloc fst_conv snd_conv)
  then have k1: "kernel_heap s1 {(0x11FF80, 100)}"
    using kernel_heap.alloc [OF s(2) demo_layout(1) s1(1)] by simp
  obtain s2 where s2: "alloc_with_options s1 4096 4096 = Some (Ok (0x11E000, s2))"
    "heap_inv s2 [(0x100000, 0x1DFE0, False), (0x11DFE0, 0x1020, True), (0x11F000, 0xF60, False),
                  (0x11FF60, 0xA0, True)]"
    using alloc_with_options_spec [OF s1(2) demo_layout(2)] by (auto simp only: demo_spec_alloc2 fst_conv snd_conv)
  then show ?thesis using kernel_heap.alloc [OF k1 demo_layout(2) s2(1)] by (intro exI [of _ s2]) simp
qed

section \<open>Properties\<close>

text \<open>
  Property C1 (safety). In every state the kernel's heap can reach after boot, by any sequence of
  allocations and frees, two different live objects never share a byte.
\<close>

theorem live_objects_never_overlap:
  assumes "kernel_heap s L" "(p, n) \<in> L" "(q, k) \<in> L" "(p, n) \<noteq> (q, k)"
  shows "p + n \<le> q \<or> q + k \<le> p"
  using heap.live_apart [OF kernel_heap_live_inv [OF assms(1)] assms(2-4)] .

theorem live_objects_never_overlap_witness:
  "\<exists>s. kernel_heap s {(0x11E000, 4096), (0x11FF80, 100)} \<and>
    ((0x11E000 :: nat) + 4096 \<le> 0x11FF80 \<or> (0x11FF80 :: nat) + 100 \<le> 0x11E000)"
proof -
  obtain s where s: "kernel_heap s {(0x11E000, 4096), (0x11FF80, 100)}" using demo_run by blast
  show ?thesis using s live_objects_never_overlap [OF s, of "0x11E000" 4096 "0x11FF80" 100] by auto
qed

text \<open>
  Property C2 (termination). In every reachable state \<^verbatim>\<open>alloc_with_options\<close> returns for every valid
  layout, and freeing a live object succeeds: the pointer walk ends, nothing panics and no header
  is read that is not there.
\<close>

theorem heap_operations_return:
  assumes "kernel_heap s L" "layout_ok n align"
  shows "(\<exists>p s'. alloc_with_options s n align = Some (Ok (p, s'))) \<and>
    (\<forall>(q, k) \<in> L. \<exists>s'. dealloc s q = Ok s')"
  using heap.alloc_returns heap.free_live kernel_heap_live_inv [OF assms(1)] assms(2) by blast

theorem heap_operations_return_witness:
  "\<exists>s. kernel_heap s {(0x11E000, 4096), (0x11FF80, 100)} \<and>
    (\<exists>p s'. alloc_with_options s 100 8 = Some (Ok (p, s'))) \<and> (\<exists>s'. dealloc s 0x11E000 = Ok s')"
  using demo_run heap_operations_return [OF _ demo_layout(1)] by fastforce

text \<open>
  Property C3 (refinement). On a heap whose chain is the block list \<open>bs\<close>, \<^verbatim>\<open>alloc_with_options\<close>
  returns exactly what first fit on that list returns, and leaves a heap whose chain is first
  fit's block list, with the invariant kept.
\<close>

theorem alloc_refines_first_fit:
  assumes "heap_inv s bs" "layout_ok n align"
  shows "\<exists>s'. alloc_with_options s n align = Some (Ok (fst (spec_alloc n align bs), s')) \<and>
    heap_inv s' (snd (spec_alloc n align bs))"
  using assms by (rule alloc_with_options_spec)

theorem alloc_refines_first_fit_witness:
  "\<exists>s s'. heap_inv s [(0x100000, 0x20000, False)] \<and>
    alloc_with_options s 100 8 = Some (Ok (0x11FF80, s')) \<and>
    heap_inv s' [(0x100000, 0x1FF60, False), (0x11FF60, 0xA0, True)]"
  using demo_boot alloc_refines_first_fit [OF _ demo_layout(1)] demo_spec_alloc
  by (metis fst_conv snd_conv)

text \<open>
  Property C4 (functional). A non-null result is aligned as asked, lies in a block that was free,
  adds exactly one allocated block, large enough for the request, and the bytes of the heap are
  conserved; null is returned exactly when the size is 0 or no free block has the requested size
  plus two headers plus the alignment, and then no block changes.
\<close>

theorem alloc_result:
  assumes "heap_inv s bs" "layout_ok n align" "alloc_with_options s n align = Some (Ok (p, s'))"
  shows "\<exists>bs'. heap_inv s' bs' \<and> total_size bs' = total_size bs \<and>
    (p = 0 \<longleftrightarrow> n = 0 \<or> list_all (\<lambda>(a, z, al). al \<or> z < eff_size n + 64 + eff_align align) bs) \<and>
    (p = 0 \<longrightarrow> bs' = bs) \<and>
    (p \<noteq> 0 \<longrightarrow> align dvd p \<and> n \<le> eff_size n \<and>
      allocated bs' = insert (p - 32, eff_size n + 32, True) (allocated bs) \<and>
      (p - 32, eff_size n + 32, True) \<notin> allocated bs)"
proof -
  obtain bs' where sp: "spec_alloc n align bs = (p, bs')" and inv: "heap_inv s' bs'"
    using alloc_with_options_spec [OF assms(1,2)] assms(3) by (cases "spec_alloc n align bs") auto
  have "list_all wf_block bs" using assms(1) by (simp add: heap_inv_def)
  note R = spec_alloc_result [OF this assms(2) sp]
  have "list_all (\<lambda>b. \<not> fits n align b) bs \<longleftrightarrow>
      n = 0 \<or> list_all (\<lambda>(a, z, al). al \<or> z < eff_size n + 64 + eff_align align) bs"
    by (induction bs) (auto simp: fits_def not_le)
  moreover have "align dvd p" if "p \<noteq> 0"
    using R that dvd_eff_align [OF assms(2)] dvd_trans by blast
  moreover have "(p - 32, eff_size n + 32, True) \<notin> allocated bs" if "p \<noteq> 0"
    using R that carved_fresh [OF assms(1)] by (auto simp: allocated_def)
  ultimately show ?thesis using R eff_size_ge inv by (cases "p = 0") auto
qed

theorem alloc_result_witness:
  "\<exists>s s' bs'. heap_inv s [(0x100000, 0x20000, False)] \<and>
    alloc_with_options s 100 8 = Some (Ok (0x11FF80, s')) \<and>
    heap_inv s' bs' \<and> total_size bs' = 0x20000"
proof -
  obtain s where s: "heap_inv s [(0x100000, 0x20000, False)]" using demo_boot by blast
  then obtain s' where s': "alloc_with_options s 100 8 = Some (Ok (0x11FF80, s'))"
    using alloc_with_options_spec [OF s demo_layout(1)] demo_spec_alloc by (metis fst_conv)
  have "total_size [(0x100000, 0x20000, False)] = 0x20000" by (simp add: total_size_def)
  then show ?thesis using s s' alloc_result [OF s demo_layout(1) s'] by metis
qed

text \<open>
  Property C5 (invariant). Filling the allocator from a valid memory map returns; the free list is
  then exactly the usable conventional regions, as well-formed, pairwise disjoint, free blocks,
  and address 0 belongs to none of them.
\<close>

theorem init_with_mmap_establishes_heap:
  assumes "valid_mmap mm ds" "mmap_ok ds"
  shows "\<exists>s. init_with_mmap ALLOCATOR mm = Some (Ok s) \<and> heap_inv s (boot_blocks ds) \<and>
    allocated (boot_blocks ds) = {} \<and> list_all (\<lambda>(a, z, al). 4096 \<le> a \<and> 4096 < z) (boot_blocks ds)"
proof -
  have "4096 \<le> physical_start d" if "d \<in> set ds" "physical_start d \<noteq> 0" for d
    using assms(2) that by (auto simp: mmap_ok_def list_all_iff intro!: dvd_imp_le)
  then have "list_all (\<lambda>(a, z, al). 4096 \<le> a \<and> 4096 < z) (boot_blocks ds)"
    by (auto simp: list_all_iff boot_blocks_def region_blocks_def Let_def split: if_splits)
  moreover have "allocated (boot_blocks ds) = {}"
    by (auto simp: allocated_def boot_blocks_def region_blocks_def Let_def split: if_splits)
  ultimately show ?thesis
    using init_fold_spec [OF assms(2)] by (auto simp: init_with_mmap_def for_mmap_valid [OF assms(1)])
qed

theorem init_with_mmap_establishes_heap_witness:
  "\<exists>s. init_with_mmap ALLOCATOR demo_mmap = Some (Ok s) \<and> heap_inv s [(0x100000, 0x20000, False)]"
  using init_with_mmap_establishes_heap [OF demo_valid demo_ok] by (auto simp: demo_blocks)

text \<open>
  \<^verbatim>\<open>round_up_to_nearest_pow2\<close> returns the least power of two that is not
  below its argument, and \<^verbatim>\<open>Err\<close> exactly for 0 and for values above \<open>2^63\<close>.
\<close>

theorem round_up_to_nearest_pow2_correct:
  assumes "v < 2 ^ 64"
  shows "(\<exists>p. round_up_to_nearest_pow2 v = Ok p \<and> is_pow2 p \<and> v \<le> p \<and>
            (\<forall>q. is_pow2 q \<and> v \<le> q \<longrightarrow> p \<le> q) \<and> 0 < v \<and> v \<le> 2 ^ 63) \<or>
    (round_up_to_nearest_pow2 v = Err ''Out of range'' \<and> (v = 0 \<or> 2 ^ 63 < v))"
proof (cases "0 < v \<and> v \<le> 2 ^ 63")
  case True
  then have "round_up_to_nearest_pow2 v = Ok (2 ^ bit_len (v - 1))" by (simp add: round_up_eq assms)
  moreover have "\<forall>q. is_pow2 q \<and> v \<le> q \<longrightarrow> 2 ^ bit_len (v - 1) \<le> q"
    using pow2_bit_len_least True by (auto simp: is_pow2_iff)
  ultimately show ?thesis using True le_pow2_bit_len by (auto simp: is_pow2_iff)
qed (use assms in \<open>auto simp: round_up_eq\<close>)

theorem round_up_to_nearest_pow2_correct_witness:
  "(5 :: nat) < 2 ^ 64 \<and> round_up_to_nearest_pow2 5 = Ok 8"
  using round_up_to_nearest_pow2_correct [of 5] round_up_eq [of 5] by (simp add: bit_len.simps)

text \<open>
  The owner of a live object may write any bytes of it: no header is
  destroyed, and the allocator's block list and invariant are unchanged.
\<close>

theorem payload_writes_keep_heap:
  assumes "heap_inv s bs" "(p - 32, eff_size n + 32, True) \<in> set bs" "32 \<le> p" "ofs + k \<le> n"
  shows "heap_inv (s\<lparr>headers := clobber (headers s) (p + ofs) k\<rparr>) bs"
  using assms eff_size_ge [of n] by (intro clobber_payload [OF assms(1,2)]) auto

theorem payload_writes_keep_heap_witness:
  "\<exists>s. heap_inv s [(0x100000, 0x1FF60, False), (0x11FF60, 0xA0, True)] \<and>
    heap_inv (s\<lparr>headers := clobber (headers s) 0x11FF80 100\<rparr>)
      [(0x100000, 0x1FF60, False), (0x11FF60, 0xA0, True)]"
proof -
  obtain s where s: "heap_inv s [(0x100000, 0x1FF60, False), (0x11FF60, 0xA0, True)]"
    using demo_boot alloc_with_options_spec [OF _ demo_layout(1)] demo_spec_alloc by (metis snd_conv)
  have "eff_size 100 = 128" by (simp add: eff_size_def bit_len.simps)
  then show ?thesis using s payload_writes_keep_heap [OF s, of "0x11FF80" 100 0 100] by auto
qed

text \<open>
  A block that was carved for a request and then freed is passed over by every
  later request that is not smaller: the rough test of \<^verbatim>\<open>can_provide\<close> asks for two headers and the
  alignment on top of the size, and nothing merges free blocks.
\<close>

theorem freed_block_serves_only_smaller:
  assumes "m a = Some h" "hdr_size h = eff_size n + 32" "layout_ok n' align" "n \<le> n'"
  shows "provide m a n' align = Ok (None, m)"
proof -
  have "n - 1 \<le> n' - 1" using assms(4) by simp
  also have "n' - 1 < 2 ^ bit_len (n' - 1)" using bit_len_le_iff by blast
  finally have "bit_len (n - 1) \<le> bit_len (n' - 1)" by (simp add: bit_len_le_iff)
  then have "(2 :: nat) ^ bit_len (n - 1) \<le> 2 ^ bit_len (n' - 1)" by simp
  then have "eff_size n \<le> eff_size n'" unfolding eff_size_def by (intro max.mono) simp_all
  then have "\<not> fits n' align (a, hdr_size h, is_allocated h)"
    using assms(2) by (auto simp: fits_def)
  then show ?thesis using provide_None [of m a h] assms(1,3) layout_ok_64 by blast
qed

theorem freed_block_serves_only_smaller_witness:
  "provide (\<lambda>x. if x = 0x11FF60 then Some \<lparr>next_header = None, hdr_size = 160, is_allocated = False\<rparr>
      else None) 0x11FF60 100 8 =
   Ok (None, \<lambda>x. if x = 0x11FF60 then Some \<lparr>next_header = None, hdr_size = 160, is_allocated = False\<rparr>
      else None)"
proof -
  have "eff_size 100 + 32 = 160" by (simp add: eff_size_def bit_len.simps)
  then show ?thesis
    by (intro freed_block_serves_only_smaller [where n = 100 and
          h = "\<lparr>next_header = None, hdr_size = 160, is_allocated = False\<rparr>"]) (simp_all add: demo_layout)
qed

end
