(* ===== verification/Paging.thy ===== *)
theory Paging
  imports First_Fit
begin

text \<open>
  The page tables of \<^verbatim>\<open>x86.rs\<close>. Physical memory holds page tables at 4096-aligned addresses
  (\<open>tables\<close>), each a function from an index below 512 to a 64-bit entry; a level is the
  \<^verbatim>\<open>LEVEL\<close> of the Rust type minus one (0 for \<^verbatim>\<open>PT\<close>, 3 for \<^verbatim>\<open>PML4\<close>). New tables come from
  \<^verbatim>\<open>Box::new\<close>, the argument \<open>box_page\<close> of the definitions; the locale \<open>page_source\<close> states what
  they rely on, and the kernel's allocator provides it (\<open>box_new_page\<close>).

  \<^verbatim>\<open>create_mapping\<close>'s four nested loops are one function by recursion on the level, with 512
  units of fuel per loop: each iteration moves to a larger index of a 512-entry table.
\<close>

section \<open>Entries\<close>

definition PAGE_SIZE :: usize where
  "PAGE_SIZE = 4096"

definition ATTR_MASK :: u64 where
  "ATTR_MASK = 0xFFF"

datatype PageAttr = NotPresent | ReadWriteKernel | ReadWriteIo

definition attr_bits :: "PageAttr \<Rightarrow> u64" where
  "attr_bits a = (case a of
      NotPresent \<Rightarrow> 0
    | ReadWriteKernel \<Rightarrow> push_bit 0 1 OR push_bit 1 1
    | ReadWriteIo \<Rightarrow> push_bit 0 1 OR push_bit 1 1 OR push_bit 3 1 OR push_bit 4 1)"

definition is_present :: "u64 \<Rightarrow> bool" where
  "is_present v \<longleftrightarrow> v AND push_bit 0 1 \<noteq> 0"

definition is_writable :: "u64 \<Rightarrow> bool" where
  "is_writable v \<longleftrightarrow> v AND push_bit 1 1 \<noteq> 0"

definition is_user :: "u64 \<Rightarrow> bool" where
  "is_user v \<longleftrightarrow> v AND push_bit 2 1 \<noteq> 0"

definition entry_table :: "u64 \<Rightarrow> usize res" where
  "entry_table v = (if is_present v then Ok (unat (v AND NOT ATTR_MASK)) else Err ''Page Not Found'')"

definition set_page :: "usize \<Rightarrow> PageAttr \<Rightarrow> u64 res" where
  "set_page phys attr =
     (if (word_of_nat phys :: u64) AND ATTR_MASK \<noteq> 0
      then Err ''Physical address must be aligned to page size''
      else Ok (word_of_nat phys OR attr_bits attr))"

section \<open>Tables in memory\<close>

type_synonym entries = "nat \<Rightarrow> u64"

record 's vm =
  vheap :: 's
  tables :: "usize \<Rightarrow> entries option"

type_synonym 's page_box = "'s \<Rightarrow> (usize \<times> 's) res option"

definition index_shift :: "nat \<Rightarrow> nat" where
  "index_shift level = (level - 1) * 9 + 12"

definition calc_index :: "nat \<Rightarrow> usize \<Rightarrow> usize" where
  "calc_index level addr = drop_bit (index_shift level) addr AND 0b111111111"

definition next_level :: "'s vm \<Rightarrow> usize \<Rightarrow> usize \<Rightarrow> usize option" where
  "next_level vm t index =
     (case tables vm t of None \<Rightarrow> None
      | Some es \<Rightarrow> (if index < 512 \<and> is_present (es index)
                    then Some (unat (es index AND NOT ATTR_MASK)) else None))"

definition get_entries :: "'s vm \<Rightarrow> usize \<Rightarrow> entries res" where
  "get_entries vm t = (case tables vm t of None \<Rightarrow> UB | Some es \<Rightarrow> Ok es)"

definition populate :: "'s page_box \<Rightarrow> 's vm \<Rightarrow> usize \<Rightarrow> usize \<Rightarrow> 's vm res option" where
  "populate box_page vm t index =
     and_then_opt (Some (get_entries vm t)) (\<lambda>es.
     if is_present (es index) then Some (Err ''Page is already populated'')
     else and_then_opt (box_page (vheap vm)) (\<lambda>(p, h).
       Some (Ok (vm\<lparr>vheap := h,
         tables := (tables vm)(p := Some (\<lambda>_. 0),
           t := Some (es(index := word_of_nat p OR attr_bits ReadWriteKernel)))\<rparr>))))"

definition ensure_populated :: "'s page_box \<Rightarrow> 's vm \<Rightarrow> usize \<Rightarrow> usize \<Rightarrow> 's vm res option" where
  "ensure_populated box_page vm t index =
     and_then_opt (Some (get_entries vm t)) (\<lambda>es.
     if is_present (es index) then Some (Ok vm) else populate box_page vm t index)"

definition table_mut :: "'s vm \<Rightarrow> usize \<Rightarrow> usize \<Rightarrow> usize res" where
  "table_mut vm t index = and_then (get_entries vm t) (\<lambda>es. entry_table (es index))"

definition PML4_new :: "'s page_box \<Rightarrow> 's vm \<Rightarrow> (usize \<times> 's vm) res option" where
  "PML4_new box_page vm =
     and_then_opt (box_page (vheap vm)) (\<lambda>(p, h).
     Some (Ok (p, vm\<lparr>vheap := h, tables := (tables vm)(p := Some (\<lambda>_. 0))\<rparr>)))"

section \<open>create_mapping\<close>

record map_req =
  virt_start :: usize
  virt_end :: usize
  phys_base :: usize
  page_attr :: PageAttr

fun map_level :: "'s page_box \<Rightarrow> map_req \<Rightarrow> nat \<Rightarrow> nat \<Rightarrow> 's vm \<Rightarrow> usize \<Rightarrow> usize \<Rightarrow> ('s vm \<times> usize) res option"
where
  "map_level box_page rq level 0 vm t addr = None"
| "map_level box_page rq 0 (Suc fuel) vm t addr =
     (let index = calc_index 1 addr in
      and_then_opt (Some (get_entries vm t)) (\<lambda>es.
      and_then_opt (Some (add64 (phys_base rq) addr)) (\<lambda>pa.
      and_then_opt (Some (sub_u pa (virt_start rq))) (\<lambda>phys_addr.
      and_then_opt (Some (set_page phys_addr (page_attr rq))) (\<lambda>v.
      let vm' = vm\<lparr>tables := (tables vm)(t := Some (es(index := v)))\<rparr>;
          addr' = (addr + PAGE_SIZE) mod 2 ^ 64 in
      if index + 1 \<ge> 512 \<or> addr' \<ge> virt_end rq then Some (Ok (vm', addr'))
      else map_level box_page rq 0 fuel vm' t addr')))))"
| "map_level box_page rq (Suc level) (Suc fuel) vm t addr =
     (let index = calc_index (Suc (Suc level)) addr in
      and_then_opt (ensure_populated box_page vm t index) (\<lambda>vm1.
      and_then_opt (Some (table_mut vm1 t index)) (\<lambda>t'.
      and_then_opt (map_level box_page rq level 512 vm1 t' addr) (\<lambda>(vm2, addr').
      if index + 1 \<ge> 512 \<or> addr' \<ge> virt_end rq then Some (Ok (vm2, addr'))
      else map_level box_page rq (Suc level) fuel vm2 t addr'))))"

definition create_mapping :: "'s page_box \<Rightarrow> 's vm \<Rightarrow> usize \<Rightarrow> map_req \<Rightarrow> 's vm res option" where
  "create_mapping box_page vm root rq =
     and_then_opt (map_level box_page rq 3 512 vm root (virt_start rq)) (\<lambda>(vm', _). Some (Ok vm'))"

text \<open>\<^verbatim>\<open>Box::new\<close> of a zeroed table: one page from the global allocator, filled with zeros.\<close>

definition box_new_page :: "heap_state page_box" where
  "box_new_page s = box_alloc s PAGE_SIZE PAGE_SIZE"

section \<open>The tree of tables\<close>

type_synonym table_mem = "usize \<Rightarrow> entries option"

definition child :: "u64 \<Rightarrow> usize" where
  "child v = unat (v AND NOT ATTR_MASK)"

definition page :: "usize \<Rightarrow> nat" where
  "page a = a div 4096"

text \<open>
  The entry that a walk from table \<open>t\<close> reaches for an address: the last-level entry, or 0 where
  the path is not present.
\<close>

fun walk :: "table_mem \<Rightarrow> nat \<Rightarrow> usize \<Rightarrow> usize \<Rightarrow> u64" where
  "walk T 0 t a = (case T t of None \<Rightarrow> 0 | Some es \<Rightarrow> es (calc_index 1 a))"
| "walk T (Suc k) t a = (case T t of None \<Rightarrow> 0 | Some es \<Rightarrow>
     (let e = es (calc_index (Suc (Suc k)) a) in if is_present e then walk T k (child e) a else 0))"

text \<open>The tables below \<open>t\<close>, and that they form a tree: no table is reached along two paths.\<close>

fun reach :: "table_mem \<Rightarrow> nat \<Rightarrow> usize \<Rightarrow> usize set" where
  "reach T 0 t = {t}"
| "reach T (Suc k) t = insert t (case T t of None \<Rightarrow> {} | Some es \<Rightarrow>
     (\<Union>i \<in> {i. i < 512 \<and> is_present (es i)}. reach T k (child (es i))))"

fun tree :: "table_mem \<Rightarrow> nat \<Rightarrow> usize \<Rightarrow> bool" where
  "tree T 0 t \<longleftrightarrow> t \<in> dom T"
| "tree T (Suc k) t \<longleftrightarrow> (case T t of None \<Rightarrow> False | Some es \<Rightarrow>
     (\<forall>i < 512. is_present (es i) \<longrightarrow> tree T k (child (es i)) \<and> t \<notin> reach T k (child (es i)) \<and>
       (\<forall>j < 512. j \<noteq> i \<longrightarrow> is_present (es j) \<longrightarrow>
          reach T k (child (es i)) \<inter> reach T k (child (es j)) = {})))"

lemma calc_index_page: "calc_index (Suc k) a = page a div 512 ^ k mod 512"
proof -
  have "(512::nat) = 2 ^ 9" "(4096::nat) = 2 ^ 12" by simp_all
  then have "2 ^ (k * 9 + 12) = (4096::nat) * 512 ^ k"
    by (simp add: power_add mult.commute [of k] power_mult)
  then have "drop_bit (k * 9 + 12) a = a div 4096 div 512 ^ k"
    by (simp add: drop_bit_eq_div div_mult2_eq)
  moreover have "x AND 0b111111111 = x mod 512" for x :: nat
    using take_bit_eq_mask [of 9 x] by (simp add: take_bit_eq_mod mask_eq_exp_minus_1)
  ultimately show ?thesis by (simp add: calc_index_def index_shift_def page_def)
qed

lemma calc_index_less: "calc_index (Suc k) a < 512"
  by (simp add: calc_index_page)

lemma reach_self [simp]: "t \<in> reach T k t"
  by (cases k) auto

lemma tree_reach_dom: "tree T k t \<Longrightarrow> reach T k t \<subseteq> dom T"
  by (induction k arbitrary: t) (fastforce split: option.splits)+

lemma reach_cong:
  "(\<And>p. p \<in> reach T k t \<Longrightarrow> T' p = T p) \<Longrightarrow> reach T' k t = reach T k t"
proof (induction k arbitrary: t)
  case (Suc k)
  have t: "T' t = T t" using Suc.prems by simp
  show ?case
  proof (cases "T t")
    case (Some es)
    have "reach T' k (child (es i)) = reach T k (child (es i))" if "i < 512" "is_present (es i)" for i
      using that Suc.prems Some by (intro Suc.IH) auto
    then show ?thesis using t Some by auto
  qed (simp add: t)
qed simp

lemma walk_cong:
  "(\<And>p. p \<in> reach T k t \<Longrightarrow> T' p = T p) \<Longrightarrow> walk T' k t a = walk T k t a"
proof (induction k arbitrary: t)
  case (Suc k)
  have t: "T' t = T t" using Suc.prems by simp
  show ?case
  proof (cases "T t")
    case (Some es)
    let ?e = "es (calc_index (Suc (Suc k)) a)"
    have "is_present ?e \<Longrightarrow> walk T' k (child ?e) a = walk T k (child ?e) a"
      using Suc.prems Some calc_index_less [of "Suc k" a] by (intro Suc.IH) auto
    then show ?thesis using t Some by (simp add: Let_def)
  qed (simp add: t)
qed simp

lemma tree_cong:
  "(\<And>p. p \<in> reach T k t \<Longrightarrow> T' p = T p) \<Longrightarrow> tree T k t \<Longrightarrow> tree T' k t"
proof (induction k arbitrary: t)
  case (Suc k)
  have t: "T' t = T t" using Suc.prems(1) by simp
  then obtain es where es: "T t = Some es" using Suc.prems(2) by (cases "T t") auto
  have sub: "\<And>p. p \<in> reach T k (child (es i)) \<Longrightarrow> T' p = T p" if "i < 512" "is_present (es i)" for i
    using that Suc.prems(1) es by auto
  have r: "reach T' k (child (es i)) = reach T k (child (es i))" if "i < 512" "is_present (es i)" for i
    using sub [OF that] by (rule reach_cong)
  have tr: "tree T' k (child (es i))" if "i < 512" "is_present (es i)" for i
    using sub [OF that] Suc.IH Suc.prems(2) that es by simp
  show ?case using Suc.prems(2) t es by (simp add: r tr)
qed (auto simp: domIff)

section \<open>Entry values\<close>

lemma attr_bits_low: "bit (attr_bits a) n \<Longrightarrow> n < 12"
proof -
  have "take_bit 12 (attr_bits a) = attr_bits a" by (cases a) (simp_all add: attr_bits_def)
  then show "bit (attr_bits a) n \<Longrightarrow> n < 12" by (metis bit_take_bit_iff)
qed

lemma ATTR_MASK_eq: "ATTR_MASK = mask 12"
  by (simp add: ATTR_MASK_def mask_eq_exp_minus_1)

lemma aligned_word:
  assumes "4096 dvd p"
  shows "(word_of_nat p :: u64) AND ATTR_MASK = 0"
proof -
  obtain q where "p = q * 2 ^ 12" using assms by (auto simp: dvd_def mult.commute)
  then have "(word_of_nat p :: u64) = push_bit 12 (word_of_nat q)"
    by (simp add: push_bit_eq_mult)
  then show ?thesis unfolding ATTR_MASK_eq by (simp add: bit_eq_iff bit_simps)
qed

lemma misaligned_word:
  assumes "\<not> 4096 dvd p" "p < 2 ^ 64"
  shows "(word_of_nat p :: u64) AND ATTR_MASK \<noteq> 0"
proof
  assume "(word_of_nat p :: u64) AND ATTR_MASK = 0"
  then have "take_bit 12 (word_of_nat p :: u64) = 0" by (simp add: take_bit_eq_mask ATTR_MASK_eq)
  then have "take_bit 12 (unat (word_of_nat p :: u64)) = 0"
    by (metis unsigned_0 unsigned_take_bit_eq)
  then show False using assms by (simp add: unat_of_nat take_bit_eq_mod mod_eq_0_iff_dvd)
qed

lemma child_entry:
  assumes "4096 dvd p" "p < 2 ^ 64"
  shows "child (word_of_nat p OR attr_bits a) = p"
proof -
  have "(word_of_nat p OR attr_bits a) AND NOT ATTR_MASK = word_of_nat p"
  proof (rule bit_word_eqI)
    fix n assume n: "n < LENGTH(64)"
    have "bit ((word_of_nat p :: u64) AND mask 12) n = False"
      using aligned_word [OF assms(1)] by (simp add: ATTR_MASK_eq)
    then have "n < 12 \<Longrightarrow> \<not> bit (word_of_nat p :: u64) n" using n by (simp add: bit_and_iff bit_mask_iff)
    then show "bit ((word_of_nat p OR attr_bits a) AND NOT ATTR_MASK) n = bit (word_of_nat p :: u64) n"
      using attr_bits_low [of a n] n by (auto simp: ATTR_MASK_eq bit_and_iff bit_or_iff bit_not_iff bit_mask_iff)
  qed
  then show ?thesis using assms by (simp add: child_def unat_of_nat)
qed

lemma is_present_bit: "is_present v \<longleftrightarrow> bit v 0"
  by (simp add: is_present_def and_one_eq bit_0 odd_iff_mod_2_eq_one)

lemma present_entry: "a \<noteq> NotPresent \<Longrightarrow> is_present (v OR attr_bits a)"
  by (cases a) (simp_all add: is_present_bit attr_bits_def bit_or_iff bit_simps)

lemma not_present_0 [simp]: "\<not> is_present 0"
  by (simp add: is_present_def)


section \<open>Updates of a subtree\<close>

definition pte :: "map_req \<Rightarrow> nat \<Rightarrow> u64" where
  "pte rq m = word_of_nat (phys_base rq + (m - page (virt_start rq)) * 4096) OR attr_bits (page_attr rq)"

text \<open>
  \<open>T'\<close> maps the pages from \<open>lo\<close> to below \<open>hi\<close> in the subtree at \<open>t\<close>: the subtree stays a
  tree, grows by fresh tables only, touches no table outside it, and a walk for any other page
  of the same table finds what it found before.
\<close>

definition tree_upd ::
  "map_req \<Rightarrow> nat \<Rightarrow> usize \<Rightarrow> nat \<Rightarrow> nat \<Rightarrow> table_mem \<Rightarrow> table_mem \<Rightarrow> bool" where
  "tree_upd rq k t lo hi T T' \<longleftrightarrow> lo \<le> hi \<and> tree T' k t \<and> dom T \<subseteq> dom T' \<and>
     (\<forall>p \<in> dom T - reach T k t. T' p = T p) \<and> reach T' k t \<inter> dom T \<subseteq> reach T k t \<and>
     (\<forall>a. page a div 512 ^ Suc k = lo div 512 ^ Suc k \<longrightarrow>
        walk T' k t a = (if lo \<le> page a \<and> page a < hi then pte rq (page a) else walk T k t a))"

lemma tree_upd_refl: "tree T k t \<Longrightarrow> tree_upd rq k t lo lo T T"
  by (auto simp: tree_upd_def)

lemma tree_upd_trans:
  assumes u: "tree_upd rq k t lo mid T T1" "tree_upd rq k t mid hi T1 T2"
    and "mid div 512 ^ Suc k = lo div 512 ^ Suc k"
  shows "tree_upd rq k t lo hi T T2"
  unfolding tree_upd_def
proof (intro conjI ballI allI impI)
  show "lo \<le> hi" "tree T2 k t" "dom T \<subseteq> dom T2"
    using u by (auto simp: tree_upd_def)
  show "reach T2 k t \<inter> dom T \<subseteq> reach T k t" using u unfolding tree_upd_def by blast
next
  fix p assume p: "p \<in> dom T - reach T k t"
  then have "T1 p = T p" "p \<in> dom T1 - reach T1 k t" using u(1) unfolding tree_upd_def by blast+
  then show "T2 p = T p" using u(2) unfolding tree_upd_def by metis
next
  fix a assume a: "page a div 512 ^ Suc k = lo div 512 ^ Suc k"
  have "lo \<le> mid" "mid \<le> hi" using u by (auto simp: tree_upd_def)
  moreover have "walk T1 k t a = (if lo \<le> page a \<and> page a < mid then pte rq (page a) else walk T k t a)"
    using u(1) a unfolding tree_upd_def by blast
  moreover have "walk T2 k t a = (if mid \<le> page a \<and> page a < hi then pte rq (page a) else walk T1 k t a)"
    using u(2) a assms(3) unfolding tree_upd_def by metis
  ultimately show "walk T2 k t a = (if lo \<le> page a \<and> page a < hi then pte rq (page a) else walk T k t a)"
    by auto
qed

lemma slot_eq:
  fixes m n :: nat
  assumes "m div b ^ Suc k = n div b ^ Suc k" "m div b ^ k mod b = n div b ^ k mod b"
  shows "m div b ^ k = n div b ^ k"
proof -
  have "m div b ^ k div b = n div b ^ k div b"
    using assms(1) by (simp add: div_mult2_eq [symmetric] mult.commute)
  then show ?thesis using assms(2) by (metis div_mult_mod_eq)
qed

text \<open>An update of the table at entry \<open>i\<close> is an update of the whole table.\<close>

lemma tree_upd_child:
  assumes tr: "tree T (Suc k) t" "T t = Some es" and i: "i = lo div 512 ^ Suc k mod 512"
    and pr: "is_present (es i)" and u: "tree_upd rq k (child (es i)) lo hi T T'"
    and hi: "\<And>m. lo \<le> m \<Longrightarrow> m < hi \<Longrightarrow> m div 512 ^ Suc k = lo div 512 ^ Suc k"
  shows "tree_upd rq (Suc k) t lo hi T T'"
proof -
  let ?c = "\<lambda>j. child (es j)"
  have i512: "i < 512" using i by simp
  have frame: "T' p = T p" if "p \<in> dom T" "p \<notin> reach T k (?c i)" for p
    using u that by (simp add: tree_upd_def)
  have t: "T' t = Some es" using frame [of t] tr pr i512 by (auto split: option.splits)
  have new: "reach T' k (?c i) \<inter> dom T \<subseteq> reach T k (?c i)" using u by (simp add: tree_upd_def)
  have sub: "reach T k (?c j) \<subseteq> dom T" if "j < 512" "is_present (es j)" for j
    using that tr tree_reach_dom [of T k "?c j"] by simp
  have apart: "reach T k (?c a) \<inter> reach T k (?c b) = {}"
    if "a < 512" "is_present (es a)" "b < 512" "is_present (es b)" "a \<noteq> b" for a b
    using tr that by simp
  have sibling: "\<And>p. p \<in> reach T k (?c j) \<Longrightarrow> T' p = T p"
    if "j < 512" "is_present (es j)" "j \<noteq> i" for j
    using frame sub [OF that(1,2)] apart [OF that(1,2) i512 pr that(3)] by blast
  have rs: "reach T' k (?c j) = reach T k (?c j)" if "j < 512" "is_present (es j)" "j \<noteq> i" for j
    using reach_cong [OF sibling [OF that]] .
  have tree': "tree T' k (?c j)" if "j < 512" "is_present (es j)" for j
    using u tree_cong [OF sibling [OF that]] tr that by (cases "j = i") (auto simp: tree_upd_def)
  have notin: "t \<notin> reach T' k (?c j)" if "j < 512" "is_present (es j)" for j
    using rs [OF that] new tr that by (cases "j = i") auto
  have half: "reach T' k (?c i) \<inter> reach T k (?c b) = {}" if "b < 512" "is_present (es b)" "b \<noteq> i" for b
    using new sub [OF that(1,2)] apart [OF that(1,2) i512 pr that(3)] by blast
  have disj: "reach T' k (?c a) \<inter> reach T' k (?c b) = {}"
    if "a < 512" "is_present (es a)" "b < 512" "is_present (es b)" "a \<noteq> b" for a b
    using half [of a] half [of b] apart [OF that] rs [of a] rs [of b] that
    by (cases "a = i"; cases "b = i") (simp_all add: Int_commute)
  have "tree T' (Suc k) t" using t tree' notin disj by simp
  moreover have "T' p = T p" if "p \<in> dom T - reach T (Suc k) t" for p
    using frame that tr(2) i512 pr by auto
  moreover have "reach T' (Suc k) t \<inter> dom T \<subseteq> reach T (Suc k) t"
  proof
    fix p assume p: "p \<in> reach T' (Suc k) t \<inter> dom T"
    then consider "p = t" | j where "j < 512" "is_present (es j)" "p \<in> reach T' k (?c j)" using t by auto
    then show "p \<in> reach T (Suc k) t"
    proof cases
      case (2 j)
      then have "p \<in> reach T k (?c j)" using new rs [OF 2(1,2)] p by (cases "j = i") auto
      then show ?thesis using 2 tr(2) by auto
    qed simp
  qed
  moreover have "walk T' (Suc k) t a = (if lo \<le> page a \<and> page a < hi then pte rq (page a) else walk T (Suc k) t a)"
    if a: "page a div 512 ^ Suc (Suc k) = lo div 512 ^ Suc (Suc k)" for a
  proof -
    let ?j = "calc_index (Suc (Suc k)) a"
    have j: "?j = page a div 512 ^ Suc k mod 512" by (rule calc_index_page)
    show ?thesis
    proof (cases "?j = i")
      case True
      then have "page a div 512 ^ Suc k = lo div 512 ^ Suc k" using slot_eq [OF a] i j by simp
      then have "walk T' k (?c i) a = (if lo \<le> page a \<and> page a < hi then pte rq (page a) else walk T k (?c i) a)"
        using u unfolding tree_upd_def by blast
      then show ?thesis using True t tr(2) pr by simp
    next
      case False
      then have "\<not> (lo \<le> page a \<and> page a < hi)" using hi [of "page a"] i j by auto
      moreover have "is_present (es ?j) \<Longrightarrow> walk T' k (?c ?j) a = walk T k (?c ?j) a"
        using sibling [of ?j] False calc_index_less [of "Suc k" a] by (intro walk_cong) blast
      ultimately show ?thesis using t tr(2) by (auto simp: Let_def)
    qed
  qed
  ultimately show ?thesis using u unfolding tree_upd_def by blast
qed

text \<open>Hanging a fresh empty table under an entry that is not present changes no walk.\<close>

lemma empty_table:
  assumes "T p = Some (\<lambda>_. 0)"
  shows "reach T k p = {p}" "tree T k p" "walk T k p a = 0"
  using assms by (cases k; simp add: domIff)+

lemma tree_upd_populate:
  assumes tr: "tree T (Suc k) t" "T t = Some es" and i: "i < 512" "\<not> is_present (es i)"
    and p: "p \<notin> dom T" "4096 dvd p" "p < 2 ^ 64"
    and T': "T' = T(p := Some (\<lambda>_. 0), t := Some (es(i := word_of_nat p OR attr_bits ReadWriteKernel)))"
  shows "tree_upd rq (Suc k) t lo lo T T'"
    and "T' t = Some (es(i := word_of_nat p OR attr_bits ReadWriteKernel))"
proof -
  let ?e = "word_of_nat p OR attr_bits ReadWriteKernel"
  let ?es = "es(i := ?e)"
  have pt: "p \<noteq> t" using p(1) tr(2) by auto
  show t: "T' t = Some ?es" using T' by simp
  have e: "is_present ?e" "child ?e = p" using present_entry child_entry p by auto
  have new: "reach T' k p = {p}" "tree T' k p" "\<And>a. walk T' k p a = 0"
    using empty_table [of T' p k] T' pt by auto
  have old: "\<And>q. q \<in> reach T k (child (es j)) \<Longrightarrow> T' q = T q \<and> q \<noteq> p \<and> q \<noteq> t"
    if "j < 512" "is_present (es j)" for j
    using tr that tree_reach_dom [of T k "child (es j)"] p(1) T' by (auto simp: fun_upd_def)
  have r: "reach T' k (child (es j)) = reach T k (child (es j))" if "j < 512" "is_present (es j)" for j
    using old [OF that] by (intro reach_cong) blast
  have tre: "tree T' k (child (es j))" if "j < 512" "is_present (es j)" for j
    using tree_cong [of T k "child (es j)" T'] old [OF that] tr that by simp
  have w: "walk T' k (child (es j)) a = walk T k (child (es j)) a" if "j < 512" "is_present (es j)" for j a
    using old [OF that] by (intro walk_cong) blast
  have np: "p \<notin> reach T k (child (es j))" "t \<notin> reach T k (child (es j))" if "j < 512" "is_present (es j)" for j
    using old [OF that] by blast+
  have "tree T' (Suc k) t" using t e new tre np pt r tr i by (simp add: fun_upd_def)
  moreover have "dom T \<subseteq> dom T'" "\<forall>q \<in> dom T - reach T (Suc k) t. T' q = T q"
    using T' p(1) by (auto simp: tr(2))
  moreover have "reach T' (Suc k) t \<inter> dom T \<subseteq> reach T (Suc k) t"
    using t e new(1) r p(1) tr(2) by (auto split: if_splits)
  moreover have "walk T' (Suc k) t a = walk T (Suc k) t a" for a
    using t e new(3) w tr(2) i calc_index_less [of "Suc k" a] by (simp add: Let_def)
  ultimately show "tree_upd rq (Suc k) t lo lo T T'"
    unfolding tree_upd_def by (auto simp del: tree.simps reach.simps walk.simps)
qed

lemma tree_upd_pte:
  assumes "T t = Some es" "v = pte rq lo" "i = lo mod 512"
  shows "tree_upd rq 0 t lo (Suc lo) T (T(t := Some (es(i := v))))"
proof -
  have "page a mod 512 = lo mod 512 \<longleftrightarrow> page a = lo" if "page a div 512 = lo div 512" for a
    using that by (metis div_mult_mod_eq)
  then show ?thesis using assms calc_index_page [of 0] by (auto simp: tree_upd_def)
qed


section \<open>The loops of create_mapping\<close>

text \<open>A request that the mapping loops can serve without arithmetic faults.\<close>

definition map_req_ok :: "map_req \<Rightarrow> bool" where
  "map_req_ok rq \<longleftrightarrow> virt_start rq < virt_end rq \<and> virt_end rq \<le> 2 ^ 48 \<and>
     4096 dvd phys_base rq \<and> phys_base rq + virt_end rq < 2 ^ 64"

definition at_page :: "map_req \<Rightarrow> nat \<Rightarrow> usize" where
  "at_page rq m = m * 4096 + virt_start rq mod 4096"

text \<open>The first page after the aligned group of \<open>512 ^ k\<close> pages that holds \<open>m\<close>.\<close>

definition group_end :: "nat \<Rightarrow> nat \<Rightarrow> nat" where
  "group_end k m = (m div 512 ^ k + 1) * 512 ^ k"

lemma page_at_page [simp]: "page (at_page rq m) = m"
  by (simp add: page_def at_page_def)

lemma at_page_less [simp]: "at_page rq m < at_page rq n \<longleftrightarrow> m < n"
  by (auto simp: at_page_def)

lemma at_page_Suc: "at_page rq m + 4096 = at_page rq (Suc m)"
  by (simp add: at_page_def)

lemma group_end_0 [simp]: "group_end 0 m = Suc m"
  by (simp add: group_end_def)

lemma group_end_gt: "m < group_end k m"
  unfolding group_end_def by (metis Suc_eq_plus1 dividend_less_div_times mult.commute mult_Suc
      zero_less_numeral zero_less_power)

lemma same_group: "m \<le> n \<Longrightarrow> n < group_end k m \<Longrightarrow> n div 512 ^ k = m div 512 ^ k"
proof -
  assume a: "m \<le> n" "n < group_end k m"
  then have "m div 512 ^ k \<le> n div 512 ^ k" by (simp only: div_le_mono)
  moreover have "n div 512 ^ k < m div 512 ^ k + 1"
    using a(2) unfolding group_end_def by (rule less_mult_imp_div_less)
  ultimately show "n div 512 ^ k = m div 512 ^ k" by linarith
qed

lemma group_end_same: "n div 512 ^ k = m div 512 ^ k \<Longrightarrow> group_end k n = group_end k m"
  by (simp add: group_end_def)

text \<open>
  A table has 512 slots: a slot ends at or before the table's end, exactly there for the last
  index, and the next index starts where it ends.
\<close>

lemma slot_end:
  fixes m k :: nat
  defines "i \<equiv> m div 512 ^ k mod 512"
  shows "i = 511 \<Longrightarrow> group_end k m = group_end (Suc k) m"
    and "i < 511 \<Longrightarrow> group_end k m < group_end (Suc k) m"
    and "i < 511 \<Longrightarrow> group_end k m div 512 ^ k mod 512 = Suc i"
proof -
  let ?q = "m div 512 ^ k"
  have q: "?q = 512 * (?q div 512) + i" by (simp add: i_def)
  have "m div 512 ^ Suc k = ?q div 512" by (simp add: div_mult2_eq [symmetric] mult.commute)
  then have up: "group_end (Suc k) m = (?q div 512 * 512 + 512) * 512 ^ k"
    by (simp add: group_end_def algebra_simps)
  show "group_end k m = group_end (Suc k) m" if "i = 511"
  proof -
    have "?q + 1 = ?q div 512 * 512 + 512" using q that by linarith
    then show ?thesis unfolding up by (simp only: group_end_def [of k])
  qed
  show "i < 511 \<Longrightarrow> group_end k m < group_end (Suc k) m"
    using q unfolding up group_end_def [of k] by (intro mult_strict_right_mono) auto
  have "(?q + 1) * 512 ^ k div 512 ^ k = ?q + 1" by (rule nonzero_mult_div_cancel_right) simp
  then have e: "group_end k m div 512 ^ k = ?q + 1" by (simp add: group_end_def)
  show "i < 511 \<Longrightarrow> group_end k m div 512 ^ k mod 512 = Suc i"
    unfolding e i_def by (simp add: mod_Suc)
qed

definition page_count :: "map_req \<Rightarrow> nat" where
  "page_count rq = (virt_end rq - virt_start rq + 4095) div 4096"

lemma page_count_end:
  assumes "virt_end rq \<le> at_page rq n" "at_page rq (n - 1) < virt_end rq"
    "page (virt_start rq) < n" "virt_start rq < virt_end rq"
  shows "n = page (virt_start rq) + page_count rq"
proof -
  obtain j where n: "n = page (virt_start rq) + Suc j"
    using assms(3) less_imp_Suc_add by fastforce
  have vs: "virt_start rq = page (virt_start rq) * 4096 + virt_start rq mod 4096"
    by (simp add: page_def)
  have "virt_end rq - virt_start rq \<le> Suc j * 4096" "j * 4096 < virt_end rq - virt_start rq"
    using assms(1,2) vs unfolding at_page_def n by (simp_all add: algebra_simps)
  then have "page_count rq = Suc j" unfolding page_count_def by (intro div_nat_eqI) simp_all
  then show ?thesis using n by simp
qed

lemma before_end:
  assumes "at_page rq m < virt_end rq"
  shows "m < page (virt_start rq) + page_count rq"
proof -
  have vs: "virt_start rq = page (virt_start rq) * 4096 + virt_start rq mod 4096"
    by (simp add: page_def)
  have "m * 4096 < page (virt_start rq) * 4096 + (virt_end rq - virt_start rq)"
    using assms vs unfolding at_page_def by linarith
  moreover have "virt_end rq - virt_start rq \<le> page_count rq * 4096"
    unfolding page_count_def by linarith
  ultimately have "m * 4096 < (page (virt_start rq) + page_count rq) * 4096" by simp
  then show ?thesis by simp
qed

text \<open>\<open>page_budget box_page n s\<close>: the next \<open>n\<close> allocations of a page table from \<open>s\<close> succeed.\<close>

fun page_budget :: "'s page_box \<Rightarrow> nat \<Rightarrow> 's \<Rightarrow> bool" where
  "page_budget box_page 0 s \<longleftrightarrow> True"
| "page_budget box_page (Suc n) s \<longleftrightarrow>
     (case box_page s of Some (Ok (p, s')) \<Rightarrow> page_budget box_page n s' | _ \<Rightarrow> False)"

lemma page_budget_Suc: "page_budget bp (Suc n) s \<Longrightarrow> page_budget bp n s"
  by (induction n arbitrary: s) (auto split: option.splits res.splits)

lemma page_budget_mono: "page_budget bp n s \<Longrightarrow> k \<le> n \<Longrightarrow> page_budget bp k s"
proof (induction n)
  case (Suc n)
  then show ?case using page_budget_Suc by (metis le_SucE)
qed simp

text \<open>
  The tables below a table of level \<open>k + 1\<close> that the pages from \<open>m\<close> to below \<open>n\<close> need: one for each
  aligned group of \<open>512 ^ j\<close> pages that they touch, for every level \<open>j\<close> up to \<open>k\<close>.
\<close>

primrec tables_for :: "nat \<Rightarrow> nat \<Rightarrow> nat \<Rightarrow> nat" where
  "tables_for 0 m n = 0"
| "tables_for (Suc k) m n = (n - 1) div 512 ^ Suc k + 1 - m div 512 ^ Suc k + tables_for k m n"

lemma tables_for_Suc_le:
  assumes "m < n"
  shows "Suc (tables_for k m n) \<le> tables_for (Suc k) m n"
proof -
  have "m div 512 ^ Suc k \<le> (n - 1) div 512 ^ Suc k" using assms by (intro div_le_mono) simp
  then show ?thesis by (simp del: power_Suc)
qed

lemma touched_split:
  fixes g :: nat
  assumes "m < n" "n \<le> l" "g dvd n" "0 < g"
  shows "((n - 1) div g + 1 - m div g) + ((l - 1) div g + 1 - n div g) = (l - 1) div g + 1 - m div g"
proof -
  obtain q where q: "n = g * Suc q" using assms by (metis dvdE gr0_conv_Suc mult_0_right not_gr_zero not_less_zero)
  have "n - 1 = g - 1 + g * q" using q assms(4) by simp
  then have "(n - 1) div g = q + (g - 1) div g" using assms(4) by (simp only: div_mult_self2)
  then have "(n - 1) div g = q" using assms(4) by simp
  moreover have "n div g = Suc q" using q assms(4) by simp
  moreover have "m div g \<le> (n - 1) div g" "(n - 1) div g \<le> (l - 1) div g"
    using assms by (intro div_le_mono, simp)+
  ultimately show ?thesis by simp
qed

lemma tables_for_split:
  "m < n \<Longrightarrow> n \<le> l \<Longrightarrow> 512 ^ k dvd n \<Longrightarrow> tables_for k m n + tables_for k n l = tables_for k m l"
proof (induction k)
  case (Suc k)
  have "512 ^ k dvd n" using Suc.prems(3) power_le_dvd by fastforce
  then show ?case
    using Suc.IH [OF Suc.prems(1,2)] touched_split [OF Suc.prems] by (simp del: power_Suc)
qed simp

lemma tables_for_3:
  "tables_for 3 m n = (n - 1) div 134217728 + 1 - m div 134217728 +
     ((n - 1) div 262144 + 1 - m div 262144 + ((n - 1) div 512 + 1 - m div 512))"
proof -
  have "(3::nat) = Suc (Suc (Suc 0))" by simp
  then show ?thesis by (simp only: tables_for.simps) simp
qed

definition tables_needed :: "map_req \<Rightarrow> nat" where
  "tables_needed rq = tables_for 3 (page (virt_start rq)) (page (virt_start rq) + page_count rq)"

locale page_source =
  fixes box_page :: "'s page_box"
    and owned :: "'s \<Rightarrow> usize set \<Rightarrow> bool"
  assumes box_fresh: "owned s P \<Longrightarrow>
      box_page s = Some (Panic ''memory allocation failed'') \<or>
      (\<exists>p s'. box_page s = Some (Ok (p, s')) \<and> owned s' (insert p P) \<and> p \<notin> P \<and> 4096 dvd p \<and> p < 2 ^ 64)"
begin

definition vm_ok :: "'s vm \<Rightarrow> bool" where
  "vm_ok vm \<longleftrightarrow> owned (vheap vm) (dom (tables vm))"

definition out_of_memory :: "'b res option \<Rightarrow> bool" where
  "out_of_memory r \<longleftrightarrow> r = Some (Panic ''memory allocation failed'')"

lemma ensure_populated_spec:
  assumes "vm_ok vm" "tree (tables vm) (Suc k) t" "i < 512"
  shows "out_of_memory (ensure_populated box_page vm t i) \<and> \<not> page_budget box_page 1 (vheap vm) \<or>
    (\<exists>vm1 es. ensure_populated box_page vm t i = Some (Ok vm1) \<and> vm_ok vm1 \<and>
       tables vm1 t = Some es \<and> is_present (es i) \<and>
       (\<forall>b. page_budget box_page (Suc b) (vheap vm) \<longrightarrow> page_budget box_page b (vheap vm1)) \<and>
       tree_upd rq (Suc k) t lo lo (tables vm) (tables vm1))"
proof -
  obtain es where es: "tables vm t = Some es" using assms(2) by (cases "tables vm t") auto
  show ?thesis
  proof (cases "is_present (es i)")
    case True
    then show ?thesis using es assms tree_upd_refl [OF assms(2)] page_budget_Suc [of box_page _ "vheap vm"]
      by (simp add: ensure_populated_def get_entries_def del: page_budget.simps)
  next
    case False
    have r: "ensure_populated box_page vm t i = populate box_page vm t i"
      using False es by (simp add: ensure_populated_def get_entries_def)
    show ?thesis
    proof (cases "box_page (vheap vm) = Some (Panic ''memory allocation failed'')")
      case True
      then show ?thesis unfolding r using es False
        by (simp add: populate_def get_entries_def out_of_memory_def)
    next
      case oom: False
      then obtain p h where p: "box_page (vheap vm) = Some (Ok (p, h))" "owned h (insert p (dom (tables vm)))"
          "p \<notin> dom (tables vm)" "4096 dvd p" "p < 2 ^ 64"
        using box_fresh assms(1) unfolding vm_ok_def by blast
      let ?e = "word_of_nat p OR attr_bits ReadWriteKernel"
      let ?T = "(tables vm)(p \<mapsto> (\<lambda>_. 0), t \<mapsto> es(i := ?e))"
      have "populate box_page vm t i = Some (Ok (vm\<lparr>vheap := h, tables := ?T\<rparr>))"
        using es False p(1) by (simp add: populate_def get_entries_def)
      moreover have "dom ?T = insert p (dom (tables vm))" using es by auto
      ultimately show ?thesis
        using tree_upd_populate [OF assms(2) es assms(3) False p(3-5) refl] p(1,2) present_entry
        unfolding r vm_ok_def by simp
    qed
  qed
qed

text \<open>
  What one loop over a table achieves from page \<open>m\<close>: it maps pages up to some \<open>n\<close>, where it has
  reached the end of the request or of the table.
\<close>

definition served :: "map_req \<Rightarrow> nat \<Rightarrow> usize \<Rightarrow> nat \<Rightarrow> 's vm \<Rightarrow> ('s vm \<times> usize) res option \<Rightarrow> bool" where
  "served rq k t m vm r \<longleftrightarrow>
     out_of_memory r \<and> \<not> page_budget box_page (tables_for k m (page (virt_start rq) + page_count rq)) (vheap vm) \<or>
     (\<exists>vm' n. r = Some (Ok (vm', at_page rq n)) \<and> vm_ok vm' \<and>
     m < n \<and> n \<le> group_end (Suc k) m \<and>
     (\<forall>b. page_budget box_page (tables_for k m n + b) (vheap vm) \<longrightarrow> page_budget box_page b (vheap vm')) \<and>
     tree_upd rq k t m n (tables vm) (tables vm') \<and>
     (virt_end rq \<le> at_page rq n \<or> n = group_end (Suc k) m) \<and> at_page rq (n - 1) < virt_end rq)"

lemma served_step:
  assumes u: "tree_upd rq k t m n (tables vm) (tables vm1)" and ok: "vm_ok vm1"
    and n: "m < n" "n \<le> group_end k m" "virt_end rq \<le> at_page rq n \<or> n = group_end k m" "at_page rq (n - 1) < virt_end rq"
    and i: "i = m div 512 ^ k mod 512"
    and bud: "\<And>b. page_budget box_page (tables_for k m n + b) (vheap vm) \<Longrightarrow> page_budget box_page b (vheap vm1)"
    and rest: "at_page rq n < virt_end rq \<Longrightarrow> n div 512 ^ k mod 512 = Suc i \<Longrightarrow> served rq k t n vm1 rest"
  shows "served rq k t m vm
    (if i + 1 \<ge> 512 \<or> at_page rq n \<ge> virt_end rq then Some (Ok (vm1, at_page rq n)) else rest)"
proof -
  have le: "group_end k m \<le> group_end (Suc k) m"
  proof (cases "i < 511")
    case False
    moreover have "i < 512" using i by simp
    ultimately have "i = 511" by simp
    then show ?thesis using slot_end(1) [of m k] i by simp
  qed (use slot_end(2) [of m k] i in simp)
  show ?thesis
  proof (cases "i + 1 \<ge> 512 \<or> at_page rq n \<ge> virt_end rq")
    case True
    have "i < 512" using i by simp
    then have "i + 1 \<ge> 512 \<Longrightarrow> i = 511" by linarith
    then have "virt_end rq \<le> at_page rq n \<or> n = group_end (Suc k) m"
      using True n(3) slot_end(1) [of m k] i by auto
    then show ?thesis using True u ok n le bud by (auto simp: served_def)
  next
    case False
    then have nk: "n = group_end k m" "i < 511" using n(3) by auto
    have dvd: "512 ^ k dvd n" using nk by (simp add: group_end_def)
    have "n < group_end (Suc k) m" "n div 512 ^ k mod 512 = Suc i"
      using slot_end(2,3) [of m k] i nk by simp_all
    then have same: "n div 512 ^ Suc k = m div 512 ^ Suc k" using same_group [of m n "Suc k"] n(1) by simp
    then have up: "group_end (Suc k) n = group_end (Suc k) m" by (rule group_end_same)
    let ?L = "page (virt_start rq) + page_count rq"
    have nl: "n \<le> ?L" using before_end [of rq n] False by simp
    have "served rq k t n vm1 rest"
      using rest False \<open>n div 512 ^ k mod 512 = Suc i\<close> by simp
    then consider "out_of_memory rest" "\<not> page_budget box_page (tables_for k n ?L) (vheap vm1)"
      | vm2 n2 where "rest = Some (Ok (vm2, at_page rq n2))" "vm_ok vm2" "n < n2" "n2 \<le> group_end (Suc k) m"
          "\<forall>b. page_budget box_page (tables_for k n n2 + b) (vheap vm1) \<longrightarrow> page_budget box_page b (vheap vm2)"
          "tree_upd rq k t n n2 (tables vm1) (tables vm2)"
          "virt_end rq \<le> at_page rq n2 \<or> n2 = group_end (Suc k) m" "at_page rq (n2 - 1) < virt_end rq"
      unfolding served_def up by blast
    then have "served rq k t m vm rest"
    proof cases
      case 1
      have "tables_for k m n + tables_for k n ?L = tables_for k m ?L"
        using tables_for_split [OF n(1) nl] dvd by simp
      then show ?thesis using 1 bud unfolding served_def by metis
    next
      case r: (2 vm2 n2)
      have e: "tables_for k m n + (tables_for k n n2 + b) = tables_for k m n2 + b" for b
        using tables_for_split [OF n(1), of n2 k] r(3) dvd by simp
      have "\<forall>b. page_budget box_page (tables_for k m n2 + b) (vheap vm) \<longrightarrow> page_budget box_page b (vheap vm2)"
        using bud r(5) unfolding e [symmetric] by blast
      then show ?thesis
        using r tree_upd_trans [OF u r(6) same] n(1) less_trans unfolding served_def by blast
    qed
    then show ?thesis using False by simp
  qed
qed

lemma served_level0:
  assumes "map_req_ok rq" "vm_ok vm" "t \<in> dom (tables vm)" "page (virt_start rq) \<le> m"
    "at_page rq m < virt_end rq" "512 - m mod 512 \<le> fuel"
  shows "served rq 0 t m vm (map_level box_page rq 0 fuel vm t (at_page rq m))"
  using assms(2-)
proof (induction fuel arbitrary: vm m)
  case 0
  then show ?case by (simp add: not_le)
next
  case (Suc fuel)
  obtain es where es: "tables vm t = Some es" using Suc.prems by auto
  let ?i = "calc_index 1 (at_page rq m)"
  let ?vm1 = "vm\<lparr>tables := (tables vm)(t \<mapsto> es(?i := pte rq m))\<rparr>"
  let ?phys = "phys_base rq + (m - page (virt_start rq)) * 4096"
  have i: "?i = m mod 512" using calc_index_page [of 0 "at_page rq m"] by simp
  have vs: "virt_start rq = at_page rq (page (virt_start rq))" by (simp add: at_page_def page_def)
  then have ph: "phys_base rq + at_page rq m = ?phys + virt_start rq"
    using Suc.prems(3) by (simp add: at_page_def algebra_simps)
  have bound: "phys_base rq + at_page rq m < 2 ^ 64"
    using assms(1) Suc.prems(4) by (simp add: map_req_ok_def)
  have "4096 dvd ?phys" using assms(1) by (simp add: map_req_ok_def)
  then have set: "set_page ?phys (page_attr rq) = Ok (pte rq m)"
    using aligned_word [of ?phys] by (simp add: set_page_def pte_def)
  have wrap: "(at_page rq m + PAGE_SIZE) mod 0x10000000000000000 = at_page rq (Suc m)"
    using assms(1) Suc.prems(4) at_page_Suc [of rq m, symmetric]
    by (simp add: PAGE_SIZE_def map_req_ok_def)
  have eq: "map_level box_page rq 0 (Suc fuel) vm t (at_page rq m) =
      (if ?i + 1 \<ge> 512 \<or> at_page rq (Suc m) \<ge> virt_end rq then Some (Ok (?vm1, at_page rq (Suc m)))
       else map_level box_page rq 0 fuel ?vm1 t (at_page rq (Suc m)))"
    using es bound by (simp add: Let_def get_entries_def add_u_def ph sub_u_def set wrap)
  have "tree_upd rq 0 t m (Suc m) (tables vm) (tables ?vm1)"
    using tree_upd_pte [of "tables vm" t es "pte rq m" rq m, OF es refl i] by simp
  moreover have "vm_ok ?vm1" using Suc.prems(1) es by (simp add: vm_ok_def insert_absorb domI)
  ultimately show ?case unfolding eq
  proof (rule served_step)
    assume "at_page rq (Suc m) < virt_end rq" "Suc m div 512 ^ 0 mod 512 = Suc ?i"
    then show "served rq 0 t (Suc m) ?vm1 (map_level box_page rq 0 fuel ?vm1 t (at_page rq (Suc m)))"
      using Suc.prems \<open>vm_ok ?vm1\<close> i by (intro Suc.IH) auto
  qed (use Suc.prems i in simp_all)
qed

lemma served_level:
  assumes rq: "map_req_ok rq" and vm: "vm_ok vm" "tree (tables vm) k t" "page (virt_start rq) \<le> m"
    "at_page rq m < virt_end rq" "512 - m div 512 ^ k mod 512 \<le> fuel"
  shows "served rq k t m vm (map_level box_page rq k fuel vm t (at_page rq m))"
  using vm
proof (induction k arbitrary: vm t m fuel)
  case 0
  then show ?case using served_level0 [OF rq] by simp
next
  case (Suc k)
  note level = Suc.IH
  from Suc.prems show ?case
  proof (induction fuel arbitrary: vm m)
    case 0
    then show ?case by (simp add: not_le)
  next
    case (Suc fuel)
    define i where "i = m div 512 ^ Suc k mod 512"
    have i: "calc_index (Suc (Suc k)) (at_page rq m) = i"
      using calc_index_page [of "Suc k"] by (simp add: i_def)
    have i512: "i < 512" by (simp add: i_def)
    let ?L = "page (virt_start rq) + page_count rq"
    have ml: "m < ?L" using before_end Suc.prems(4) by simp
    consider "out_of_memory (ensure_populated box_page vm t i)" "\<not> page_budget box_page 1 (vheap vm)"
      | vm1 es where "ensure_populated box_page vm t i = Some (Ok vm1)" "vm_ok vm1"
          "tables vm1 t = Some es" "is_present (es i)"
          "tree_upd rq (Suc k) t m m (tables vm) (tables vm1)"
          "\<And>b. page_budget box_page (Suc b) (vheap vm) \<Longrightarrow> page_budget box_page b (vheap vm1)"
      using ensure_populated_spec [OF Suc.prems(1,2) i512] by metis
    then show ?case
    proof cases
      case 1
      have "1 \<le> tables_for (Suc k) m ?L" using tables_for_Suc_le [OF ml, of k] by linarith
      then have "\<not> page_budget box_page (tables_for (Suc k) m ?L) (vheap vm)"
        using 1(2) page_budget_mono [of box_page "tables_for (Suc k) m ?L" "vheap vm" 1] by argo
      then show ?thesis using 1(1) by (simp add: served_def out_of_memory_def Let_def i del: tables_for.simps)
    next
      case (2 vm1 es)
      have tr1: "tree (tables vm1) (Suc k) t" using 2(5) by (simp add: tree_upd_def)
      have c: "table_mut vm1 t i = Ok (child (es i))"
        using 2(3,4) by (simp add: table_mut_def get_entries_def entry_table_def child_def)
      have trc: "tree (tables vm1) k (child (es i))" using tr1 2(3,4) i512 by simp
      let ?r = "map_level box_page rq k 512 vm1 (child (es i)) (at_page rq m)"
      have inner: "served rq k (child (es i)) m vm1 ?r"
        using 2 trc Suc.prems by (intro level) auto
      have eq: "map_level box_page rq (Suc k) (Suc fuel) vm t (at_page rq m) =
          and_then_opt ?r (\<lambda>(vm2, addr'). if i + 1 \<ge> 512 \<or> addr' \<ge> virt_end rq then Some (Ok (vm2, addr'))
            else map_level box_page rq (Suc k) fuel vm2 t addr')"
        by (simp add: Let_def i 2(1) c)
      consider "out_of_memory ?r" "\<not> page_budget box_page (tables_for k m ?L) (vheap vm1)"
        | vm2 n where "?r = Some (Ok (vm2, at_page rq n))" "vm_ok vm2" "m < n" "n \<le> group_end (Suc k) m"
            "tree_upd rq k (child (es i)) m n (tables vm1) (tables vm2)"
            "virt_end rq \<le> at_page rq n \<or> n = group_end (Suc k) m" "at_page rq (n - 1) < virt_end rq"
            "\<forall>b. page_budget box_page (tables_for k m n + b) (vheap vm1) \<longrightarrow> page_budget box_page b (vheap vm2)"
        using inner unfolding served_def by blast
      then show ?thesis
      proof cases
        case 1
        have "Suc (tables_for k m ?L) \<le> tables_for (Suc k) m ?L" using tables_for_Suc_le [OF ml] .
        then have "\<not> page_budget box_page (tables_for (Suc k) m ?L) (vheap vm)"
          using 1(2) 2(6) page_budget_mono [of box_page "tables_for (Suc k) m ?L" "vheap vm" "Suc (tables_for k m ?L)"] by metis
        then show ?thesis using 1(1) unfolding eq by (simp add: served_def out_of_memory_def del: tables_for.simps)
      next
        case n: (2 vm2 n)
        have "tree_upd rq (Suc k) t m n (tables vm1) (tables vm2)"
        proof (rule tree_upd_child [OF tr1 2(3) i_def 2(4) n(5)])
          fix x assume "m \<le> x" "x < n"
          then show "x div 512 ^ Suc k = m div 512 ^ Suc k" using same_group [of m x "Suc k"] n(4) by linarith
        qed
        then have u: "tree_upd rq (Suc k) t m n (tables vm) (tables vm2)"
          using tree_upd_trans [OF 2(5)] by simp
        have bud: "page_budget box_page b (vheap vm2)"
          if "page_budget box_page (tables_for (Suc k) m n + b) (vheap vm)" for b
        proof -
          have "Suc (tables_for k m n + b) \<le> tables_for (Suc k) m n + b"
            using tables_for_Suc_le [OF n(3), of k] by simp
          then have "page_budget box_page (tables_for k m n + b) (vheap vm1)"
            using 2(6) page_budget_mono [OF that] by metis
          then show ?thesis using n(8) by blast
        qed
        show ?thesis unfolding eq n(1) and_then_opt_simps prod.case
        proof (rule served_step [OF u n(2-4,6,7) i_def bud])
          assume "at_page rq n < virt_end rq" "n div 512 ^ Suc k mod 512 = Suc i"
          then show "served rq (Suc k) t n vm2 (map_level box_page rq (Suc k) fuel vm2 t (at_page rq n))"
            using Suc.prems n u by (intro Suc.IH) (auto simp: tree_upd_def i_def)
        qed
      qed
    qed
  qed
qed

theorem create_mapping_spec:
  assumes rq: "map_req_ok rq" and vm: "vm_ok vm" "tree (tables vm) 3 root"
  shows "out_of_memory (create_mapping box_page vm root rq) \<and>
      \<not> page_budget box_page (tables_needed rq) (vheap vm) \<or>
    (\<exists>vm'. create_mapping box_page vm root rq = Some (Ok vm') \<and> vm_ok vm' \<and>
      (\<forall>b. page_budget box_page (tables_needed rq + b) (vheap vm) \<longrightarrow> page_budget box_page b (vheap vm')) \<and>
      tree_upd rq 3 root (page (virt_start rq)) (page (virt_start rq) + page_count rq) (tables vm) (tables vm'))"
proof -
  let ?m = "page (virt_start rq)"
  let ?r = "map_level box_page rq 3 512 vm root (virt_start rq)"
  have vs: "at_page rq ?m = virt_start rq" by (simp add: at_page_def page_def)
  have le: "virt_start rq < virt_end rq" "virt_end rq \<le> 2 ^ 48" using rq by (simp_all add: map_req_ok_def)
  have "served rq 3 root ?m vm ?r"
    using served_level [OF rq vm, of ?m 512] le vs by simp
  then consider "out_of_memory ?r" "\<not> page_budget box_page (tables_needed rq) (vheap vm)"
    | vm' n where "?r = Some (Ok (vm', at_page rq n))" "vm_ok vm'" "?m < n" "n \<le> group_end (Suc 3) ?m"
        "tree_upd rq 3 root ?m n (tables vm) (tables vm')"
        "virt_end rq \<le> at_page rq n \<or> n = group_end (Suc 3) ?m" "at_page rq (n - 1) < virt_end rq"
        "\<forall>b. page_budget box_page (tables_for 3 ?m n + b) (vheap vm) \<longrightarrow> page_budget box_page b (vheap vm')"
    unfolding served_def tables_needed_def by blast
  then show ?thesis
  proof cases
    case 1
    then show ?thesis by (simp add: create_mapping_def out_of_memory_def)
  next
    case (2 vm' n)
    have "?m < 2 ^ 36" using le by (simp add: page_def div_less_iff_less_mult)
    then have "group_end (Suc 3) ?m = 2 ^ 36" by (simp add: group_end_def)
    then have "virt_end rq \<le> at_page rq n" using 2(6) le(2) by (auto simp: at_page_def)
    then have "n = ?m + page_count rq" using page_count_end [OF _ 2(7,3) le(1)] by simp
    then show ?thesis using 2 by (auto simp: create_mapping_def tables_needed_def)
  qed
qed

text \<open>A physical base that is not page aligned is refused at the first entry.\<close>

lemma map_level_misaligned:
  assumes "\<not> 4096 dvd phys_base rq" "phys_base rq + virt_start rq < 2 ^ 64"
    and "vm_ok vm" "tree (tables vm) k t" "0 < fuel"
  shows "out_of_memory (map_level box_page rq k fuel vm t (virt_start rq)) \<or>
    map_level box_page rq k fuel vm t (virt_start rq) = Some (Err ''Physical address must be aligned to page size'')"
  using assms(3-5)
proof (induction k arbitrary: vm t fuel)
  case 0
  then obtain es f where "tables vm t = Some es" "fuel = Suc f" by (auto simp: gr0_conv_Suc)
  moreover have "set_page (phys_base rq) (page_attr rq) = Err ''Physical address must be aligned to page size''"
    using misaligned_word [OF assms(1)] assms(2) by (simp add: set_page_def)
  ultimately show ?case
    using assms(2) by (simp add: Let_def get_entries_def add_u_def sub_u_def)
next
  case (Suc k)
  obtain f where f: "fuel = Suc f" using Suc.prems(3) by (auto simp: gr0_conv_Suc)
  let ?i = "calc_index (Suc (Suc k)) (virt_start rq)"
  consider "out_of_memory (ensure_populated box_page vm t ?i)"
    | vm1 es where "ensure_populated box_page vm t ?i = Some (Ok vm1)" "vm_ok vm1"
        "tables vm1 t = Some es" "is_present (es ?i)"
        "tree_upd rq (Suc k) t 0 0 (tables vm) (tables vm1)"
    using ensure_populated_spec [OF Suc.prems(1,2) calc_index_less] by metis
  then show ?case
  proof cases
    case 1
    then show ?thesis by (simp add: f out_of_memory_def Let_def)
  next
    case (2 vm1 es)
    have "tree (tables vm1) k (child (es ?i))"
      using 2(3-5) calc_index_less [of "Suc k"] by (simp add: tree_upd_def)
    then have IH: "out_of_memory (map_level box_page rq k 512 vm1 (child (es ?i)) (virt_start rq)) \<or>
        map_level box_page rq k 512 vm1 (child (es ?i)) (virt_start rq) =
          Some (Err ''Physical address must be aligned to page size'')"
      using Suc.IH 2(2) by simp
    have "table_mut vm1 t ?i = Ok (child (es ?i))"
      using 2(3,4) by (simp add: table_mut_def get_entries_def entry_table_def child_def)
    then show ?thesis using IH 2(1) by (auto simp: f out_of_memory_def Let_def)
  qed
qed

end


section \<open>The kernel's heap as a source of page tables\<close>

text \<open>
  \<open>owned_pages L s P\<close>: the tables \<open>P\<close> are live page-sized objects of the heap \<open>s\<close>, and the other
  live objects are \<open>L\<close>.
\<close>

definition owned_pages :: "(usize \<times> usize) set \<Rightarrow> heap_state \<Rightarrow> usize set \<Rightarrow> bool" where
  "owned_pages L s P \<longleftrightarrow> live_inv s (L \<union> (\<lambda>p. (p, 4096)) ` P) \<and> fst ` L \<inter> P = {}"

lemma layout_page: "layout_ok 4096 4096"
  by (simp add: layout_ok_def is_pow2_def bit_len.simps)

lemma box_new_page_fresh:
  assumes "owned_pages L s P"
  shows "box_new_page s = Some (Panic ''memory allocation failed'') \<or>
    (\<exists>p s'. box_new_page s = Some (Ok (p, s')) \<and> owned_pages L s' (insert p P) \<and> p \<notin> P \<and>
       4096 dvd p \<and> p < 2 ^ 64)"
proof -
  have "live_inv s (L \<union> (\<lambda>p. (p, 4096)) ` P)" using assms by (simp add: owned_pages_def)
  from box_alloc_spec [OF this layout_page] show ?thesis
    using assms by (auto simp: box_new_page_def PAGE_SIZE_def owned_pages_def image_Un image_image)
qed

interpretation pages: page_source box_new_page "owned_pages L" for L
  by unfold_locales (rule box_new_page_fresh)

text \<open>What one call of \<^verbatim>\<open>create_mapping\<close> does on the kernel's heap, for every 48-bit address.\<close>

lemma create_mapping_range:
  assumes "owned_pages L (vheap vm) (dom (tables vm))" "tree (tables vm) 3 root" "map_req_ok rq"
  shows "create_mapping box_new_page vm root rq = Some (Panic ''memory allocation failed'') \<and>
      \<not> page_budget box_new_page (tables_needed rq) (vheap vm) \<or>
    (\<exists>vm'. create_mapping box_new_page vm root rq = Some (Ok vm') \<and>
      (\<forall>b. page_budget box_new_page (tables_needed rq + b) (vheap vm) \<longrightarrow> page_budget box_new_page b (vheap vm')) \<and>
      owned_pages L (vheap vm') (dom (tables vm')) \<and> tree (tables vm') 3 root \<and>
      dom (tables vm) \<subseteq> dom (tables vm') \<and>
      (\<forall>p \<in> dom (tables vm) - reach (tables vm) 3 root. tables vm' p = tables vm p) \<and>
      (\<forall>a < 2 ^ 48. walk (tables vm') 3 root a =
         (if page (virt_start rq) \<le> page a \<and> page a < page (virt_start rq) + page_count rq
          then word_of_nat (phys_base rq + (page a - page (virt_start rq)) * 4096) OR attr_bits (page_attr rq)
          else walk (tables vm) 3 root a)))"
proof -
  have zero: "page x div 512 ^ Suc 3 = 0" if "x < 2 ^ 48" for x
    using that by (simp add: page_def div_less_iff_less_mult)
  have vs: "virt_start rq < 2 ^ 48" using assms(3) by (simp add: map_req_ok_def)
  show ?thesis
    using pages.create_mapping_spec [OF assms(3), of L vm root] assms(1,2) zero [OF vs] zero
    unfolding pages.vm_ok_def pages.out_of_memory_def tree_upd_def pte_def by auto
qed

lemma page_interval:
  assumes "4096 dvd p"
  shows "p \<le> a \<and> a < p + k * 4096 \<longleftrightarrow> page p \<le> page a \<and> page a < page p + k"
proof -
  obtain q where "p = q * 4096" using assms by (auto simp: dvd_def)
  then have "p \<le> a \<longleftrightarrow> q \<le> a div 4096" "a < p + k * 4096 \<longleftrightarrow> a div 4096 < q + k" "page p = q"
    by (simp_all add: page_def less_eq_div_iff_mult_less_eq div_less_iff_less_mult distrib_right)
  then show ?thesis by (simp add: page_def)
qed

text \<open>
  An identity mapping of \<open>n\<close> bytes from a page boundary, as the boot code and the device boxes ask for:
  exactly the pages of the region are mapped, each to itself.
\<close>

definition identity_req :: "usize \<Rightarrow> usize \<Rightarrow> PageAttr \<Rightarrow> map_req" where
  "identity_req p n attr = \<lparr>virt_start = p, virt_end = p + n, phys_base = p, page_attr = attr\<rparr>"

definition region_pages :: "usize \<Rightarrow> nat" where
  "region_pages n = (n + 4095) div 4096"

lemma identity_req_sizes:
  "page_count (identity_req p n attr) = region_pages n"
  "tables_needed (identity_req p n attr) = tables_for 3 (page p) (page p + region_pages n)"
  by (simp_all add: identity_req_def region_pages_def page_count_def tables_needed_def)

lemma region_pages_cover: "n \<le> region_pages n * 4096"
  unfolding region_pages_def by linarith

lemma identity_mapping:
  assumes vm: "owned_pages L (vheap vm) (dom (tables vm))" "tree (tables vm) 3 root"
    and p: "4096 dvd p" "0 < n" "p + region_pages n * 4096 \<le> 2 ^ 48"
  shows "create_mapping box_new_page vm root (identity_req p n attr) = Some (Panic ''memory allocation failed'') \<and>
      \<not> page_budget box_new_page (tables_for 3 (page p) (page p + region_pages n)) (vheap vm) \<or>
    (\<exists>vm'. create_mapping box_new_page vm root (identity_req p n attr) = Some (Ok vm') \<and>
      (\<forall>b. page_budget box_new_page (tables_for 3 (page p) (page p + region_pages n) + b) (vheap vm) \<longrightarrow>
        page_budget box_new_page b (vheap vm')) \<and>
      owned_pages L (vheap vm') (dom (tables vm')) \<and> tree (tables vm') 3 root \<and>
      (\<forall>a < 2 ^ 48. walk (tables vm') 3 root a =
         (if p \<le> a \<and> a < p + region_pages n * 4096 then word_of_nat (page a * 4096) OR attr_bits attr
          else walk (tables vm) 3 root a)))"
proof -
  let ?rq = "identity_req p n attr"
  have rq: "map_req_ok ?rq"
    using p region_pages_cover [of n] by (simp add: map_req_ok_def identity_req_def)
  have "page p * 4096 = p" using p(1) by (simp add: page_def)
  then have "p + (page a - page p) * 4096 = page a * 4096" if "page p \<le> page a" for a
    using that by (simp add: diff_mult_distrib)
  then have w: "(if page (virt_start ?rq) \<le> page a \<and> page a < page (virt_start ?rq) + region_pages n
        then word_of_nat (phys_base ?rq + (page a - page (virt_start ?rq)) * 4096) OR attr_bits (page_attr ?rq)
        else x) =
      (if p \<le> a \<and> a < p + region_pages n * 4096 then word_of_nat (page a * 4096) OR attr_bits attr else x)" for a x
    unfolding page_interval [OF p(1)] by (simp add: identity_req_def)
  show ?thesis
    using create_mapping_range [OF vm rq] unfolding identity_req_sizes w by blast
qed

end
