(* ===== verification/Paging_Theorems.thy ===== *)
theory Paging_Theorems
  imports Paging Heap_Theorems
begin

text \<open>
  The properties of the page tables, over the kernel's own allocator: the facts of the locale
  \<open>page_source\<close> at its interpretation \<open>pages\<close>, with the statements written out. The witnesses
  start from the small boot heap of \<open>Heap_Theorems\<close> with an empty PML4 in it.
\<close>

definition demo_root :: usize where
  "demo_root = 0x11E000"

definition demo_tables :: table_mem where
  "demo_tables = [demo_root \<mapsto> (\<lambda>_. 0)]"

definition demo_req :: map_req where
  "demo_req = \<lparr>virt_start = 0x1000, virt_end = 0x3000, phys_base = 0x7000, page_attr = ReadWriteKernel\<rparr>"

lemma demo_tree: "tree demo_tables k demo_root" "walk demo_tables k demo_root a = 0"
  using empty_table [of demo_tables demo_root] by (auto simp: demo_tables_def)

lemma box_new_page_step:
  assumes "heap_inv s bs" "spec_alloc 4096 4096 bs = (p, bs')" "p \<noteq> 0"
  shows "\<exists>s'. box_new_page s = Some (Ok (p, s')) \<and> heap_inv s' bs'"
  using box_alloc_step [OF assms(1) layout_page assms(2,3)] by (simp add: box_new_page_def PAGE_SIZE_def)

text \<open>
  After boot and the allocation of the root, the demo heap has room for at least three more tables:
  each one is carved from the end of the first block.
\<close>

lemma demo_carve:
  assumes "0 < n"
  shows "spec_alloc 4096 4096 ((0x100000, Suc n * 0x2000 - 32, False) # bs) =
     (0x100000 + n * 0x2000, (0x100000, n * 0x2000 - 32, False) #
        (0x100000 + n * 0x2000 - 32, 0x1020, True) # (0x100000 + n * 0x2000 + 0x1000, 0xFE0, False) # bs)"
proof -
  have "(1052640 + n * 8192) mod 4096 = (4064 + (256 + n * 2) * 4096) mod 4096"
    by (simp add: mult.commute)
  also have "\<dots> = 4064" by (subst mod_mult_self1) simp
  finally show ?thesis using assms
    by (simp add: fits_def alloc_addr_def split_block_def eff_size_def eff_align_def bit_len.simps Let_def)
qed

lemma demo_budget:
  "heap_inv s ((0x100000, Suc n * 0x2000 - 32, False) # bs) \<Longrightarrow> page_budget box_new_page n s"
proof (induction n arbitrary: s bs)
  case (Suc n)
  obtain s' bs' where "box_new_page s = Some (Ok (0x100000 + Suc n * 0x2000, s'))"
      "heap_inv s' ((0x100000, Suc n * 0x2000 - 32, False) # bs')"
    using box_new_page_step [OF Suc.prems demo_carve] by auto
  then show ?case using Suc.IH by simp
qed simp

lemma demo_owned_blocks:
  "\<exists>s. owned_pages {(0x11FF80, 100)} s (dom demo_tables) \<and>
    heap_inv s ((0x100000, Suc 14 * 0x2000 - 32, False) #
      [(0x11DFE0, 0x1020, True), (0x11F000, 0xF60, False), (0x11FF60, 0xA0, True)])"
proof -
  obtain s where s: "kernel_heap s {(0x11E000, 4096), (0x11FF80, 100)}"
      "heap_inv s ((0x100000, Suc 14 * 0x2000 - 32, False) #
         [(0x11DFE0, 0x1020, True), (0x11F000, 0xF60, False), (0x11FF60, 0xA0, True)])"
    using demo_run by auto
  then have "live_inv s ({(0x11FF80, 100)} \<union> (\<lambda>p. (p, 4096)) ` {0x11E000})"
    using kernel_heap_live_inv by (simp add: insert_commute)
  then show ?thesis using s(2)
    by (intro exI [of _ s]) (simp add: owned_pages_def demo_tables_def demo_root_def)
qed

lemma demo_owned: "\<exists>s. owned_pages {(0x11FF80, 100)} s (dom demo_tables) \<and> page_budget box_new_page 3 s"
  using demo_owned_blocks page_budget_mono [OF demo_budget, of _ 14 _ 3] by force

lemma demo_req_ok: "map_req_ok demo_req"
  by (simp add: map_req_ok_def demo_req_def)

lemma demo_tables_needed: "tables_needed demo_req = 3"
  by (simp add: tables_needed_def tables_for_3 page_count_def page_def demo_req_def)

text \<open>
  Property C10 (functional). \<^verbatim>\<open>PML4::create_mapping\<close> returns, and unless the allocator runs dry it
  maps exactly the requested pages: after it, the walk for every 48-bit address in the range ends
  in the entry for the matching physical page with the requested attribute, and every other walk
  is as before. Memory that suffices: one free page for each aligned group of 512, of 512^2 and of 512^3
  pages that the request touches.
\<close>

theorem create_mapping_maps_range:
  assumes "owned_pages L (vheap vm) (dom (tables vm))" "tree (tables vm) 3 root" "map_req_ok rq"
  shows "create_mapping box_new_page vm root rq = Some (Panic ''memory allocation failed'') \<and>
      \<not> page_budget box_new_page (tables_needed rq) (vheap vm) \<or>
    (\<exists>vm'. create_mapping box_new_page vm root rq = Some (Ok vm') \<and>
      (\<forall>a < 2 ^ 48. walk (tables vm') 3 root a =
         (if page (virt_start rq) \<le> page a \<and> page a < page (virt_start rq) + page_count rq
          then word_of_nat (phys_base rq + (page a - page (virt_start rq)) * 4096) OR attr_bits (page_attr rq)
          else walk (tables vm) 3 root a)))"
  using create_mapping_range [OF assms] by blast

theorem create_mapping_maps_range_witness:
  "\<exists>s vm'. owned_pages {(0x11FF80, 100)} s (dom demo_tables) \<and>
    create_mapping box_new_page \<lparr>vheap = s, tables = demo_tables\<rparr> demo_root demo_req = Some (Ok vm') \<and>
    walk (tables vm') 3 demo_root 0x2010 = 0x8003 \<and> walk (tables vm') 3 demo_root 0x3000 = 0"
proof -
  obtain s where s: "owned_pages {(0x11FF80, 100)} s (dom demo_tables)" "page_budget box_new_page 3 s"
    using demo_owned by blast
  let ?vm = "\<lparr>vheap = s, tables = demo_tables\<rparr>"
  obtain vm' where vm': "create_mapping box_new_page ?vm demo_root demo_req = Some (Ok vm')"
      "\<forall>a < 2 ^ 48. walk (tables vm') 3 demo_root a =
         (if page (virt_start demo_req) \<le> page a \<and> page a < page (virt_start demo_req) + page_count demo_req
          then word_of_nat (phys_base demo_req + (page a - page (virt_start demo_req)) * 4096) OR
            attr_bits (page_attr demo_req)
          else walk demo_tables 3 demo_root a)"
    using create_mapping_maps_range [of "{(0x11FF80, 100)}" ?vm demo_root demo_req] s demo_req_ok
      demo_tree(1) demo_tables_needed by auto
  have "walk (tables vm') 3 demo_root 0x2010 = 0x8003" "walk (tables vm') 3 demo_root 0x3000 = 0"
    using vm'(2) by (simp_all add: demo_req_def page_def page_count_def attr_bits_def demo_tree(2))
  then show ?thesis using s(1) vm'(1) by blast
qed

text \<open>
  Property C11 (safety). \<^verbatim>\<open>create_mapping\<close> touches only page tables below the root it is given and
  fresh pages: all other live heap objects stay live and disjoint from the tables, every
  table outside the root's tree is unchanged, and the tables stay a tree, so that no table is ever
  shared between two paths.
\<close>

theorem create_mapping_keeps_tree:
  assumes "owned_pages L (vheap vm) (dom (tables vm))" "tree (tables vm) 3 root" "map_req_ok rq"
    and "create_mapping box_new_page vm root rq = Some (Ok vm')"
  shows "owned_pages L (vheap vm') (dom (tables vm')) \<and> tree (tables vm') 3 root \<and>
    dom (tables vm) \<subseteq> dom (tables vm') \<and>
    (\<forall>p \<in> dom (tables vm) - reach (tables vm) 3 root. tables vm' p = tables vm p)"
  using create_mapping_range [OF assms(1-3)] assms(4) by auto

theorem create_mapping_keeps_tree_witness:
  "\<exists>s vm'. create_mapping box_new_page \<lparr>vheap = s, tables = demo_tables\<rparr> demo_root demo_req = Some (Ok vm') \<and>
    owned_pages {(0x11FF80, 100)} (vheap vm') (dom (tables vm')) \<and> tree (tables vm') 3 demo_root"
proof -
  obtain s where s: "owned_pages {(0x11FF80, 100)} s (dom demo_tables)" "page_budget box_new_page 3 s"
    using demo_owned by blast
  let ?vm = "\<lparr>vheap = s, tables = demo_tables\<rparr>"
  obtain vm' where "create_mapping box_new_page ?vm demo_root demo_req = Some (Ok vm')"
    using create_mapping_range [OF _ _ demo_req_ok, of "{(0x11FF80, 100)}" ?vm demo_root] s demo_tree(1)
    by (auto simp: demo_tables_needed)
  then show ?thesis
    using create_mapping_keeps_tree [OF _ _ demo_req_ok, of "{(0x11FF80, 100)}" ?vm demo_root vm'] s(1) demo_tree(1)
    by auto
qed

text \<open>
  A physical base that is not page aligned makes \<^verbatim>\<open>create_mapping\<close> return the
  alignment error of \<^verbatim>\<open>set_page\<close> (or run out of memory before it gets there); it never maps a page.
\<close>

theorem create_mapping_misaligned:
  assumes "owned_pages L (vheap vm) (dom (tables vm))" "tree (tables vm) 3 root"
    and "\<not> 4096 dvd phys_base rq" "phys_base rq + virt_start rq < 2 ^ 64"
  shows "create_mapping box_new_page vm root rq \<in>
    {Some (Panic ''memory allocation failed''), Some (Err ''Physical address must be aligned to page size'')}"
  using pages.map_level_misaligned [OF assms(3,4), of L vm 3 root 512] assms(1,2)
  unfolding pages.vm_ok_def pages.out_of_memory_def create_mapping_def by auto

theorem create_mapping_misaligned_witness:
  "\<exists>s. owned_pages {(0x11FF80, 100)} s (dom demo_tables) \<and>
    create_mapping box_new_page \<lparr>vheap = s, tables = demo_tables\<rparr> demo_root (demo_req\<lparr>phys_base := 0x7008\<rparr>) \<in>
    {Some (Panic ''memory allocation failed''), Some (Err ''Physical address must be aligned to page size'')}"
proof -
  obtain s where s: "owned_pages {(0x11FF80, 100)} s (dom demo_tables)" using demo_owned by blast
  then show ?thesis
    using create_mapping_misaligned [of _ "\<lparr>vheap = s, tables = demo_tables\<rparr>" demo_root "demo_req\<lparr>phys_base := 0x7008\<rparr>"]
      demo_tree(1) by (auto simp: demo_req_def)
qed

end
