(* ===== verification/Bit_Fields.thy ===== *)
theory Bit_Fields
  imports Prelude
begin

text \<open>
  Bit-field access: \<^verbatim>\<open>extract_bits\<close> of \<^verbatim>\<open>bits.rs\<close> and the \<^verbatim>\<open>Volatile\<close> register wrapper of
  \<^verbatim>\<open>volatile.rs\<close> (\<^verbatim>\<open>read_bits\<close>, \<^verbatim>\<open>write_bits\<close>). A \<^verbatim>\<open>Volatile<T>\<close> is the value it wraps; shifts
  by the width of the type or more panic, as the dev profile makes them. The lemmas reduce
  both to \<open>take_bit\<close> and \<open>drop_bit\<close> and describe a written field bit by bit; the locale
  \<open>bit_field\<close> is the interface the TRB theory uses.
\<close>

section \<open>extract_bits\<close>

definition checked_shr64 :: "u64 \<Rightarrow> nat \<Rightarrow> u64 option" where
  "checked_shr64 v n = (if n < 64 then Some (drop_bit n v) else None)"

definition extract_bits :: "'a::len word \<Rightarrow> usize \<Rightarrow> usize \<Rightarrow> 'a word" where
  "extract_bits value shift width =
     (let mask = push_bit (min 63 width) (1 :: u64) - 1;
          value64 = (ucast value :: u64);
          v = (case checked_shr64 value64 (shift mod 2 ^ 32) of None \<Rightarrow> 0 | Some x \<Rightarrow> x) AND mask
      in if unat v < 2 ^ LENGTH('a) then ucast v else 0)"

lemma push_bit_1_minus_1: "push_bit n (1 :: 'a::len word) - 1 = mask n"
  by (simp add: push_bit_of_1 mask_eq_exp_minus_1)

lemma bit_ucast_shift:
  assumes "LENGTH('a::len) \<le> 64"
  shows "bit (drop_bit s (ucast (v :: 'a word) :: u64)) n \<longleftrightarrow> n < 64 \<and> bit v (s + n)"
  using assms by (auto simp: bit_simps dest: bit_imp_le_length)

lemma extract_bits_eq:
  fixes v :: "'a::len word"
  assumes "LENGTH('a) \<le> 64" "s < 2 ^ 32"
  shows "extract_bits v s w = take_bit (min 63 w) (drop_bit s v)"
proof -
  let ?x = "(case checked_shr64 (ucast v) (s mod 2 ^ 32) of None \<Rightarrow> 0 | Some x \<Rightarrow> x) AND mask (min 63 w) :: u64"
  have bits: "bit ?x n \<longleftrightarrow> n < min 63 w \<and> bit v (s + n)" for n
    using assms
    by (auto simp: checked_shr64_def bit_simps dest: bit_imp_le_length)
  let ?y = "take_bit (min 63 w) (drop_bit s v)"
  from bits have x: "?x = ucast ?y"
    using assms by (intro bit_word_eqI) (auto simp: bit_simps dest: bit_imp_le_length)
  have lt: "unat (ucast ?y :: u64) < 2 ^ LENGTH('a)"
    using le_less_trans [OF take_bit_nat_less_eq_self unsigned_less [of ?y, where ?'a = nat]]
    by (simp add: unsigned_ucast_eq)
  have cast: "ucast (ucast ?y :: u64) = ?y"
    using assms(1) by (intro bit_word_eqI) (auto simp: bit_simps)
  have "extract_bits v s w = (if unat ?x < 2 ^ LENGTH('a) then ucast ?x else 0)"
    by (simp only: extract_bits_def Let_def push_bit_1_minus_1)
  then show ?thesis by (simp only: x lt cast if_True)
qed

section \<open>Volatile registers\<close>

definition shl_w :: "'a::len word \<Rightarrow> nat \<Rightarrow> 'a word res" where
  [arith_defs]: "shl_w v n = (if n < LENGTH('a) then Ok (push_bit n v)
     else Panic ''attempt to shift left with overflow'')"

definition shr_w :: "'a::len word \<Rightarrow> nat \<Rightarrow> 'a word res" where
  [arith_defs]: "shr_w v n = (if n < LENGTH('a) then Ok (drop_bit n v)
     else Panic ''attempt to shift right with overflow'')"

definition write_bits :: "'a::len word \<Rightarrow> usize \<Rightarrow> usize \<Rightarrow> 'a word \<Rightarrow> 'a word res" where
  "write_bits reg shift width value =
     and_then (shl_w 1 width) (\<lambda>b.
     let mask0 = b - 1 in
     if mask0 AND value \<noteq> value then Err ''Value out of range''
     else and_then (shl_w mask0 shift) (\<lambda>mask1.
          and_then (shl_w value shift) (\<lambda>v. Ok (v OR (reg AND NOT mask1)))))"

definition read_bits :: "'a::len word \<Rightarrow> usize \<Rightarrow> usize \<Rightarrow> 'a word res" where
  "read_bits reg shift width =
     and_then (shl_w 1 width) (\<lambda>b.
     let mask0 = b - 1 in
     and_then (shr_w reg shift) (\<lambda>v. Ok (v AND mask0)))"

text \<open>The value \<^verbatim>\<open>write_bits\<close> stores when it succeeds: the field replaced, the rest kept.\<close>

definition put_field :: "nat \<Rightarrow> nat \<Rightarrow> 'a::len word \<Rightarrow> 'a word \<Rightarrow> 'a word" where
  "put_field shift width value reg = push_bit shift value OR (reg AND NOT (push_bit shift (mask width)))"

definition get_field :: "nat \<Rightarrow> nat \<Rightarrow> 'a::len word \<Rightarrow> 'a word" where
  "get_field shift width reg = take_bit width (drop_bit shift reg)"

lemma mask_and_eq_iff: "mask n AND (v :: 'a::len word) = v \<longleftrightarrow> take_bit n v = v"
  by (simp add: take_bit_eq_mask ac_simps)

lemma write_bits_eq:
  fixes reg :: "'a::len word"
  assumes "width < LENGTH('a)" "shift < LENGTH('a)"
  shows "write_bits reg shift width value =
    (if take_bit width value = value then Ok (put_field shift width value reg)
     else Err ''Value out of range'')"
  using assms
  by (simp add: write_bits_def Let_def shl_w_def mask_eq_exp_minus_1 [symmetric] mask_and_eq_iff
      put_field_def)

lemma read_bits_eq:
  fixes reg :: "'a::len word"
  assumes "width < LENGTH('a)" "shift < LENGTH('a)"
  shows "read_bits reg shift width = Ok (get_field shift width reg)"
  using assms
  by (simp add: read_bits_def Let_def shl_w_def shr_w_def mask_eq_exp_minus_1 [symmetric]
      get_field_def take_bit_eq_mask)

lemma bit_put_field:
  fixes reg :: "'a::len word"
  assumes "take_bit width value = value" "shift + width \<le> LENGTH('a)"
  shows "bit (put_field shift width value reg) n \<longleftrightarrow>
    (if shift \<le> n \<and> n < shift + width then bit value (n - shift) else bit reg n)"
proof -
  have "\<not> bit value k" if "width \<le> k" for k
    using assms(1) that by (metis bit_take_bit_iff not_le)
  then show ?thesis
    using assms(2) by (auto simp: put_field_def bit_simps dest: bit_imp_le_length)
qed

lemma bit_get_field: "bit (get_field shift width reg) n \<longleftrightarrow> n < width \<and> bit reg (shift + n)"
  by (simp add: get_field_def bit_simps)

lemma get_put_same:
  fixes reg :: "'a::len word"
  assumes "take_bit width value = value" "shift + width \<le> LENGTH('a)"
  shows "get_field shift width (put_field shift width value reg) = value"
proof (rule bit_word_eqI)
  fix n assume "n < LENGTH('a)"
  have "\<not> bit value k" if "width \<le> k" for k
    using assms(1) that by (metis bit_take_bit_iff not_le)
  then show "bit (get_field shift width (put_field shift width value reg)) n = bit value n"
    using assms by (auto simp: bit_get_field bit_put_field not_less)
qed

lemma get_put_other:
  fixes reg :: "'a::len word"
  assumes "take_bit w value = value" "s + w \<le> LENGTH('a)" "s' + w' \<le> s \<or> s + w \<le> s'"
  shows "get_field s' w' (put_field s w value reg) = get_field s' w' reg"
  using assms by (intro bit_word_eqI) (auto simp: bit_get_field bit_put_field)

lemma put_put_same:
  fixes reg :: "'a::len word"
  assumes "take_bit w a = a" "take_bit w b = b" "s + w \<le> LENGTH('a)"
  shows "put_field s w b (put_field s w a reg) = put_field s w b reg"
  using assms by (intro bit_word_eqI) (auto simp: bit_put_field)

lemma take_bit_1_of_bool [simp]: "take_bit (Suc 0) (of_bool b) = (of_bool b :: 'a::len word)"
  by (cases b) simp_all

lemma take_bit_self_iff: "take_bit k v = v \<longleftrightarrow> unat (v :: 'a::len word) < 2 ^ k"
  by (metis take_bit_nat_eq_self_iff unsigned_take_bit_eq word_unat_eq_iff)

section \<open>The interface of a register field\<close>

text \<open>
  What a client relies on when a register is written and read field by field: reading a
  field after writing it gives the value, and writing keeps what the observer \<open>other\<close> sees.
\<close>

locale bit_field =
  fixes get :: "'r \<Rightarrow> 'v"
    and put :: "'v \<Rightarrow> 'r \<Rightarrow> 'r"
    and fits :: "'v \<Rightarrow> bool"
  assumes get_put: "fits v \<Longrightarrow> get (put v r) = v"
    and put_put: "fits v \<Longrightarrow> fits w \<Longrightarrow> put w (put v r) = put w r"
begin

lemma put_shadow: "fits v \<Longrightarrow> fits w \<Longrightarrow> get (put w (put v r)) = w"
  by (simp add: get_put)

lemma put_inj: "fits v \<Longrightarrow> fits w \<Longrightarrow> put v r = put w r \<Longrightarrow> v = w"
  by (metis get_put)

end

interpretation volatile_u32: bit_field "get_field s w :: u32 \<Rightarrow> u32" "put_field s w"
    "\<lambda>v. take_bit w v = v \<and> s + w \<le> 32"
  for s w
  by unfold_locales (simp_all add: get_put_same put_put_same)

end
