(* ===== verification/Mmio.thy ===== *)
theory Mmio
  imports Bit_Fields
begin

text \<open>
  Memory-mapped devices. A device is a state of any type behind a \<open>bus\<close>: reads and writes of
  32-bit and 64-bit registers at an address, each of which may change the device. The bus is a
  parameter of every definition that touches hardware; the busy-wait loops of the drivers are
  \<open>wait_while\<close>, which has no value when the device never satisfies the loop.
\<close>

record 'd bus =
  rd32 :: "u64 \<Rightarrow> 'd \<Rightarrow> u32 \<times> 'd"
  wr32 :: "u64 \<Rightarrow> u32 \<Rightarrow> 'd \<Rightarrow> 'd"
  rd64 :: "u64 \<Rightarrow> 'd \<Rightarrow> u64 \<times> 'd"
  wr64 :: "u64 \<Rightarrow> u64 \<Rightarrow> 'd \<Rightarrow> 'd"

text \<open>\<^verbatim>\<open>while cond { busy_loop_hint() }\<close>, where evaluating the condition reads the device.\<close>

partial_function (option) wait_while :: "('d \<Rightarrow> bool \<times> 'd) \<Rightarrow> 'd \<Rightarrow> 'd option" where
  "wait_while c d = (if fst (c d) then wait_while c (snd (c d)) else Some (snd (c d)))"

definition polls :: "('d \<Rightarrow> bool \<times> 'd) \<Rightarrow> nat \<Rightarrow> 'd \<Rightarrow> 'd" where
  "polls c n d = ((\<lambda>x. snd (c x)) ^^ n) d"

lemma polls_simps [simp]: "polls c 0 d = d" "polls c (Suc n) d = polls c n (snd (c d))"
  by (simp_all add: polls_def funpow_Suc_right del: funpow.simps(2))

text \<open>The loop ends exactly when some poll finds the condition false, in the state after that poll.\<close>

lemma wait_while_Some:
  assumes "\<not> fst (c (polls c n d))" "\<forall>m < n. fst (c (polls c m d))"
  shows "wait_while c d = Some (snd (c (polls c n d)))"
  using assms
proof (induction n arbitrary: d)
  case 0
  then show ?case by (simp add: wait_while.simps)
next
  case (Suc n)
  have "fst (c d)" using Suc.prems(2) by force
  moreover have "\<forall>m < n. fst (c (polls c m (snd (c d))))"
    using Suc.prems(2) by (metis Suc_less_eq polls_simps(2))
  ultimately show ?case using Suc by (simp add: wait_while.simps [of c d])
qed

lemma wait_while_ends:
  assumes "\<not> fst (c (polls c n d))"
  shows "\<exists>m \<le> n. wait_while c d = Some (snd (c (polls c m d))) \<and> \<not> fst (c (polls c m d))"
proof -
  let ?m = "LEAST m. \<not> fst (c (polls c m d))"
  have "\<not> fst (c (polls c ?m d))" using assms by (rule LeastI)
  moreover have "?m \<le> n" using assms by (rule Least_le)
  moreover have "\<forall>k < ?m. fst (c (polls c k d))" using not_less_Least by blast
  ultimately show ?thesis using wait_while_Some [of c ?m d] by (intro exI [of _ ?m]) simp
qed

end
