(* ===== verification/Trb.thy ===== *)
theory Trb
  imports Bit_Fields
begin

text \<open>
  Transfer request blocks, the 16-byte messages of the xHCI driver (\<^verbatim>\<open>xhci.rs\<close>): the generic
  entry with its bit fields, the commands the driver sends, the stages of a control transfer and
  the results of events. Setters go through \<open>write_bits\<close> and \<^verbatim>\<open>unwrap\<close>, so that a value that
  does not fit its field is a panic of the model too; the lemmas show that none of the driver's
  values is one.
\<close>

section \<open>Generic entries\<close>

datatype TrbType = TrbNormal | SetupStage | DataStage | StatusStage | Link | EnableSlotCommand
  | AddressDeviceCommand | ConfigureEndpointCommand | EvaluateContextCommand | NoOpCommand
  | TransferEvent | CommandCompletionEvent | PortStatusChangeEvent | HostControllerEvent

fun trb_type_code :: "TrbType \<Rightarrow> u32" where
  "trb_type_code TrbNormal = 1"
| "trb_type_code SetupStage = 2"
| "trb_type_code DataStage = 3"
| "trb_type_code StatusStage = 4"
| "trb_type_code Link = 6"
| "trb_type_code EnableSlotCommand = 9"
| "trb_type_code AddressDeviceCommand = 11"
| "trb_type_code ConfigureEndpointCommand = 12"
| "trb_type_code EvaluateContextCommand = 13"
| "trb_type_code NoOpCommand = 23"
| "trb_type_code TransferEvent = 32"
| "trb_type_code CommandCompletionEvent = 33"
| "trb_type_code PortStatusChangeEvent = 34"
| "trb_type_code HostControllerEvent = 37"

record GenericTrbEntry =
  trb_data :: u64
  trb_option :: u32
  trb_control :: u32

definition GenericTrbEntry_default :: GenericTrbEntry where
  "GenericTrbEntry_default = \<lparr>trb_data = 0, trb_option = 0, trb_control = 0\<rparr>"

definition CTRL_BIT_INTERRUPT_ON_SHORT_PACKET :: u32 where
  "CTRL_BIT_INTERRUPT_ON_SHORT_PACKET = push_bit 2 1"

definition CTRL_BIT_INTERRUPT_ON_COMPLETION :: u32 where
  "CTRL_BIT_INTERRUPT_ON_COMPLETION = push_bit 5 1"

definition CTRL_BIT_IMMEDIATE_DATA :: u32 where
  "CTRL_BIT_IMMEDIATE_DATA = push_bit 6 1"

definition CTRL_BIT_DATA_DIR_IN :: u32 where
  "CTRL_BIT_DATA_DIR_IN = push_bit 16 1"

text \<open>\<^verbatim>\<open>self.control.write_bits(shift, width, value).unwrap()\<close>, and the read of a field.\<close>

definition set_control :: "usize \<Rightarrow> usize \<Rightarrow> u32 \<Rightarrow> GenericTrbEntry \<Rightarrow> GenericTrbEntry res" where
  "set_control shift width value trb =
     and_then (expect (write_bits (trb_control trb) shift width value) ''called `Result::unwrap()` on an `Err` value'')
       (\<lambda>c. Ok (trb\<lparr>trb_control := c\<rparr>))"

definition set_trb_type :: "TrbType \<Rightarrow> GenericTrbEntry \<Rightarrow> GenericTrbEntry res" where
  "set_trb_type ty trb = set_control 10 6 (trb_type_code ty) trb"

definition set_cycle_state :: "bool \<Rightarrow> GenericTrbEntry \<Rightarrow> GenericTrbEntry res" where
  "set_cycle_state cycle trb = set_control 0 1 (of_bool cycle) trb"

definition set_toggle_cycle :: "bool \<Rightarrow> GenericTrbEntry \<Rightarrow> GenericTrbEntry res" where
  "set_toggle_cycle v trb = set_control 1 1 (of_bool v) trb"

definition set_slot_id :: "u8 \<Rightarrow> GenericTrbEntry \<Rightarrow> GenericTrbEntry res" where
  "set_slot_id slot trb = set_control 24 8 (ucast slot) trb"

definition slot_id :: "GenericTrbEntry \<Rightarrow> u8 res" where
  "slot_id trb = and_then (read_bits (trb_control trb) 24 8) (\<lambda>v.
     if unat v < 2 ^ 8 then Ok (ucast v) else Panic ''called `Result::unwrap()` on an `Err` value'')"

definition trb_type :: "GenericTrbEntry \<Rightarrow> u32 res" where
  "trb_type trb = read_bits (trb_control trb) 10 6"

definition cycle_state :: "GenericTrbEntry \<Rightarrow> bool res" where
  "cycle_state trb = and_then (read_bits (trb_control trb) 0 1) (\<lambda>v. Ok (v \<noteq> 0))"

definition completion_code :: "GenericTrbEntry \<Rightarrow> u32 res" where
  "completion_code trb = read_bits (trb_option trb) 24 8"

section \<open>Commands and results\<close>

definition trb_link :: "u64 \<Rightarrow> GenericTrbEntry res" where
  "trb_link ring_phys_addr =
     and_then (set_trb_type Link GenericTrbEntry_default) (\<lambda>trb.
     set_toggle_cycle True (trb\<lparr>trb_data := ring_phys_addr\<rparr>))"

definition cmd_enable_slot :: "GenericTrbEntry res" where
  "cmd_enable_slot = set_trb_type EnableSlotCommand GenericTrbEntry_default"

definition cmd_address_device :: "u64 \<Rightarrow> u8 \<Rightarrow> GenericTrbEntry res" where
  "cmd_address_device input_context slot =
     and_then (set_trb_type AddressDeviceCommand GenericTrbEntry_default) (\<lambda>trb.
     set_slot_id slot (trb\<lparr>trb_data := input_context\<rparr>))"

definition cmd_result_ok :: "GenericTrbEntry \<Rightarrow> unit res" where
  "cmd_result_ok trb =
     and_then (trb_type trb) (\<lambda>ty.
     if ty \<noteq> trb_type_code CommandCompletionEvent then Err ''Not as CommandCompletionEvent''
     else and_then (completion_code trb) (\<lambda>cc.
       if cc \<noteq> 1 then Err ''CompletionCode was not Success'' else Ok ()))"

definition transfer_result_ok :: "GenericTrbEntry \<Rightarrow> unit res" where
  "transfer_result_ok trb =
     and_then (trb_type trb) (\<lambda>ty.
     if ty \<noteq> trb_type_code TransferEvent then Err ''Not a TransferEvent''
     else and_then (completion_code trb) (\<lambda>cc.
       if cc \<noteq> 1 \<and> cc \<noteq> 13 then Err ''CompletionCode was not Success'' else Ok ()))"

section \<open>Stages of a control transfer\<close>

record SetupStageTrb =
  request_type :: u8
  request :: u8
  setup_value :: u16
  setup_index :: u16
  setup_length :: u16
  setup_option :: u32
  setup_control :: u32

definition REQ_TYPE_DIR_DEVICE_TO_HOST :: u8 where "REQ_TYPE_DIR_DEVICE_TO_HOST = push_bit 7 1"
definition REQ_TYPE_TYPE_CLASS :: u8 where "REQ_TYPE_TYPE_CLASS = push_bit 5 1"
definition REQ_TYPE_TO_INTERFACE :: u8 where "REQ_TYPE_TO_INTERFACE = 1"
definition REQ_GET_REPORT :: u8 where "REQ_GET_REPORT = 1"
definition REQ_GET_DESCRIPTOR :: u8 where "REQ_GET_DESCRIPTOR = 6"
definition REQ_SET_CONFIGURATION :: u8 where "REQ_SET_CONFIGURATION = 9"
definition REQ_SET_INTERFACE :: u8 where "REQ_SET_INTERFACE = 11"
definition REQ_SET_PROTOCOL :: u8 where "REQ_SET_PROTOCOL = 0x0b"

definition SetupStageTrb_new :: "u8 \<Rightarrow> u8 \<Rightarrow> u16 \<Rightarrow> u16 \<Rightarrow> u16 \<Rightarrow> SetupStageTrb" where
  "SetupStageTrb_new rtype req value index len =
     (let transfer_type = (if len = 0 then 0
            else if req AND REQ_TYPE_DIR_DEVICE_TO_HOST \<noteq> 0 then 3 else 2) in
      \<lparr>request_type = rtype, request = req, setup_value = value, setup_index = index,
       setup_length = len, setup_option = 8,
       setup_control = push_bit 16 transfer_type OR push_bit 10 (trb_type_code SetupStage) OR
         CTRL_BIT_IMMEDIATE_DATA\<rparr>)"

text \<open>
  \<^verbatim>\<open>From<SetupStageTrb>\<close> is a \<^verbatim>\<open>transmute\<close>: the eight setup bytes, in little-endian order, become
  the data word.
\<close>

definition setup_bytes :: "SetupStageTrb \<Rightarrow> u8 list" where
  "setup_bytes s = [request_type s, request s] @ le_bytes 2 (unat (setup_value s)) @
     le_bytes 2 (unat (setup_index s)) @ le_bytes 2 (unat (setup_length s))"

definition trb_from_setup :: "SetupStageTrb \<Rightarrow> GenericTrbEntry" where
  "trb_from_setup s = \<lparr>trb_data = word_of_nat (le_nat (setup_bytes s)),
     trb_option = setup_option s, trb_control = setup_control s\<rparr>"

text \<open>\<^verbatim>\<open>DataStageTrb::new_in\<close> for a buffer at \<open>buf\<close> of \<open>len\<close> bytes, and \<^verbatim>\<open>StatusStageTrb\<close>.\<close>

definition DataStageTrb_new_in :: "u64 \<Rightarrow> usize \<Rightarrow> GenericTrbEntry" where
  "DataStageTrb_new_in buf len = \<lparr>trb_data = buf, trb_option = word_of_nat len,
     trb_control = push_bit 10 (trb_type_code DataStage) OR CTRL_BIT_DATA_DIR_IN OR
       CTRL_BIT_INTERRUPT_ON_COMPLETION OR CTRL_BIT_INTERRUPT_ON_SHORT_PACKET\<rparr>"

definition StatusStageTrb_new_out :: GenericTrbEntry where
  "StatusStageTrb_new_out = \<lparr>trb_data = 0, trb_option = 0,
     trb_control = push_bit 10 (trb_type_code StatusStage)\<rparr>"

definition StatusStageTrb_new_in :: GenericTrbEntry where
  "StatusStageTrb_new_in = \<lparr>trb_data = 0, trb_option = 0,
     trb_control = push_bit 10 (trb_type_code StatusStage) OR CTRL_BIT_DATA_DIR_IN OR
       CTRL_BIT_INTERRUPT_ON_COMPLETION OR CTRL_BIT_INTERRUPT_ON_SHORT_PACKET\<rparr>"

section \<open>Fields\<close>

named_theorems trb_simps \<open>fields of a TRB after its setters\<close>

definition cyc :: "GenericTrbEntry \<Rightarrow> bool" where
  "cyc trb = bit (trb_control trb) 0"

definition ty_of :: "GenericTrbEntry \<Rightarrow> u32" where
  "ty_of trb = get_field 10 6 (trb_control trb)"

definition with_cyc :: "bool \<Rightarrow> GenericTrbEntry \<Rightarrow> GenericTrbEntry" where
  "with_cyc c trb = trb\<lparr>trb_control := put_field 0 1 (of_bool c) (trb_control trb)\<rparr>"

lemma trb_type_code_fits: "take_bit 6 (trb_type_code ty) = trb_type_code ty"
  by (cases ty) simp_all

lemma trb_type_code_inj: "trb_type_code a = trb_type_code b \<longleftrightarrow> a = b"
  by (cases a; cases b) simp_all

lemma set_control_eq:
  assumes "take_bit w v = v" "w < 32" "s < 32"
  shows "set_control s w v trb = Ok (trb\<lparr>trb_control := put_field s w v (trb_control trb)\<rparr>)"
  using assms by (simp add: set_control_def write_bits_eq)

lemma set_cycle_state_eq [trb_simps]: "set_cycle_state c trb = Ok (with_cyc c trb)"
  by (simp add: set_cycle_state_def set_control_eq with_cyc_def)

lemma set_trb_type_eq:
  "set_trb_type ty trb = Ok (trb\<lparr>trb_control := put_field 10 6 (trb_type_code ty) (trb_control trb)\<rparr>)"
  by (simp add: set_trb_type_def set_control_eq trb_type_code_fits)

lemma cycle_state_eq [trb_simps]: "cycle_state trb = Ok (cyc trb)"
proof -
  have "get_field 0 1 (trb_control trb) = of_bool (cyc trb)"
    by (rule bit_word_eqI) (auto simp: cyc_def bit_get_field bit_of_bool_iff)
  then show ?thesis by (simp add: cycle_state_def read_bits_eq)
qed

lemma trb_type_eq [trb_simps]: "trb_type trb = Ok (ty_of trb)"
  by (simp add: trb_type_def read_bits_eq ty_of_def)

lemma slot_id_eq: "slot_id trb = Ok (ucast (get_field 24 8 (trb_control trb)))"
proof -
  have "unat (get_field 24 8 (trb_control trb)) < 2 ^ 8"
    unfolding get_field_def unsigned_take_bit_eq by (rule take_bit_nat_less_exp)
  then show ?thesis by (simp add: slot_id_def read_bits_eq)
qed

lemma completion_code_eq: "completion_code trb = Ok (get_field 24 8 (trb_option trb))"
  by (simp add: completion_code_def read_bits_eq)

lemma with_cyc_simps [trb_simps]:
  "cyc (with_cyc c trb) = c"
  "ty_of (with_cyc c trb) = ty_of trb"
  "trb_data (with_cyc c trb) = trb_data trb"
  "trb_option (with_cyc c trb) = trb_option trb"
  "with_cyc c (with_cyc d trb) = with_cyc c trb"
  by (simp_all add: cyc_def with_cyc_def ty_of_def get_put_other put_put_same bit_put_field)

lemma with_cyc_id: "cyc trb = c \<Longrightarrow> with_cyc c trb = trb"
proof -
  assume "cyc trb = c"
  then have "put_field 0 1 (of_bool c) (trb_control trb) = trb_control trb"
    by (intro bit_word_eqI) (auto simp: bit_put_field cyc_def)
  then show ?thesis by (simp add: with_cyc_def)
qed

end
