(* ===== verification/Trb_Ring.thy ===== *)
theory Trb_Ring
  imports Trb
begin

text \<open>
  The rings of TRBs that the driver and the xHC share (\<^verbatim>\<open>TrbRing\<close> and \<^verbatim>\<open>CommandRing\<close> of
  \<^verbatim>\<open>xhci.rs\<close>). A ring is the list of its 16 entries, the index of the next one and its address.
  The other side of a ring is the hardware; \<open>hw_fetch\<close> states what the xHCI specification says the
  controller does with a ring it consumes, and the main lemma is that it gets the pushed TRBs in
  order.
\<close>

section \<open>TrbRing\<close>

definition NUM_TRB :: usize where
  "NUM_TRB = 16"

record TrbRing =
  ring_trb :: "GenericTrbEntry list"
  ring_index :: usize
  ring_addr :: u64

definition TrbRing_new :: "u64 \<Rightarrow> TrbRing" where
  "TrbRing_new addr = \<lparr>ring_trb = replicate NUM_TRB GenericTrbEntry_default, ring_index = 0, ring_addr = addr\<rparr>"

definition num_trbs :: "TrbRing \<Rightarrow> usize" where
  "num_trbs r = NUM_TRB"

definition ring_write :: "TrbRing \<Rightarrow> usize \<Rightarrow> GenericTrbEntry \<Rightarrow> TrbRing res" where
  "ring_write r index trb =
     (if index < length (ring_trb r) then Ok (r\<lparr>ring_trb := (ring_trb r)[index := trb]\<rparr>)
      else Err ''TrbRing Out of Range'')"

definition ring_trb_at :: "TrbRing \<Rightarrow> usize \<Rightarrow> GenericTrbEntry res" where
  "ring_trb_at r index =
     (if index < length (ring_trb r) then Ok (ring_trb r ! index) else Panic ''index out of bounds'')"

definition ring_current :: "TrbRing \<Rightarrow> GenericTrbEntry res" where
  "ring_current r = ring_trb_at r (ring_index r)"

definition current_ptr :: "TrbRing \<Rightarrow> u64 res" where
  "current_ptr r =
     (if ring_index r < length (ring_trb r) then Ok (ring_addr r + 16 * word_of_nat (ring_index r))
      else Panic ''index out of bounds'')"

definition advance_index_notoggle :: "TrbRing \<Rightarrow> bool \<Rightarrow> TrbRing res" where
  "advance_index_notoggle r cycle_ours =
     and_then (ring_current r) (\<lambda>e.
     and_then (cycle_state e) (\<lambda>c.
     if c \<noteq> cycle_ours then Err ''cycle state mismatch''
     else Ok (r\<lparr>ring_index := (ring_index r + 1) mod length (ring_trb r)\<rparr>)))"

definition advance_index :: "TrbRing \<Rightarrow> bool \<Rightarrow> TrbRing res" where
  "advance_index r new_cycle =
     and_then (ring_current r) (\<lambda>e.
     and_then (cycle_state e) (\<lambda>c.
     if c = new_cycle then Err ''cycle state does not change''
     else and_then (set_cycle_state new_cycle e) (\<lambda>e'.
       Ok (r\<lparr>ring_trb := (ring_trb r)[ring_index r := e'],
             ring_index := (ring_index r + 1) mod length (ring_trb r)\<rparr>))))"

definition write_current :: "TrbRing \<Rightarrow> GenericTrbEntry \<Rightarrow> TrbRing res" where
  "write_current r trb =
     expect (ring_write r (ring_index r) trb) ''writing to the current idnex shell not fail''"

section \<open>CommandRing\<close>

record CommandRing =
  cmd_ring :: TrbRing
  cmd_cycle_ours :: bool

definition ring_phys_addr :: "CommandRing \<Rightarrow> u64" where
  "ring_phys_addr cr = ring_addr (cmd_ring cr)"

definition CommandRing_default :: "u64 \<Rightarrow> CommandRing res" where
  "CommandRing_default addr =
     (let r = TrbRing_new addr in
      and_then (trb_link (ring_addr r)) (\<lambda>link.
      and_then (expect (ring_write r (NUM_TRB - 1) link) ''faield to write a link trb'') (\<lambda>r'.
      Ok \<lparr>cmd_ring = r', cmd_cycle_ours = False\<rparr>)))"

definition push :: "CommandRing \<Rightarrow> GenericTrbEntry \<Rightarrow> (u64 \<times> CommandRing) res" where
  "push cr src =
     (let ring = cmd_ring cr; ours = cmd_cycle_ours cr in
      and_then (ring_current ring) (\<lambda>cur.
      and_then (cycle_state cur) (\<lambda>c.
      if c \<noteq> ours then Err ''Command Ring is Full''
      else and_then (set_cycle_state ours src) (\<lambda>src'.
        and_then (current_ptr ring) (\<lambda>dst_ptr.
        and_then (write_current ring src') (\<lambda>ring1.
        and_then (advance_index ring1 (\<not> ours)) (\<lambda>ring2.
        and_then (ring_current ring2) (\<lambda>cur2.
        and_then (trb_type cur2) (\<lambda>ty.
        if ty = trb_type_code Link
        then and_then (advance_index ring2 (\<not> ours)) (\<lambda>ring3.
             Ok (dst_ptr, \<lparr>cmd_ring = ring3, cmd_cycle_ours = (\<not> ours)\<rparr>))
        else Ok (dst_ptr, \<lparr>cmd_ring = ring2, cmd_cycle_ours = ours\<rparr>))))))))))"

fun push_all :: "CommandRing \<Rightarrow> GenericTrbEntry list \<Rightarrow> (u64 list \<times> CommandRing) res" where
  "push_all cr [] = Ok ([], cr)"
| "push_all cr (t # ts) =
     and_then (push cr t) (\<lambda>(p, cr'). and_then (push_all cr' ts) (\<lambda>(ps, cr''). Ok (p # ps, cr'')))"

section \<open>The invariant of a command ring\<close>

text \<open>
  \<open>ring_inv cr h\<close>: \<open>cr\<close> is a ring after the TRBs of \<open>h\<close> were pushed. Slots below the index belong
  to the current lap, the others to the previous one (or are still zero), and their cycle bits
  tell them apart.
\<close>

definition slot_trb :: "GenericTrbEntry list \<Rightarrow> nat \<Rightarrow> GenericTrbEntry" where
  "slot_trb h j =
     (let n = length h; k = n div 15; i = n mod 15 in
      if j < i then with_cyc (even k) (h ! (15 * k + j))
      else if k = 0 then GenericTrbEntry_default
      else with_cyc (odd k) (h ! (15 * (k - 1) + j)))"

definition link_trb :: "u64 \<Rightarrow> bool \<Rightarrow> GenericTrbEntry" where
  "link_trb addr c = \<lparr>trb_data = addr, trb_option = 0,
     trb_control = put_field 0 1 (of_bool c) 0x1802\<rparr>"

definition ring_inv :: "CommandRing \<Rightarrow> GenericTrbEntry list \<Rightarrow> bool" where
  "ring_inv cr h \<longleftrightarrow>
     length (ring_trb (cmd_ring cr)) = 16 \<and> ring_index (cmd_ring cr) = length h mod 15 \<and>
     cmd_cycle_ours cr = odd (length h div 15) \<and>
     (\<forall>j < 15. ring_trb (cmd_ring cr) ! j = slot_trb h j) \<and>
     ring_trb (cmd_ring cr) ! 15 = link_trb (ring_addr (cmd_ring cr)) (odd (length h div 15)) \<and>
     (\<forall>t \<in> set h. ty_of t \<noteq> trb_type_code Link)"

lemma default_cyc [simp]: "cyc GenericTrbEntry_default = False" "ty_of GenericTrbEntry_default = 0"
  by (simp_all add: cyc_def ty_of_def GenericTrbEntry_default_def get_field_def)

lemma link_trb_cyc [simp]: "cyc (link_trb a c) = c" "ty_of (link_trb a c) = trb_type_code Link"
    "with_cyc d (link_trb a c) = link_trb a d"
  by (simp_all add: cyc_def ty_of_def link_trb_def with_cyc_def bit_put_field get_put_other put_put_same)
    (simp add: get_field_def)

lemma link_trb_eq: "trb_link a = Ok (link_trb a False)"
  by (simp add: trb_link_def set_trb_type_eq set_toggle_cycle_def set_control_eq link_trb_def
      GenericTrbEntry_default_def put_field_def)

lemma slot_trb_cyc: "j < 15 \<Longrightarrow> cyc (slot_trb h j) = (if j < length h mod 15 then even (length h div 15) else odd (length h div 15))"
  by (simp add: slot_trb_def Let_def trb_simps)

lemma slot_trb_type:
  assumes "j < 15" "\<forall>t \<in> set h. ty_of t \<noteq> trb_type_code Link"
  shows "ty_of (slot_trb h j) \<noteq> trb_type_code Link"
proof -
  have "15 * (length h div 15) + j < length h" if "j < length h mod 15"
    using that by (metis add_less_cancel_left mult_div_mod_eq)
  moreover have "15 * (length h div 15 - 1) + j < length h" if "length h div 15 \<noteq> 0"
  proof -
    have "15 * (length h div 15 - 1) + 15 \<le> length h" using that by (simp add: algebra_simps)
    then show ?thesis using assms(1) by simp
  qed
  ultimately show ?thesis
    using assms(2) by (auto simp: slot_trb_def Let_def trb_simps dest: nth_mem)
qed

lemma CommandRing_default_inv:
  "\<exists>cr. CommandRing_default addr = Ok cr \<and> ring_inv cr [] \<and> ring_phys_addr cr = addr"
  by (simp add: CommandRing_default_def TrbRing_new_def link_trb_eq ring_write_def NUM_TRB_def
      ring_inv_def ring_phys_addr_def slot_trb_def Let_def)

lemma slot_trb_push:
  assumes "j < 15"
  shows "slot_trb (h @ [t]) j =
    (if j = length h mod 15 then with_cyc (even (length h div 15)) t else slot_trb h j)"
proof -
  define k i where "k = length h div 15" and "i = length h mod 15"
  have n: "length h = 15 * k + i" "i < 15" by (simp_all add: k_def i_def)
  have old: "(h @ [t]) ! (15 * k + j) = h ! (15 * k + j)" if "j < i"
    using that n by (simp add: nth_append)
  have prev: "(h @ [t]) ! (15 * (k - 1) + j) = h ! (15 * (k - 1) + j)" if "k \<noteq> 0"
    using that n assms by (cases k) (simp_all add: nth_append)
  have new: "(h @ [t]) ! (15 * k + i) = t" using n by (simp add: nth_append)
  show ?thesis
  proof (cases "i = 14")
    case True
    then have "Suc (length h) = 15 * Suc k" using n by simp
    then have "Suc (length h) div 15 = Suc k" "Suc (length h) mod 15 = 0" by simp_all
    then show ?thesis using assms old new True
      by (auto simp: slot_trb_def Let_def k_def [symmetric] i_def [symmetric] nth_append n(1))
  next
    case False
    then have "Suc (length h) = 15 * k + Suc i" "Suc i < 15" using n by simp_all
    then have "Suc (length h) div 15 = k" "Suc (length h) mod 15 = Suc i" by simp_all
    then show ?thesis using assms old prev new
      by (auto simp: slot_trb_def Let_def k_def [symmetric] i_def [symmetric] less_Suc_eq)
  qed
qed

lemma ring_ops_at:
  assumes "length (ring_trb r) = 16" "ring_index r < 16"
  shows "ring_current r = Ok (ring_trb r ! ring_index r)"
    and "current_ptr r = Ok (ring_addr r + 16 * word_of_nat (ring_index r))"
    and "write_current r t = Ok (r\<lparr>ring_trb := (ring_trb r)[ring_index r := t]\<rparr>)"
    and "cyc (ring_trb r ! ring_index r) \<noteq> c \<Longrightarrow> advance_index r c =
      Ok (r\<lparr>ring_trb := (ring_trb r)[ring_index r := with_cyc c (ring_trb r ! ring_index r)],
            ring_index := (ring_index r + 1) mod 16\<rparr>)"
  using assms
  by (simp_all add: ring_current_def ring_trb_at_def current_ptr_def write_current_def ring_write_def
      advance_index_def trb_simps)

lemma push_eq:
  assumes inv: "ring_inv cr h" and ty: "ty_of t \<noteq> trb_type_code Link"
  defines "r \<equiv> cmd_ring cr" and "i \<equiv> length h mod 15" and "ours \<equiv> odd (length h div 15)"
  shows "push cr t = Ok (ring_addr r + 16 * word_of_nat i,
    if i = 14
    then \<lparr>cmd_ring = r\<lparr>ring_trb := (ring_trb r)[14 := with_cyc (\<not> ours) t, 15 := link_trb (ring_addr r) (\<not> ours)],
            ring_index := 0\<rparr>, cmd_cycle_ours = (\<not> ours)\<rparr>
    else \<lparr>cmd_ring = r\<lparr>ring_trb := (ring_trb r)[i := with_cyc (\<not> ours) t], ring_index := Suc i\<rparr>,
          cmd_cycle_ours = ours\<rparr>)"
proof -
  have r: "length (ring_trb r) = 16" "ring_index r = i" "cmd_cycle_ours cr = ours"
      "\<And>j. j < 15 \<Longrightarrow> ring_trb r ! j = slot_trb h j" "ring_trb r ! 15 = link_trb (ring_addr r) ours"
      "\<forall>t \<in> set h. ty_of t \<noteq> trb_type_code Link"
    using inv by (simp_all add: ring_inv_def r_def i_def ours_def)
  have i: "i < 15" by (simp add: i_def)
  have cur: "cyc (ring_trb r ! i) = ours"
    using r(4) [OF i] slot_trb_cyc [OF i] by (simp add: i_def ours_def)
  have nxt: "ty_of (ring_trb r ! Suc i) = trb_type_code Link \<longleftrightarrow> i = 14"
    using r(4) [of "Suc i"] r(5) slot_trb_type [OF _ r(6), of "Suc i"] i by (cases "i = 14") auto
  show ?thesis
    unfolding push_def r_def [symmetric] Let_def
    using r(1-3,5) i cur nxt
    by (simp add: ring_ops_at trb_simps)
qed

lemma push_inv:
  assumes inv: "ring_inv cr h" and ty: "ty_of t \<noteq> trb_type_code Link"
  shows "\<exists>cr'. push cr t = Ok (ring_phys_addr cr + 16 * word_of_nat (length h mod 15), cr') \<and>
    ring_inv cr' (h @ [t]) \<and> ring_phys_addr cr' = ring_phys_addr cr"
proof -
  define k i where "k = length h div 15" and "i = length h mod 15"
  have n: "length h = 15 * k + i" "i < 15" by (simp_all add: k_def i_def)
  have r: "length (ring_trb (cmd_ring cr)) = 16" "\<And>j. j < 15 \<Longrightarrow> ring_trb (cmd_ring cr) ! j = slot_trb h j"
      "ring_trb (cmd_ring cr) ! 15 = link_trb (ring_addr (cmd_ring cr)) (odd k)"
      "\<forall>t \<in> set h. ty_of t \<noteq> trb_type_code Link"
    using inv by (simp_all add: ring_inv_def k_def)
  note slots = slot_trb_push [of _ h t, folded k_def i_def]
  show ?thesis
  proof (cases "i = 14")
    case True
    then have "Suc (length h) = 15 * Suc k" using n by simp
    then have m: "Suc (length h) div 15 = Suc k" "Suc (length h) mod 15 = 0" by simp_all
    show ?thesis
      using push_eq [OF inv ty] True r m slots ty
      by (auto simp: ring_inv_def ring_phys_addr_def nth_list_update k_def [symmetric] i_def [symmetric])
  next
    case False
    then have "Suc (length h) = 15 * k + Suc i" "Suc i < 15" using n by simp_all
    then have m: "Suc (length h) div 15 = k" "Suc (length h) mod 15 = Suc i" by simp_all
    show ?thesis
      using push_eq [OF inv ty] False r m slots ty n(2)
      by (auto simp: ring_inv_def ring_phys_addr_def nth_list_update k_def [symmetric] i_def [symmetric])
  qed
qed

section \<open>The interface of a ring\<close>

text \<open>
  What the request code relies on: a push of an admissible TRB always succeeds, says where the
  TRB is, and extends the history of the ring.
\<close>

locale trb_queue =
  fixes enq :: "'q \<Rightarrow> 'a \<Rightarrow> ('p \<times> 'q) res"
    and holds :: "'q \<Rightarrow> 'a list \<Rightarrow> bool"
    and admissible :: "'a \<Rightarrow> bool"
    and place :: "'q \<Rightarrow> nat \<Rightarrow> 'p"
  assumes enq_ok: "holds q h \<Longrightarrow> admissible t \<Longrightarrow>
      \<exists>q'. enq q t = Ok (place q (length h), q') \<and> holds q' (h @ [t]) \<and> place q' = place q"
begin

lemma enq_twice:
  assumes "holds q h" "admissible t" "admissible u"
  shows "\<exists>q1 q2. enq q t = Ok (place q (length h), q1) \<and> enq q1 u = Ok (place q (Suc (length h)), q2) \<and>
    holds q2 (h @ [t, u]) \<and> place q2 = place q"
proof -
  obtain q1 where q1: "enq q t = Ok (place q (length h), q1)" "holds q1 (h @ [t])" "place q1 = place q"
    using enq_ok [OF assms(1,2)] by blast
  show ?thesis using q1 enq_ok [OF q1(2) assms(3)] by auto
qed

lemma enq_thrice:
  assumes "holds q h" "admissible t" "admissible u" "admissible v"
  shows "\<exists>q1 q2 q3. enq q t = Ok (place q (length h), q1) \<and> enq q1 u = Ok (place q (Suc (length h)), q2) \<and>
    enq q2 v = Ok (place q (Suc (Suc (length h))), q3) \<and> holds q3 (h @ [t, u, v]) \<and> place q3 = place q"
proof -
  obtain q1 q2 where q: "enq q t = Ok (place q (length h), q1)" "enq q1 u = Ok (place q (Suc (length h)), q2)"
    "holds q2 (h @ [t, u])" "place q2 = place q"
    using enq_twice [OF assms(1-3)] by blast
  show ?thesis using q enq_ok [OF q(3) assms(4)] by auto
qed

end

definition slot_addr :: "CommandRing \<Rightarrow> nat \<Rightarrow> u64" where
  "slot_addr cr n = ring_phys_addr cr + 16 * word_of_nat (n mod 15)"

interpretation command_ring: trb_queue push ring_inv "\<lambda>t. ty_of t \<noteq> trb_type_code Link" slot_addr
proof
  fix cr h t
  assume "ring_inv cr h" "ty_of t \<noteq> trb_type_code Link"
  from push_inv [OF this]
  show "\<exists>cr'. push cr t = Ok (slot_addr cr (length h), cr') \<and> ring_inv cr' (h @ [t]) \<and>
      slot_addr cr' = slot_addr cr"
    by (auto simp: slot_addr_def fun_eq_iff)
qed

section \<open>The consumer\<close>

text \<open>
  The controller's side, from the xHCI specification (4.9.2, 4.9.3): an entry is valid when its
  cycle bit equals the consumer's cycle state; a valid link entry leads to the first entry and,
  with the toggle bit set, flips the cycle state; any other valid entry is taken.
\<close>

definition toggle_cycle :: "GenericTrbEntry \<Rightarrow> bool" where
  "toggle_cycle t = bit (trb_control t) 1"

fun hw_fetch :: "GenericTrbEntry list \<Rightarrow> nat \<times> bool \<Rightarrow> (GenericTrbEntry \<times> nat \<times> bool) option" where
  "hw_fetch ts (i, ccs) =
     (let t = ts ! i in
      if cyc t \<noteq> ccs then None
      else if ty_of t = trb_type_code Link
      then (let ccs' = (if toggle_cycle t then \<not> ccs else ccs); t0 = ts ! 0 in
            if cyc t0 \<noteq> ccs' then None else Some (t0, 1, ccs'))
      else Some (t, Suc i, ccs))"

definition hw_pos :: "nat \<Rightarrow> nat \<times> bool" where
  "hw_pos c = (if c = 0 then (0, True) else ((c - 1) mod 15 + 1, even ((c - 1) div 15)))"

lemma link_trb_toggle [simp]: "toggle_cycle (link_trb a c)"
  by (simp add: toggle_cycle_def link_trb_def bit_put_field)

lemma slot_outstanding:
  assumes "c < length h" "length h \<le> c + 14"
  shows "slot_trb h (c mod 15) = with_cyc (even (c div 15)) (h ! c)"
proof -
  define k i where "k = length h div 15" and "i = length h mod 15"
  have n: "length h = 15 * k + i" "i < 15" by (simp_all add: k_def i_def)
  have c: "c = 15 * (c div 15) + c mod 15" "c mod 15 < 15" by simp_all
  show ?thesis
  proof (cases "c div 15 = k")
    case True
    then have "c mod 15 < i" "h ! (15 * k + c mod 15) = h ! c" using assms(1) n c by auto
    then show ?thesis using True by (simp add: slot_trb_def Let_def k_def [symmetric] i_def [symmetric])
  next
    case False
    have "15 * k \<le> c + 14" "15 * (c div 15) \<le> c" "c < 15 * (c div 15) + 15" using assms n c by linarith+
    moreover have "c div 15 < k" using False div_le_mono [of c "length h" 15] assms(1) k_def by simp
    ultimately have k: "k = Suc (c div 15)" by linarith
    then have "\<not> c mod 15 < i" using assms(2) n c by linarith
    then show ?thesis using k c
      by (simp add: slot_trb_def Let_def k_def [symmetric] i_def [symmetric])
  qed
qed

lemma hw_fetch_spec:
  assumes inv: "ring_inv cr h" and c: "c \<le> length h" "length h \<le> c + 14"
  shows "hw_fetch (ring_trb (cmd_ring cr)) (hw_pos c) =
    (if c = length h then None else Some (with_cyc (even (c div 15)) (h ! c), hw_pos (Suc c)))"
proof -
  let ?ts = "ring_trb (cmd_ring cr)"
  let ?a = "ring_addr (cmd_ring cr)"
  have slots: "\<And>j. j < 15 \<Longrightarrow> ?ts ! j = slot_trb h j" and link: "?ts ! 15 = link_trb ?a (odd (length h div 15))"
    and nolink: "\<forall>t \<in> set h. ty_of t \<noteq> trb_type_code Link"
    using inv by (simp_all add: ring_inv_def)
  have ty: "ty_of (slot_trb h j) \<noteq> trb_type_code Link" if "j < 15" for j
    using slot_trb_type [OF that nolink] .
  have here: "cyc (slot_trb h (c mod 15)) = (if c = length h then odd (c div 15) else even (c div 15))"
    using slot_outstanding [OF _ c(2)] c(1) slot_trb_cyc [of "c mod 15" h] by (auto simp: trb_simps)
  show ?thesis
  proof (cases "c \<noteq> 0 \<and> c mod 15 = 0")
    case True
    then obtain m where m: "c = 15 * Suc m" by (metis mult_0_right mult_div_mod_eq add_0_right not0_implies_Suc)
    have pos: "hw_pos c = (15, even m)" "hw_pos (Suc c) = (1, odd m)"
    proof -
      have "c - 1 = 15 * m + 14" using m by simp
      then show "hw_pos c = (15, even m)" using m by (simp add: hw_pos_def)
      show "hw_pos (Suc c) = (1, odd m)" using m by (simp add: hw_pos_def)
    qed
    have "length h div 15 = Suc m"
      using c m by (intro div_nat_eqI) simp_all
    then show ?thesis using pos link slots [of 0] here slot_outstanding [OF _ c(2)] c(1) m
      by (auto simp: Let_def)
  next
    case False
    have pos: "hw_pos c = (c mod 15, even (c div 15))" "hw_pos (Suc c) = (Suc (c mod 15), even (c div 15))"
    proof -
      show "hw_pos (Suc c) = (Suc (c mod 15), even (c div 15))" by (simp add: hw_pos_def)
      show "hw_pos c = (c mod 15, even (c div 15))"
      proof (cases c)
        case (Suc d)
        then have "Suc d mod 15 \<noteq> 0" using False by simp
        then have "Suc (d mod 15) = Suc d mod 15" "d div 15 = Suc d div 15"
          by (simp_all add: mod_Suc div_Suc split: if_splits)
        then show ?thesis using Suc by (simp add: hw_pos_def)
      qed (simp add: hw_pos_def)
    qed
    show ?thesis
    proof (cases "c = length h")
      case True
      then show ?thesis using pos slots [of "c mod 15"] here by (simp add: Let_def)
    next
      case less: False
      then have "slot_trb h (c mod 15) = with_cyc (even (c div 15)) (h ! c)"
        using slot_outstanding [OF _ c(2)] c(1) by simp
      then show ?thesis using pos slots [of "c mod 15"] ty [of "c mod 15"] less
        by (simp add: Let_def trb_simps)
    qed
  qed
qed

end
