(* ===== verification/Event_Ring.thy ===== *)
theory Event_Ring
  imports Trb_Ring
begin

text \<open>
  The event ring of the xHCI driver: \<^verbatim>\<open>EventRing\<close>, its segment table entry, the waiters
  (\<^verbatim>\<open>EventWaitCond\<close>, \<^verbatim>\<open>EventWaitInfo\<close>) and \<^verbatim>\<open>EventFuture\<close>. The hardware produces events, the
  kernel consumes them. \<open>erdp\<close> holds the value of the dequeue-pointer register once
  \<^verbatim>\<open>set_erdp\<close> has provided the register. A waiter is shared between the future that owns it and the
  wait list, which keeps a weak reference: \<open>wait_alive\<close> is whether the owner still exists, and the
  reference's \<open>wait_id\<close> is the identity of the shared object.
\<close>

section \<open>Waiters\<close>

record EventWaitCond =
  cond_trb_type :: "TrbType option"
  cond_trb_addr :: "u64 option"
  cond_slot :: "u8 option"

definition EventWaitCond_default :: EventWaitCond where
  "EventWaitCond_default = \<lparr>cond_trb_type = None, cond_trb_addr = None, cond_slot = None\<rparr>"

record EventWaitInfo =
  wait_id :: nat
  wait_cond :: EventWaitCond
  wait_trbs :: "GenericTrbEntry list"
  wait_alive :: bool

definition wait_matches :: "EventWaitInfo \<Rightarrow> GenericTrbEntry \<Rightarrow> bool res" where
  "wait_matches w trb =
     and_then (case cond_trb_type (wait_cond w) of None \<Rightarrow> Ok True
               | Some ty \<Rightarrow> and_then (trb_type trb) (\<lambda>v. Ok (v = trb_type_code ty))) (\<lambda>b1.
     if \<not> b1 then Ok False else
     and_then (case cond_slot (wait_cond w) of None \<Rightarrow> Ok True
               | Some s \<Rightarrow> and_then (slot_id trb) (\<lambda>v. Ok (v = s))) (\<lambda>b2.
     if \<not> b2 then Ok False else
     (case cond_trb_addr (wait_cond w) of None \<Rightarrow> Ok True
      | Some a \<Rightarrow> Ok (trb_data trb = a))))"

definition resolve :: "EventWaitInfo \<Rightarrow> GenericTrbEntry \<Rightarrow> EventWaitInfo" where
  "resolve w trb = w\<lparr>wait_trbs := wait_trbs w @ [trb]\<rparr>"

section \<open>The ring\<close>

record EventRing =
  ev_ring :: TrbRing
  erst_base :: u64
  erst_size :: u16
  erst_addr :: u64
  ev_cycle_ours :: bool
  erdp :: "u64 option"
  wait_list :: "EventWaitInfo list"
  next_wait_id :: nat

definition EventRingSegmentTableEntry_new :: "TrbRing \<Rightarrow> (u64 \<times> u16) res" where
  "EventRingSegmentTableEntry_new r =
     (if num_trbs r < 2 ^ 16 then Ok (ring_addr r, word_of_nat (num_trbs r)) else Err ''Too large num trbs'')"

definition EventRing_new :: "u64 \<Rightarrow> u64 \<Rightarrow> EventRing res" where
  "EventRing_new addr erst =
     (let r = TrbRing_new addr in
      and_then (EventRingSegmentTableEntry_new r) (\<lambda>(base, n).
      Ok \<lparr>ev_ring = r, erst_base = base, erst_size = n, erst_addr = erst, ev_cycle_ours = True,
          erdp = None, wait_list = [], next_wait_id = 0\<rparr>))"

definition set_erdp :: "EventRing \<Rightarrow> u64 \<Rightarrow> EventRing" where
  "set_erdp er reg = er\<lparr>erdp := Some reg\<rparr>"

definition has_next_event :: "EventRing \<Rightarrow> bool res" where
  "has_next_event er =
     and_then (ring_current (ev_ring er)) (\<lambda>e.
     and_then (cycle_state e) (\<lambda>c. Ok (c = ev_cycle_ours er)))"

definition ev_pop :: "EventRing \<Rightarrow> (GenericTrbEntry option \<times> EventRing) res" where
  "ev_pop er =
     and_then (has_next_event er) (\<lambda>b.
     if \<not> b then Ok (None, er)
     else and_then (ring_current (ev_ring er)) (\<lambda>e.
       and_then (current_ptr (ev_ring er)) (\<lambda>eptr.
       and_then (advance_index_notoggle (ev_ring er) (ev_cycle_ours er)) (\<lambda>ring'.
       and_then (expect_some (erdp er) ''erdp is not set'') (\<lambda>reg.
       Ok (Some e, er\<lparr>ev_ring := ring', erdp := Some (eptr OR (reg AND 0b1111)),
             ev_cycle_ours := (if ring_index ring' = 0 then \<not> ev_cycle_ours er else ev_cycle_ours er)\<rparr>))))))"

text \<open>The loop of \<^verbatim>\<open>poll\<close> over the wait list: every live waiter that matches gets the event.\<close>

fun deliver :: "GenericTrbEntry \<Rightarrow> EventWaitInfo list \<Rightarrow> (bool \<times> EventWaitInfo list) res" where
  "deliver e [] = Ok (False, [])"
| "deliver e (w # ws) =
     and_then (if wait_alive w then wait_matches w e else Ok False) (\<lambda>m.
     and_then (deliver e ws) (\<lambda>(consumed, ws').
     Ok (m \<or> consumed, (if m then resolve w e else w) # ws')))"

text \<open>The indices of the stale waiters, last first, and their removal one by one.\<close>

definition stale_waiter_indices :: "EventWaitInfo list \<Rightarrow> nat list" where
  "stale_waiter_indices ws = map fst (filter (\<lambda>(i, w). \<not> wait_alive w) (rev (enumerate 0 ws)))"

definition remove_at :: "'a list \<Rightarrow> nat \<Rightarrow> 'a list" where
  "remove_at xs k = take k xs @ drop (Suc k) xs"

definition ev_poll :: "EventRing \<Rightarrow> EventRing res" where
  "ev_poll er =
     and_then (ev_pop er) (\<lambda>(ev, er1).
     case ev of None \<Rightarrow> Ok er1
     | Some e \<Rightarrow>
         and_then (deliver e (wait_list er1)) (\<lambda>(consumed, ws).
         Ok (er1\<lparr>wait_list := foldl remove_at ws (stale_waiter_indices ws)\<rparr>)))"

definition register_waiter :: "EventRing \<Rightarrow> EventWaitInfo \<Rightarrow> EventRing" where
  "register_waiter er w = er\<lparr>wait_list := wait_list er @ [w]\<rparr>"

section \<open>EventFuture\<close>

text \<open>A future is the identity of its waiter; \<^verbatim>\<open>Rc::new\<close> makes a fresh one.\<close>

definition EventFuture_new :: "EventRing \<Rightarrow> EventWaitCond \<Rightarrow> nat \<times> EventRing" where
  "EventFuture_new er cond =
     (let i = next_wait_id er;
          w = \<lparr>wait_id = i, wait_cond = cond, wait_trbs = [], wait_alive = True\<rparr> in
      (i, register_waiter (er\<lparr>next_wait_id := Suc i\<rparr>) w))"

definition EventFuture_new_for_trb :: "EventRing \<Rightarrow> u64 \<Rightarrow> nat \<times> EventRing" where
  "EventFuture_new_for_trb er trb_addr =
     EventFuture_new er (EventWaitCond_default\<lparr>cond_trb_addr := Some trb_addr\<rparr>)"

fun pop_waiter :: "nat \<Rightarrow> EventWaitInfo list \<Rightarrow> GenericTrbEntry option \<times> EventWaitInfo list" where
  "pop_waiter i [] = (None, [])"
| "pop_waiter i (w # ws) =
     (if wait_id w = i
      then (case wait_trbs w of [] \<Rightarrow> (None, w # ws) | t # ts \<Rightarrow> (Some t, w\<lparr>wait_trbs := ts\<rparr> # ws))
      else (let (r, ws') = pop_waiter i ws in (r, w # ws')))"

text \<open>\<^verbatim>\<open>EventFuture::poll\<close>: \<open>None\<close> is \<^verbatim>\<open>Poll::Pending\<close>.\<close>

definition EventFuture_poll :: "nat \<Rightarrow> EventRing \<Rightarrow> GenericTrbEntry option \<times> EventRing" where
  "EventFuture_poll i er =
     (let (r, ws) = pop_waiter i (wait_list er) in (r, er\<lparr>wait_list := ws\<rparr>))"

text \<open>Dropping the future drops the last strong reference to its waiter.\<close>

definition EventFuture_drop :: "nat \<Rightarrow> EventRing \<Rightarrow> EventRing" where
  "EventFuture_drop i er =
     er\<lparr>wait_list := map (\<lambda>w. if wait_id w = i then w\<lparr>wait_alive := False\<rparr> else w) (wait_list er)\<rparr>"

section \<open>Delivery\<close>

definition matched :: "GenericTrbEntry \<Rightarrow> EventWaitInfo \<Rightarrow> bool" where
  "matched e w \<longleftrightarrow> wait_alive w \<and>
     (case cond_trb_type (wait_cond w) of None \<Rightarrow> True | Some ty \<Rightarrow> ty_of e = trb_type_code ty) \<and>
     (case cond_slot (wait_cond w) of None \<Rightarrow> True | Some s \<Rightarrow> ucast (get_field 24 8 (trb_control e)) = s) \<and>
     (case cond_trb_addr (wait_cond w) of None \<Rightarrow> True | Some a \<Rightarrow> trb_data e = a)"

definition give :: "GenericTrbEntry \<Rightarrow> EventWaitInfo \<Rightarrow> EventWaitInfo" where
  "give e w = (if matched e w then resolve w e else w)"

lemma wait_matches_eq: "(if wait_alive w then wait_matches w e else Ok False) = Ok (matched e w)"
  by (auto simp: wait_matches_def matched_def trb_simps slot_id_eq split: option.splits)

lemma deliver_eq: "deliver e ws = Ok (\<exists>w \<in> set ws. matched e w, map (give e) ws)"
  by (induction ws) (auto simp: wait_matches_eq give_def)

lemma foldl_remove_last:
  assumes "sorted_wrt (>) ks" "\<forall>k \<in> set ks. k < length xs"
  shows "foldl remove_at (xs @ [w]) ks = foldl remove_at xs ks @ [w]"
  using assms
proof (induction ks arbitrary: xs)
  case (Cons k ks)
  have k: "k < length xs" using Cons.prems(2) by simp
  have "remove_at (xs @ [w]) k = remove_at xs k @ [w]" using k by (simp add: remove_at_def)
  moreover have "\<forall>j \<in> set ks. j < length (remove_at xs k)"
    using Cons.prems k by (auto simp: remove_at_def)
  ultimately show ?case using Cons by simp
qed simp

lemma stale_sorted: "sorted_wrt (>) (stale_waiter_indices ws)" "\<forall>k \<in> set (stale_waiter_indices ws). k < length ws"
proof -
  have "sorted_wrt (<) (map fst (enumerate 0 ws))" by simp
  then have "sorted_wrt (\<lambda>x y. fst x < fst y) (enumerate 0 ws)" by (simp only: sorted_wrt_map)
  then have "sorted_wrt (\<lambda>x y. fst x > fst y) (rev (enumerate 0 ws))"
    by (simp add: sorted_wrt_rev)
  then show "sorted_wrt (>) (stale_waiter_indices ws)"
    unfolding stale_waiter_indices_def sorted_wrt_map by (rule sorted_wrt_filter)
  show "\<forall>k \<in> set (stale_waiter_indices ws). k < length ws"
    by (auto simp: stale_waiter_indices_def in_set_enumerate_eq)
qed

lemma remove_stale: "foldl remove_at ws (stale_waiter_indices ws) = filter wait_alive ws"
proof (induction ws rule: rev_induct)
  case (snoc w ws)
  have e: "stale_waiter_indices (ws @ [w]) =
      (if wait_alive w then [] else [length ws]) @ stale_waiter_indices ws"
    by (simp add: stale_waiter_indices_def enumerate_append_eq)
  show ?case
  proof (cases "wait_alive w")
    case True
    then show ?thesis using e snoc foldl_remove_last [OF stale_sorted] by simp
  next
    case False
    then show ?thesis using e snoc by (simp add: remove_at_def)
  qed
qed (simp add: stale_waiter_indices_def)

lemma ev_poll_eq:
  "ev_poll er = and_then (ev_pop er) (\<lambda>(ev, er1).
     Ok (case ev of None \<Rightarrow> er1
         | Some e \<Rightarrow> er1\<lparr>wait_list := filter wait_alive (map (give e) (wait_list er1))\<rparr>))"
  unfolding ev_poll_def by (rule arg_cong [where f = "and_then _"]) (auto simp: deliver_eq remove_stale split: option.splits)

section \<open>The producer and the order of events\<close>

text \<open>
  The controller's side, from the xHCI specification (4.9.4): the \<open>n\<close>th event goes to slot
  \<open>n mod 16\<close> with the producer's cycle bit, which starts at 1 and flips at each wrap. It never
  overwrites an event the kernel has not consumed.
\<close>

definition hw_post :: "EventRing \<Rightarrow> nat \<Rightarrow> GenericTrbEntry \<Rightarrow> EventRing" where
  "hw_post er n e = er\<lparr>ev_ring := (ev_ring er)\<lparr>ring_trb :=
     (ring_trb (ev_ring er))[n mod 16 := with_cyc (even (n div 16)) e]\<rparr>\<rparr>"

definition event_inv :: "EventRing \<Rightarrow> GenericTrbEntry list \<Rightarrow> nat \<Rightarrow> bool" where
  "event_inv er h c \<longleftrightarrow> length (ring_trb (ev_ring er)) = 16 \<and> c \<le> length h \<and> length h \<le> c + 16 \<and>
     ring_index (ev_ring er) = c mod 16 \<and> ev_cycle_ours er = even (c div 16) \<and> erdp er \<noteq> None \<and>
     (\<forall>j. c \<le> j \<and> j < c + 16 \<longrightarrow>
        (if j < length h then ring_trb (ev_ring er) ! (j mod 16) = with_cyc (even (j div 16)) (h ! j)
         else cyc (ring_trb (ev_ring er) ! (j mod 16)) = odd (j div 16)))"

lemma mod_window:
  fixes j k c :: nat
  assumes "j mod m = k mod m" "c \<le> j" "j < c + m" "c \<le> k" "k < c + m"
  shows "j = k"
proof (rule ccontr)
  assume "j \<noteq> k"
  moreover have "m dvd j - k" "m dvd k - j"
    using assms(1) by (metis mod_eq_dvd_iff_nat nat_le_linear diff_is_0_eq dvd_0_right)+
  ultimately show False using assms by (cases "j < k") (auto dest!: dvd_imp_le)
qed

lemma event_inv_start:
  "\<exists>er. EventRing_new addr erst = Ok er \<and> event_inv (set_erdp er reg) [] 0"
  by (auto simp: EventRing_new_def EventRingSegmentTableEntry_new_def num_trbs_def NUM_TRB_def
      TrbRing_new_def event_inv_def set_erdp_def Let_def)

lemma event_inv_post:
  assumes "event_inv er h c" "length h < c + 16"
  shows "event_inv (hw_post er (length h) e) (h @ [e]) c"
proof -
  let ?er = "hw_post er (length h) e"
  have len: "length (ring_trb (ev_ring er)) = 16" and cl: "c \<le> length h" using assms(1) by (simp_all add: event_inv_def)
  have "if j < length (h @ [e]) then ring_trb (ev_ring ?er) ! (j mod 16) = with_cyc (even (j div 16)) ((h @ [e]) ! j)
      else cyc (ring_trb (ev_ring ?er) ! (j mod 16)) = odd (j div 16)" if j: "c \<le> j" "j < c + 16" for j
  proof (cases "j = length h")
    case True
    then show ?thesis using len by (simp add: hw_post_def)
  next
    case False
    then have "j mod 16 \<noteq> length h mod 16" using mod_window [of j 16 "length h" c] j assms(2) cl by auto
    then have "ring_trb (ev_ring ?er) ! (j mod 16) = ring_trb (ev_ring er) ! (j mod 16)"
      by (simp add: hw_post_def)
    then show ?thesis using assms(1) j False by (auto simp: event_inv_def nth_append)
  qed
  moreover have "length (ring_trb (ev_ring ?er)) = 16" "ring_index (ev_ring ?er) = c mod 16"
      "ev_cycle_ours ?er = even (c div 16)" "erdp ?er \<noteq> None"
    using assms(1) by (simp_all add: event_inv_def hw_post_def)
  ultimately show ?thesis using cl assms(2) unfolding event_inv_def by simp
qed

lemma ev_pop_spec:
  assumes inv: "event_inv er h c"
  shows "if c = length h then ev_pop er = Ok (None, er)
    else \<exists>er'. ev_pop er = Ok (Some (with_cyc (even (c div 16)) (h ! c)), er') \<and> event_inv er' h (Suc c) \<and>
      wait_list er' = wait_list er \<and> next_wait_id er' = next_wait_id er \<and>
      erdp er' = Some ((ring_addr (ev_ring er) + 16 * word_of_nat (c mod 16)) OR (the (erdp er) AND 0b1111))"
proof -
  let ?r = "ev_ring er"
  have len: "length (ring_trb ?r) = 16" "ring_index ?r = c mod 16" and ours: "ev_cycle_ours er = even (c div 16)"
    and slots: "\<And>j. c \<le> j \<Longrightarrow> j < c + 16 \<Longrightarrow>
        if j < length h then ring_trb ?r ! (j mod 16) = with_cyc (even (j div 16)) (h ! j)
        else cyc (ring_trb ?r ! (j mod 16)) = odd (j div 16)"
    and cl: "c \<le> length h" "length h \<le> c + 16"
    using inv by (simp_all add: event_inv_def)
  obtain reg where reg: "erdp er = Some reg" using inv by (auto simp: event_inv_def)
  note ops = ring_ops_at [OF len(1)]
  show ?thesis
  proof (cases "c = length h")
    case True
    then show ?thesis using slots [of c] ours len ops
      by (simp add: ev_pop_def has_next_event_def trb_simps)
  next
    case False
    have cur: "ring_trb ?r ! (c mod 16) = with_cyc (even (c div 16)) (h ! c)"
      using slots [of c] False cl by simp
    define r' where "r' = ?r\<lparr>ring_index := (c mod 16 + 1) mod 16\<rparr>"
    define er' where "er' = er\<lparr>ev_ring := r', erdp := Some ((ring_addr ?r + 16 * word_of_nat (c mod 16)) OR (reg AND 0b1111)),
        ev_cycle_ours := (if (c mod 16 + 1) mod 16 = 0 then \<not> ev_cycle_ours er else ev_cycle_ours er)\<rparr>"
    have "ev_pop er = Ok (Some (with_cyc (even (c div 16)) (h ! c)), er')"
      using len ops cur ours reg
      by (simp add: ev_pop_def has_next_event_def advance_index_notoggle_def trb_simps er'_def r'_def)
    moreover have "event_inv er' h (Suc c)"
    proof -
      have "(if (c mod 16 + 1) mod 16 = 0 then \<not> even (c div 16) else even (c div 16)) = even (Suc c div 16)"
        by (simp add: div_Suc mod_Suc)
      moreover have "if j < length h then ring_trb ?r ! (j mod 16) = with_cyc (even (j div 16)) (h ! j)
          else cyc (ring_trb ?r ! (j mod 16)) = odd (j div 16)" if "Suc c \<le> j" "j < Suc c + 16" for j
      proof (cases "j = c + 16")
        case True
        moreover have "(c + 16) div 16 = Suc (c div 16)" by simp
        ultimately show ?thesis using cur cl by (simp add: trb_simps)
      next
        case False
        then show ?thesis using slots [of j] that by simp
      qed
      ultimately show ?thesis
        using len ours cl False by (auto simp: event_inv_def er'_def r'_def mod_Suc_eq)
    qed
    ultimately show ?thesis using False reg by (simp add: er'_def)
  qed
qed

end
