(* ===== verification/Xhci_Context.thy ===== *)
theory Xhci_Context
  imports Bit_Fields
begin

text \<open>
  The context structures that the driver hands to the xHC (\<^verbatim>\<open>EndpointContext\<close>,
  \<^verbatim>\<open>DeviceContext\<close>, \<^verbatim>\<open>InputControlContext\<close>, \<^verbatim>\<open>InputContext\<close> of \<^verbatim>\<open>xhci.rs\<close>) and their setters,
  with the fields they are meant to fill.
\<close>

section \<open>Endpoint contexts\<close>

datatype EndpointType = IsochOut | BulkOut | InterruptOut | ControlEp | IsochIn | BulkIn | InterruptIn

fun ep_type_code :: "EndpointType \<Rightarrow> u32" where
  "ep_type_code IsochOut = 1"
| "ep_type_code BulkOut = 2"
| "ep_type_code InterruptOut = 3"
| "ep_type_code ControlEp = 4"
| "ep_type_code IsochIn = 5"
| "ep_type_code BulkIn = 6"
| "ep_type_code InterruptIn = 7"

record EndpointContext =
  ep_data0 :: u32
  ep_data1 :: u32
  tr_dequeue_ptr :: u64
  average_trb_length :: u16
  max_esit_payload_low :: u16

definition EndpointContext_new :: EndpointContext where
  "EndpointContext_new = \<lparr>ep_data0 = 0, ep_data1 = 0, tr_dequeue_ptr = 0, average_trb_length = 0,
     max_esit_payload_low = 0\<rparr>"

definition set_ring_dequeue_pointer :: "u64 \<Rightarrow> EndpointContext \<Rightarrow> EndpointContext res" where
  "set_ring_dequeue_pointer p ep =
     and_then (write_bits (tr_dequeue_ptr ep) 4 60 (drop_bit 4 p)) (\<lambda>v. Ok (ep\<lparr>tr_dequeue_ptr := v\<rparr>))"

definition set_max_packet_size :: "u16 \<Rightarrow> EndpointContext \<Rightarrow> EndpointContext" where
  "set_max_packet_size m ep =
     ep\<lparr>ep_data1 := (ep_data1 ep AND NOT (push_bit 16 0xfff)) OR push_bit 16 (ucast m)\<rparr>"

definition set_error_count :: "u32 \<Rightarrow> EndpointContext \<Rightarrow> EndpointContext res" where
  "set_error_count n ep =
     (if n AND NOT 0b11 = 0
      then Ok (ep\<lparr>ep_data1 := (ep_data1 ep AND NOT (push_bit 1 0b11)) OR push_bit 1 n\<rparr>)
      else Err ''Invalid error_count'')"

definition set_dequeue_cycle_state :: "bool \<Rightarrow> EndpointContext \<Rightarrow> EndpointContext res" where
  "set_dequeue_cycle_state dcs ep =
     and_then (write_bits (tr_dequeue_ptr ep) 0 1 (of_bool dcs)) (\<lambda>v. Ok (ep\<lparr>tr_dequeue_ptr := v\<rparr>))"

definition set_ep_type :: "EndpointType \<Rightarrow> EndpointContext \<Rightarrow> EndpointContext res" where
  "set_ep_type ty ep =
     (let raw = ep_type_code ty in
      if raw < 8
      then Ok (ep\<lparr>ep_data1 := (ep_data1 ep AND NOT (push_bit 3 0b111)) OR push_bit 3 raw\<rparr>)
      else Err ''Invalid ep_type'')"

definition new_control_endpoint :: "u16 \<Rightarrow> u64 \<Rightarrow> EndpointContext res" where
  "new_control_endpoint max_packet_size tr_ptr =
     and_then (set_ep_type ControlEp EndpointContext_new) (\<lambda>ep.
     and_then (set_dequeue_cycle_state True ep) (\<lambda>ep.
     and_then (set_error_count 3 ep) (\<lambda>ep.
     and_then (set_ring_dequeue_pointer tr_ptr (set_max_packet_size max_packet_size ep)) (\<lambda>ep.
     Ok (ep\<lparr>average_trb_length := 8\<rparr>)))))"

section \<open>Device and input contexts\<close>

datatype UsbMode = Unknown u32 | FullSpeed | LowSpeed | HighSpeed | SuperSpeed

fun psi :: "UsbMode \<Rightarrow> u32" where
  "psi FullSpeed = 1"
| "psi LowSpeed = 2"
| "psi HighSpeed = 3"
| "psi SuperSpeed = 4"
| "psi (Unknown v) = v"

record DeviceContext =
  slot_ctx :: "u32 list"
  ep_ctx :: "EndpointContext list"

definition DeviceContext_default :: DeviceContext where
  "DeviceContext_default = \<lparr>slot_ctx = replicate 8 0, ep_ctx = replicate 31 EndpointContext_new\<rparr>"

definition upd_slot :: "nat \<Rightarrow> u32 \<Rightarrow> u32 \<Rightarrow> DeviceContext \<Rightarrow> DeviceContext" where
  "upd_slot i clear bits dc = dc\<lparr>slot_ctx := (slot_ctx dc)[i := (slot_ctx dc ! i AND NOT clear) OR bits]\<rparr>"

definition dev_set_port_speed :: "UsbMode \<Rightarrow> DeviceContext \<Rightarrow> DeviceContext res" where
  "dev_set_port_speed mode dc =
     (if psi mode < 16 then Ok (upd_slot 0 (push_bit 20 0xF) (drop_bit 20 (psi mode)) dc)
      else Err ''psi out of range'')"

definition dev_set_last_valid_dci :: "usize \<Rightarrow> DeviceContext \<Rightarrow> DeviceContext res" where
  "dev_set_last_valid_dci dci dc =
     (if dci \<le> 31 then Ok (upd_slot 0 (push_bit 27 0b11111) (push_bit 27 (word_of_nat dci)) dc)
      else Err ''num_ep_ctx out of range'')"

definition dev_set_root_hub_port_number :: "usize \<Rightarrow> DeviceContext \<Rightarrow> DeviceContext res" where
  "dev_set_root_hub_port_number port dc =
     (if 0 < port \<and> port < 256 then Ok (upd_slot 1 (push_bit 16 0xFF) (push_bit 16 (word_of_nat port)) dc)
      else Err ''port out of range'')"

record InputControlContext =
  drop_context_bitmap :: u32
  add_context_bitmap :: u32

definition InputControlContext_default :: InputControlContext where
  "InputControlContext_default = \<lparr>drop_context_bitmap = 0, add_context_bitmap = 0\<rparr>"

definition add_context :: "usize \<Rightarrow> InputControlContext \<Rightarrow> InputControlContext res" where
  "add_context ici c =
     (if ici < 32 then Ok (c\<lparr>add_context_bitmap := add_context_bitmap c OR push_bit ici 1\<rparr>)
      else Err ''Input context index out of range'')"

record InputContext =
  input_ctrl_ctx :: InputControlContext
  device_ctx :: DeviceContext

definition InputContext_default :: InputContext where
  "InputContext_default = \<lparr>input_ctrl_ctx = InputControlContext_default, device_ctx = DeviceContext_default\<rparr>"

definition set_ep_ctx :: "usize \<Rightarrow> EndpointContext \<Rightarrow> InputContext \<Rightarrow> InputContext res" where
  "set_ep_ctx dci ep ic =
     and_then (sub_u dci 1) (\<lambda>i.
     if i < length (ep_ctx (device_ctx ic))
     then Ok (ic\<lparr>device_ctx := (device_ctx ic)\<lparr>ep_ctx := (ep_ctx (device_ctx ic))[i := ep]\<rparr>\<rparr>)
     else Panic ''index out of bounds'')"

definition set_input_ctrl_ctx :: "InputControlContext \<Rightarrow> InputContext \<Rightarrow> InputContext res" where
  "set_input_ctrl_ctx c ic = Ok (ic\<lparr>input_ctrl_ctx := c\<rparr>)"

definition in_device :: "(DeviceContext \<Rightarrow> DeviceContext res) \<Rightarrow> InputContext \<Rightarrow> InputContext res" where
  "in_device f ic = and_then (f (device_ctx ic)) (\<lambda>dc. Ok (ic\<lparr>device_ctx := dc\<rparr>))"

definition set_port_speed :: "UsbMode \<Rightarrow> InputContext \<Rightarrow> InputContext res" where
  "set_port_speed mode = in_device (dev_set_port_speed mode)"

definition set_root_hub_port_number :: "usize \<Rightarrow> InputContext \<Rightarrow> InputContext res" where
  "set_root_hub_port_number port = in_device (dev_set_root_hub_port_number port)"

definition set_last_valid_dci :: "usize \<Rightarrow> InputContext \<Rightarrow> InputContext res" where
  "set_last_valid_dci dci = in_device (dev_set_last_valid_dci dci)"

section \<open>Fields\<close>

text \<open>The setters that clear a mask and or a value in are writes of a bit field.\<close>

lemma clear_or_field:
  fixes v :: "'a::len word"
  assumes "take_bit w v = v"
  shows "(reg AND NOT (push_bit s (mask w))) OR push_bit s v = put_field s w v reg"
  by (simp add: put_field_def or.commute)

lemma mask_lits: "(0b11 :: 'a::len word) = mask 2" "(0b111 :: 'a::len word) = mask 3"
    "(0xF :: 'a::len word) = mask 4" "(0b11111 :: 'a::len word) = mask 5" "(0xFF :: 'a::len word) = mask 8"
  by (simp_all add: mask_eq_exp_minus_1)

lemma set_ep_type_eq: "set_ep_type ty ep = Ok (ep\<lparr>ep_data1 := put_field 3 3 (ep_type_code ty) (ep_data1 ep)\<rparr>)"
proof -
  have "take_bit 3 (ep_type_code ty) = ep_type_code ty" "ep_type_code ty < 8" by (cases ty; simp)+
  then show ?thesis by (simp add: set_ep_type_def Let_def mask_lits(2) clear_or_field)
qed

lemma set_error_count_eq:
  "set_error_count n ep =
     (if n < 4 then Ok (ep\<lparr>ep_data1 := put_field 1 2 n (ep_data1 ep)\<rparr>) else Err ''Invalid error_count'')"
proof -
  have "n AND NOT (mask 2) = 0 \<longleftrightarrow> take_bit 2 n = n"
    by (auto simp: bit_eq_iff bit_simps)
  moreover have "take_bit 2 n = n \<longleftrightarrow> n < 4"
    by (simp add: take_bit_self_iff word_less_nat_alt)
  moreover have "n < 4 \<Longrightarrow> (ep_data1 ep AND NOT (push_bit 1 (mask 2))) OR push_bit 1 n = put_field 1 2 n (ep_data1 ep)"
    using calculation(2) by (intro clear_or_field) simp
  ultimately show ?thesis
    unfolding set_error_count_def mask_lits(1) by (cases "n < 4") (simp_all only: if_True if_False)
qed

lemma new_control_endpoint_eq:
  "\<exists>ep. new_control_endpoint m p = Ok ep \<and>
    get_field 3 3 (ep_data1 ep) = ep_type_code ControlEp \<and> get_field 1 2 (ep_data1 ep) = 3 \<and>
    get_field 16 16 (ep_data1 ep) = ucast m \<and> bit (tr_dequeue_ptr ep) 0 \<and>
    tr_dequeue_ptr ep AND NOT 0b1111 = p AND NOT 0b1111 \<and> average_trb_length ep = 8"
proof -
  let ?d = "put_field 1 2 3 (put_field 3 3 4 0) :: u32"
  define d1 where "d1 = (?d AND NOT (push_bit 16 0xfff)) OR push_bit 16 (ucast m)"
  define q where "q = (put_field 4 60 (drop_bit 4 p) (put_field 0 1 1 0) :: u64)"
  have fits: "take_bit 60 (drop_bit 4 p) = drop_bit 4 p"
    by (rule bit_word_eqI) (auto simp: bit_simps dest: bit_imp_le_length)
  have e: "new_control_endpoint m p = Ok \<lparr>ep_data0 = 0, ep_data1 = d1, tr_dequeue_ptr = q,
      average_trb_length = 8, max_esit_payload_low = 0\<rparr>"
    by (simp add: new_control_endpoint_def set_ep_type_eq set_error_count_eq EndpointContext_new_def
        set_dequeue_cycle_state_def write_bits_eq set_ring_dequeue_pointer_def fits set_max_packet_size_def d1_def q_def)
  have d: "?d = 0x26" by (simp add: put_field_def mask_eq_exp_minus_1)
  have b: "bit d1 n = (if n < 16 then bit (0x26 :: u32) n else bit m (n - 16))" if "n < 32" for n
  proof -
    have "\<not> bit (0x26 :: u32) n" if "16 \<le> n"
    proof -
      have "take_bit 16 (0x26 :: u32) = 0x26" by simp
      then show ?thesis using that by (metis bit_take_bit_iff not_le)
    qed
    then show ?thesis using that unfolding d1_def d
      by (auto simp: bit_or_iff bit_and_iff bit_not_iff bit_push_bit_iff bit_ucast_iff)
  qed
  have f1: "get_field 3 3 d1 = get_field 3 3 (0x26 :: u32)"
    by (rule bit_word_eqI) (auto simp: bit_get_field b)
  have f2: "get_field 1 2 d1 = get_field 1 2 (0x26 :: u32)"
    by (rule bit_word_eqI) (auto simp: bit_get_field b)
  have "bit m n \<Longrightarrow> n < 16" for n using bit_imp_le_length [of m n] by simp
  then have f3: "get_field 16 16 d1 = ucast m"
    by (intro bit_word_eqI) (auto simp: bit_get_field b bit_ucast_iff)
  have qb: "bit q n = (if n < 4 then n = 0 else bit p n)" if "n < 64" for n
    using that unfolding q_def by (auto simp: bit_put_field fits bit_drop_bit_eq bit_1_iff)
  have "q AND NOT (mask 4) = p AND NOT (mask 4)"
    by (rule bit_word_eqI) (auto simp: bit_and_iff bit_not_iff bit_mask_iff qb)
  moreover have "bit q 0" using qb [of 0] by simp
  ultimately show ?thesis using e f1 f2 f3 by (simp add: mask_lits(3) get_field_def)
qed

end
