(* ===== verification/Xhci_Regs.thy ===== *)
theory Xhci_Regs
  imports Mmio Trb_Ring Event_Ring Xhci_Context
begin

text \<open>
  The register blocks of the xHC as \<^verbatim>\<open>xhci.rs\<close> uses them: capability registers, the operational
  registers with reset and start, the runtime registers of the primary interrupter, the port
  registers and the doorbells. Registers are reached through the bus at the offsets that the
  \<^verbatim>\<open>repr(C)\<close> structures give them.
\<close>

section \<open>Capability registers\<close>

record CapabilityRegisters =
  cap_caplength :: u8
  cap_hcsparams1 :: u32
  cap_hcsparams2 :: u32
  cap_dboff :: u32
  cap_rtsoff :: u32

definition caplength :: "CapabilityRegisters \<Rightarrow> usize" where
  "caplength c = unat (cap_caplength c)"

definition rtsoff :: "CapabilityRegisters \<Rightarrow> usize" where
  "rtsoff c = unat (cap_rtsoff c)"

definition num_of_device_slots :: "CapabilityRegisters \<Rightarrow> usize" where
  "num_of_device_slots c = unat (extract_bits (cap_hcsparams1 c) 0 8)"

definition num_scratchpad_bufs :: "CapabilityRegisters \<Rightarrow> usize" where
  "num_scratchpad_bufs c = unat (push_bit 5 (extract_bits (cap_hcsparams2 c) 21 5) OR
     extract_bits (cap_hcsparams2 c) 27 5)"

definition num_of_ports :: "CapabilityRegisters \<Rightarrow> usize" where
  "num_of_ports c = unat (extract_bits (cap_hcsparams1 c) 24 8)"

definition dboff :: "CapabilityRegisters \<Rightarrow> usize" where
  "dboff c = unat (cap_dboff c)"

section \<open>Ports\<close>

definition PRESERVE_MASK :: u32 where
  "PRESERVE_MASK = 0b01001111000000011111111111101001"

definition portsc_bit :: "'d bus \<Rightarrow> u64 \<Rightarrow> nat \<Rightarrow> 'd \<Rightarrow> bool \<times> 'd" where
  "portsc_bit bus p pos d = (let (v, d') = rd32 bus p d in (v AND push_bit pos 1 \<noteq> 0, d'))"

definition portsc_assert_bit :: "'d bus \<Rightarrow> u64 \<Rightarrow> nat \<Rightarrow> 'd \<Rightarrow> 'd" where
  "portsc_assert_bit bus p pos d =
     (let (old, d') = rd32 bus p d in wr32 bus p ((old AND PRESERVE_MASK) OR push_bit pos 1) d')"

definition portsc_ccs where "portsc_ccs bus p d = portsc_bit bus p 0 d"
definition portsc_ped where "portsc_ped bus p d = portsc_bit bus p 1 d"
definition portsc_pr where "portsc_pr bus p d = portsc_bit bus p 4 d"
definition portsc_pp where "portsc_pp bus p d = portsc_bit bus p 9 d"

text \<open>
  \<^verbatim>\<open>reset_port\<close>: each \<^verbatim>\<open>yield_execution().await\<close> lets other tasks run between two reads; on the
  register it is one more poll.
\<close>

definition reset_port :: "'d bus \<Rightarrow> u64 \<Rightarrow> 'd \<Rightarrow> 'd option" where
  "reset_port bus p d =
     (let d1 = portsc_assert_bit bus p 9 d in
      Option.bind (wait_while (\<lambda>x. let (b, x') = portsc_pp bus p x in (\<not> b, x')) d1) (\<lambda>d2.
      let d3 = portsc_assert_bit bus p 4 d2 in
      wait_while (portsc_pr bus p) d3))"

definition is_enabled :: "'d bus \<Rightarrow> u64 \<Rightarrow> 'd \<Rightarrow> bool \<times> 'd" where
  "is_enabled bus p d =
     (let (pp, d1) = portsc_pp bus p d in if \<not> pp then (False, d1) else
      let (ccs, d2) = portsc_ccs bus p d1 in if \<not> ccs then (False, d2) else
      let (ped, d3) = portsc_ped bus p d2 in if \<not> ped then (False, d3) else
      let (pr, d4) = portsc_pr bus p d3 in (\<not> pr, d4))"

definition port_speed_of :: "u32 \<Rightarrow> UsbMode" where
  "port_speed_of portsc =
     (let v = extract_bits portsc 10 4 in
      if v = 1 then FullSpeed else if v = 2 then LowSpeed else if v = 3 then HighSpeed
      else if v = 4 then SuperSpeed else Unknown v)"

definition port_speed :: "'d bus \<Rightarrow> u64 \<Rightarrow> 'd \<Rightarrow> UsbMode \<times> 'd" where
  "port_speed bus p d = (let (v, d') = rd32 bus p d in (port_speed_of v, d'))"

fun max_packet_size_of :: "UsbMode \<Rightarrow> u16 res" where
  "max_packet_size_of FullSpeed = Ok 8"
| "max_packet_size_of LowSpeed = Ok 8"
| "max_packet_size_of HighSpeed = Ok 64"
| "max_packet_size_of SuperSpeed = Ok 512"
| "max_packet_size_of (Unknown _) = Err ''Unknown Protocol Speed ID''"

text \<open>\<^verbatim>\<open>PortSc\<close>: the addresses of the PORTSC registers, ports numbered from 1.\<close>

definition PortSc_new :: "u64 \<Rightarrow> CapabilityRegisters \<Rightarrow> u64 list res" where
  "PortSc_new bar cap =
     (let base = bar + word_of_nat (caplength cap) + 0x400;
          entries = map (\<lambda>port. base + 4 * word_of_nat ((port - 1) * 4)) [1 ..< num_of_ports cap + 1] in
      and_then (assert_that (length entries = num_of_ports cap) ''assertion failed'') (\<lambda>_. Ok entries))"

definition port_range :: "u64 list \<Rightarrow> usize list" where
  "port_range entries = [1 ..< length entries + 1]"

definition portsc_get :: "u64 list \<Rightarrow> usize \<Rightarrow> u64 option" where
  "portsc_get entries port =
     (let i = (port + (2 ^ 64 - 1)) mod 2 ^ 64 in if i < length entries then Some (entries ! i) else None)"

section \<open>Doorbells and the register layout\<close>

record XhcRegisters =
  cap_regs :: CapabilityRegisters
  op_regs :: u64
  rt_regs :: u64
  doorbell_regs :: "u64 list"
  portsc :: "u64 list"

definition doorbell_notify :: "'d bus \<Rightarrow> u64 \<Rightarrow> u8 \<Rightarrow> u16 \<Rightarrow> 'd \<Rightarrow> 'd" where
  "doorbell_notify bus p target task d = wr32 bus p (ucast target OR push_bit 16 (ucast task)) d"

definition setup_xhc_registers :: "u64 \<Rightarrow> CapabilityRegisters \<Rightarrow> XhcRegisters res" where
  "setup_xhc_registers bar cap =
     and_then (PortSc_new bar cap) (\<lambda>ports.
     let num_slots = num_of_ports cap;
         dbs = map (\<lambda>i. bar + word_of_nat (dboff cap) + 4 * word_of_nat i) [0 ..< num_slots + 1] in
     and_then (assert_that (length dbs = 1 + num_slots) ''assertion failed'') (\<lambda>_.
     Ok \<lparr>cap_regs = cap, op_regs = bar + word_of_nat (caplength cap), rt_regs = bar + word_of_nat (rtsoff cap),
         doorbell_regs = dbs, portsc = ports\<rparr>))"

section \<open>Operational registers\<close>

definition STATUS_HC_HALTED :: u32 where "STATUS_HC_HALTED = 1"
definition CMD_RUN_STOP :: u32 where "CMD_RUN_STOP = 1"
definition CMD_HC_RESET :: u32 where "CMD_HC_RESET = 2"

definition USBCMD :: "u64 \<Rightarrow> u64" where "USBCMD op = op + 0x0"
definition USBSTS :: "u64 \<Rightarrow> u64" where "USBSTS op = op + 0x4"
definition PAGESIZE :: "u64 \<Rightarrow> u64" where "PAGESIZE op = op + 0x8"
definition CRCR :: "u64 \<Rightarrow> u64" where "CRCR op = op + 0x18"
definition DCBAAP :: "u64 \<Rightarrow> u64" where "DCBAAP op = op + 0x30"
definition CONFIG :: "u64 \<Rightarrow> u64" where "CONFIG op = op + 0x38"

definition page_size_of :: "u32 \<Rightarrow> usize res" where
  "page_size_of reg =
     (let bits = reg AND 0xFFFF;
          ones = filter (bit bits) [0 ..< 32] in
      if length ones \<noteq> 1 then Err ''PAGE_SIZE has multiple bits set'' else Ok (2 ^ (hd ones + 12)))"

definition set_command_bits :: "'d bus \<Rightarrow> u64 \<Rightarrow> u32 \<Rightarrow> 'd \<Rightarrow> 'd" where
  "set_command_bits bus op bits d = (let (v, d') = rd32 bus (USBCMD op) d in wr32 bus (USBCMD op) (v OR bits) d')"

definition clear_command_bits :: "'d bus \<Rightarrow> u64 \<Rightarrow> u32 \<Rightarrow> 'd \<Rightarrow> 'd" where
  "clear_command_bits bus op bits d =
     (let (v, d') = rd32 bus (USBCMD op) d in wr32 bus (USBCMD op) (v AND NOT bits) d')"

definition reset_xhc :: "'d bus \<Rightarrow> u64 \<Rightarrow> 'd \<Rightarrow> 'd option" where
  "reset_xhc bus op d =
     (let d1 = clear_command_bits bus op CMD_RUN_STOP d in
      Option.bind (wait_while (\<lambda>x. let (v, x') = rd32 bus (USBSTS op) x in (v AND STATUS_HC_HALTED = 0, x')) d1)
        (\<lambda>d2.
         let d3 = set_command_bits bus op CMD_HC_RESET d2 in
         wait_while (\<lambda>x. let (v, x') = rd32 bus (USBCMD op) x in (v AND CMD_HC_RESET \<noteq> 0, x')) d3))"

definition start_xhc :: "'d bus \<Rightarrow> u64 \<Rightarrow> 'd \<Rightarrow> 'd option" where
  "start_xhc bus op d =
     (let d1 = set_command_bits bus op CMD_RUN_STOP d in
      wait_while (\<lambda>x. let (v, x') = rd32 bus (USBSTS op) x in (v AND STATUS_HC_HALTED \<noteq> 0, x')) d1)"

definition set_cmd_ring_ctrl :: "'d bus \<Rightarrow> u64 \<Rightarrow> CommandRing \<Rightarrow> 'd \<Rightarrow> 'd" where
  "set_cmd_ring_ctrl bus op ring d = wr64 bus (CRCR op) (ring_phys_addr ring OR 1) d"

definition set_dcbaa_ptr :: "'d bus \<Rightarrow> u64 \<Rightarrow> u64 \<Rightarrow> 'd \<Rightarrow> 'd" where
  "set_dcbaa_ptr bus op dcbaa d = wr64 bus (DCBAAP op) dcbaa d"

definition set_num_device_slots :: "'d bus \<Rightarrow> u64 \<Rightarrow> usize \<Rightarrow> 'd \<Rightarrow> 'd" where
  "set_num_device_slots bus op num d =
     (let (c, d') = rd64 bus (CONFIG op) d in wr64 bus (CONFIG op) ((c AND NOT 0xFF) OR word_of_nat num) d')"

section \<open>The primary interrupter\<close>

definition init_irs :: "'d bus \<Rightarrow> u64 \<Rightarrow> usize \<Rightarrow> EventRing \<Rightarrow> 'd \<Rightarrow> (EventRing \<times> 'd) res" where
  "init_irs bus rt index er d =
     (if index < 1024
      then (let irs = rt + 0x20 + 0x20 * word_of_nat index;
                d1 = wr32 bus (irs + 0x8) 1 d;
                d2 = wr64 bus (irs + 0x18) (ring_addr (ev_ring er)) d1;
                d3 = wr64 bus (irs + 0x10) (erst_addr er) d2;
                d4 = wr32 bus irs 0 d3 in
            Ok (set_erdp er (ring_addr (ev_ring er)), d4))
      else Err ''Index out of range'')"

end
