(* ===== verification/Xhci.thy ===== *)
theory Xhci
  imports Xhci_Regs First_Fit
begin

text \<open>
  The xHCI controller object (\<^verbatim>\<open>Controller\<close> of \<^verbatim>\<open>xhci.rs\<close>) and the driver's port and device
  initialisation. An \<^verbatim>\<open>async\<close> function runs up to the \<^verbatim>\<open>.await\<close> of an \<^verbatim>\<open>EventFuture\<close>; the
  definition of that part returns the identity of the future, and what happens after the await is a
  function of the event it yields (\<open>transfer_result_ok\<close>, \<open>cmd_result_ok\<close>, \<open>slot_id\<close>). Addresses of
  heap objects made by \<^verbatim>\<open>Box::pin\<close> and \<^verbatim>\<open>IoBox::new\<close> are arguments, except for the scratchpad
  buffers, which come from the allocator directly.
\<close>

section \<open>Scratchpad buffers\<close>

record ScratchpadBuffers =
  scratch_table :: usize
  scratch_bufs :: "usize list"

text \<open>
  \<^verbatim>\<open>slice::from_raw_parts\<close> of a null pointer is undefined behaviour, and
  \<^verbatim>\<open>Box::<[T]>::from(slice)\<close> copies the slice into a new object with the alignment of \<open>T\<close>.
\<close>

definition alloc_and_box :: "heap_state \<Rightarrow> usize \<Rightarrow> usize \<Rightarrow> usize \<Rightarrow> string \<Rightarrow> (usize \<times> heap_state) res option" where
  "alloc_and_box s n align elem_align err =
     (if \<not> layout_ok n align then Some (Err err)
      else and_then_opt (alloc_with_options s n align) (\<lambda>(p, s1).
           if p = 0 then Some UB else box_alloc s1 n elem_align))"

fun alloc_bufs :: "heap_state \<Rightarrow> usize \<Rightarrow> nat \<Rightarrow> (usize list \<times> heap_state) res option" where
  "alloc_bufs s page_size 0 = Some (Ok ([], s))"
| "alloc_bufs s page_size (Suc n) =
     and_then_opt (alloc_and_box s page_size page_size 1 ''could not allocated a scratchpad buffer'') (\<lambda>(b, s1).
     and_then_opt (alloc_bufs s1 page_size n) (\<lambda>(bs, s2). Some (Ok (b # bs, s2))))"

definition ScratchpadBuffers_alloc ::
  "CapabilityRegisters \<Rightarrow> u32 \<Rightarrow> heap_state \<Rightarrow> (ScratchpadBuffers \<times> heap_state) res option" where
  "ScratchpadBuffers_alloc cap pagesize_reg s =
     and_then_opt (Some (page_size_of pagesize_reg)) (\<lambda>page_size.
     let n = max (num_scratchpad_bufs cap) 1 in
     and_then_opt (alloc_and_box s (8 * n) page_size 8 ''cloud not allocate scratchpad buffer table'') (\<lambda>(t, s1).
     and_then_opt (alloc_bufs s1 page_size n) (\<lambda>(bs, s2).
     Some (Ok (\<lparr>scratch_table = t, scratch_bufs = bs\<rparr>, s2)))))"

section \<open>The device context base address array\<close>

record DeviceContextBaseAddressArray =
  dcbaa_addr :: u64
  scratchpad_table_ptr :: u64
  dcbaa_ptrs :: "u64 list"
  dcbaa_context :: "u64 option list"

definition DCBAA_new :: "u64 \<Rightarrow> ScratchpadBuffers \<Rightarrow> DeviceContextBaseAddressArray" where
  "DCBAA_new addr sb = \<lparr>dcbaa_addr = addr, scratchpad_table_ptr = word_of_nat (scratch_table sb),
     dcbaa_ptrs = replicate 255 0, dcbaa_context = replicate 255 None\<rparr>"

definition set_output_context ::
  "DeviceContextBaseAddressArray \<Rightarrow> u8 \<Rightarrow> u64 \<Rightarrow> DeviceContextBaseAddressArray res" where
  "set_output_context a slot ctx =
     and_then (sub_u (unat slot) 1) (\<lambda>i.
     if i < length (dcbaa_context a)
     then (let own = (dcbaa_context a)[i := Some ctx] in
           and_then (expect_some (own ! i) ''Output Context was None'') (\<lambda>p.
           if i < length (dcbaa_ptrs a)
           then Ok (a\<lparr>dcbaa_context := own, dcbaa_ptrs := (dcbaa_ptrs a)[i := p]\<rparr>)
           else Panic ''index out of bounds''))
     else Panic ''index out of bounds'')"

section \<open>The controller\<close>

record 'd Controller =
  xregs :: XhcRegisters
  device_context_base_array :: DeviceContextBaseAddressArray
  primary_event_ring :: EventRing
  command_ring :: CommandRing
  xdev :: 'd

definition init_primary_event_ring :: "'d bus \<Rightarrow> 'd Controller \<Rightarrow> 'd Controller res" where
  "init_primary_event_ring bus xhc =
     and_then (init_irs bus (rt_regs (xregs xhc)) 0 (primary_event_ring xhc) (xdev xhc)) (\<lambda>(er, d).
     Ok (xhc\<lparr>primary_event_ring := er, xdev := d\<rparr>))"

definition init_command_ring :: "'d bus \<Rightarrow> 'd Controller \<Rightarrow> 'd Controller" where
  "init_command_ring bus xhc =
     xhc\<lparr>xdev := set_cmd_ring_ctrl bus (op_regs (xregs xhc)) (command_ring xhc) (xdev xhc)\<rparr>"

definition init_slots_and_contexts :: "'d bus \<Rightarrow> 'd Controller \<Rightarrow> 'd Controller res" where
  "init_slots_and_contexts bus xhc =
     (let op = op_regs (xregs xhc);
          d1 = set_num_device_slots bus op (num_of_device_slots (cap_regs (xregs xhc))) (xdev xhc);
          d2 = set_dcbaa_ptr bus op (dcbaa_addr (device_context_base_array xhc)) d1 in
      Ok (xhc\<lparr>xdev := d2\<rparr>))"

text \<open>\<open>dcbaa\<close>, \<open>ev\<close>, \<open>erst\<close> and \<open>cmd\<close> are the addresses of the boxed objects.\<close>

definition Controller_new :: "'d bus \<Rightarrow> XhcRegisters \<Rightarrow> u64 \<Rightarrow> u64 \<Rightarrow> u64 \<Rightarrow> u64 \<Rightarrow> heap_state \<Rightarrow> 'd \<Rightarrow>
    ('d Controller \<times> heap_state) res option" where
  "Controller_new bus regs dcbaa ev erst cmd s d =
     Option.bind (reset_xhc bus (op_regs regs) d) (\<lambda>d1.
     let (psz, d2) = rd32 bus (PAGESIZE (op_regs regs)) d1 in
     and_then_opt (ScratchpadBuffers_alloc (cap_regs regs) psz s) (\<lambda>(sb, s1).
     and_then_opt (Some (EventRing_new ev erst)) (\<lambda>er.
     and_then_opt (Some (CommandRing_default cmd)) (\<lambda>cr.
     let xhc = \<lparr>xregs = regs, device_context_base_array = DCBAA_new dcbaa sb, primary_event_ring = er,
                command_ring = cr, xdev = d2\<rparr> in
     and_then_opt (Some (init_primary_event_ring bus xhc)) (\<lambda>xhc.
     and_then_opt (Some (init_slots_and_contexts bus xhc)) (\<lambda>xhc.
     let xhc = init_command_ring bus xhc in
     Option.bind (start_xhc bus (op_regs regs) (xdev xhc)) (\<lambda>d3.
     Some (Ok (xhc\<lparr>xdev := d3\<rparr>, s1)))))))))"

definition notify_xhc :: "'d bus \<Rightarrow> 'd Controller \<Rightarrow> 'd Controller res" where
  "notify_xhc bus xhc =
     (case doorbell_regs (xregs xhc) of [] \<Rightarrow> Panic ''index out of bounds''
      | db # _ \<Rightarrow> Ok (xhc\<lparr>xdev := doorbell_notify bus db 0 0 (xdev xhc)\<rparr>))"

definition notify_ep :: "'d bus \<Rightarrow> 'd Controller \<Rightarrow> u8 \<Rightarrow> usize \<Rightarrow> 'd Controller res" where
  "notify_ep bus xhc slot dci =
     (let dbs = doorbell_regs (xregs xhc) in
      and_then (ok_or (if unat slot < length dbs then Some (dbs ! unat slot) else None) ''Invalid slot'') (\<lambda>db.
      and_then (if dci < 2 ^ 8 then Ok (word_of_nat dci :: u8) else Err ''Invalid dci'') (\<lambda>t.
      Ok (xhc\<lparr>xdev := doorbell_notify bus db t 0 (xdev xhc)\<rparr>))))"

definition set_output_context_for_slot :: "'d Controller \<Rightarrow> u8 \<Rightarrow> u64 \<Rightarrow> 'd Controller res" where
  "set_output_context_for_slot xhc slot ctx =
     and_then (set_output_context (device_context_base_array xhc) slot ctx) (\<lambda>a.
     Ok (xhc\<lparr>device_context_base_array := a\<rparr>))"

text \<open>\<^verbatim>\<open>EventFuture::new_for_trb(&self.primary_event_ring, ptr)\<close>.\<close>

definition await_trb :: "'d Controller \<Rightarrow> u64 \<Rightarrow> nat \<times> 'd Controller" where
  "await_trb xhc ptr =
     (let (i, er) = EventFuture_new_for_trb (primary_event_ring xhc) ptr in
      (i, xhc\<lparr>primary_event_ring := er\<rparr>))"

definition send_command :: "'d bus \<Rightarrow> 'd Controller \<Rightarrow> GenericTrbEntry \<Rightarrow> (nat \<times> 'd Controller) res" where
  "send_command bus xhc cmd =
     and_then (push (command_ring xhc) cmd) (\<lambda>(cmd_ptr, cr).
     and_then (notify_xhc bus (xhc\<lparr>command_ring := cr\<rparr>)) (\<lambda>xhc.
     Ok (await_trb xhc cmd_ptr)))"

section \<open>Control transfers\<close>

datatype UsbDescriptorType = DescDevice | DescConfig | DescString | DescInterface | DescEndpoint | DescReport

fun desc_type_code :: "UsbDescriptorType \<Rightarrow> u8" where
  "desc_type_code DescDevice = 1"
| "desc_type_code DescConfig = 2"
| "desc_type_code DescString = 3"
| "desc_type_code DescInterface = 4"
| "desc_type_code DescEndpoint = 5"
| "desc_type_code DescReport = 0x22"

text \<open>
  The shape of a request with an IN data stage: setup, data, status, doorbell of the control
  endpoint, and a wait for the event of the data stage.
\<close>

definition control_in :: "'d bus \<Rightarrow> 'd Controller \<Rightarrow> u8 \<Rightarrow> CommandRing \<Rightarrow> SetupStageTrb \<Rightarrow> u64 \<Rightarrow> usize \<Rightarrow>
    (nat \<times> CommandRing \<times> 'd Controller) res" where
  "control_in bus xhc slot ring setup buf len =
     and_then (push ring (trb_from_setup setup)) (\<lambda>(_, ring).
     and_then (push ring (DataStageTrb_new_in buf len)) (\<lambda>(trb_ptr_waiting, ring).
     and_then (push ring StatusStageTrb_new_out) (\<lambda>(_, ring).
     and_then (notify_ep bus xhc slot 1) (\<lambda>xhc.
     let (i, xhc) = await_trb xhc trb_ptr_waiting in Ok (i, ring, xhc)))))"

text \<open>A request without a data stage waits for the event of its status stage.\<close>

definition control_no_data :: "'d bus \<Rightarrow> 'd Controller \<Rightarrow> u8 \<Rightarrow> CommandRing \<Rightarrow> SetupStageTrb \<Rightarrow>
    (nat \<times> CommandRing \<times> 'd Controller) res" where
  "control_no_data bus xhc slot ring setup =
     and_then (push ring (trb_from_setup setup)) (\<lambda>(_, ring).
     and_then (push ring StatusStageTrb_new_in) (\<lambda>(trb_ptr_waiting, ring).
     and_then (notify_ep bus xhc slot 1) (\<lambda>xhc.
     let (i, xhc) = await_trb xhc trb_ptr_waiting in Ok (i, ring, xhc))))"

definition desc_value :: "UsbDescriptorType \<Rightarrow> u8 \<Rightarrow> u16" where
  "desc_value ty idx = push_bit 8 (ucast (desc_type_code ty)) OR ucast idx"

definition request_descriptor where
  "request_descriptor bus xhc slot ring ty idx lang_id buf len =
     control_in bus xhc slot ring
       (SetupStageTrb_new REQ_TYPE_DIR_DEVICE_TO_HOST REQ_GET_DESCRIPTOR (desc_value ty idx) lang_id (word_of_nat len))
       buf len"

definition request_report_bytes where
  "request_report_bytes bus xhc slot ring buf len =
     control_in bus xhc slot ring
       (SetupStageTrb_new (REQ_TYPE_DIR_DEVICE_TO_HOST OR REQ_TYPE_TYPE_CLASS OR REQ_TYPE_TO_INTERFACE)
          REQ_GET_REPORT 0x0200 0 (word_of_nat len))
       buf len"

definition request_set_config where
  "request_set_config bus xhc slot ring config_value =
     control_no_data bus xhc slot ring (SetupStageTrb_new 0 REQ_SET_CONFIGURATION (ucast (config_value :: u8)) 0 0)"

definition request_set_interface where
  "request_set_interface bus xhc slot ring interface_number alt_setting =
     control_no_data bus xhc slot ring
       (SetupStageTrb_new REQ_TYPE_TO_INTERFACE REQ_SET_INTERFACE (ucast (alt_setting :: u8))
          (ucast (interface_number :: u8)) 0)"

definition request_set_protocol where
  "request_set_protocol bus xhc slot ring interface_number protocol =
     control_no_data bus xhc slot ring
       (SetupStageTrb_new REQ_TYPE_TO_INTERFACE REQ_SET_PROTOCOL (ucast (protocol :: u8))
          (ucast (interface_number :: u8)) 0)"

definition request_descriptor_for_interface where
  "request_descriptor_for_interface bus xhc slot ring ty idx w_index buf len =
     control_in bus xhc slot ring
       (SetupStageTrb_new (REQ_TYPE_DIR_DEVICE_TO_HOST OR REQ_TYPE_TO_INTERFACE) REQ_GET_DESCRIPTOR
          (desc_value ty idx) w_index (word_of_nat len))
       buf len"

section \<open>Ports and devices\<close>

definition VDI_LIST :: "(u16 \<times> u16) list" where
  "VDI_LIST = [(0x1b36, 0x000d), (0x8086, 0x31a8), (0x8086, 0x02ed)]"

definition PciXhciDriver_supports :: "u16 \<times> u16 \<Rightarrow> bool" where
  "PciXhciDriver_supports vd \<longleftrightarrow> vd \<in> set VDI_LIST"

text \<open>The scan of \<^verbatim>\<open>run\<close>: it reads each port twice (for the log and for \<^verbatim>\<open>ccs\<close>) and keeps the last connected one.\<close>

fun scan_ports :: "'d bus \<Rightarrow> u64 list \<Rightarrow> usize list \<Rightarrow> usize option \<Rightarrow> 'd \<Rightarrow> usize option \<times> 'd" where
  "scan_ports bus es [] found d = (found, d)"
| "scan_ports bus es (port # ports) found d =
     (case portsc_get es port of None \<Rightarrow> scan_ports bus es ports found d
      | Some p \<Rightarrow>
          (let d1 = snd (rd32 bus p d);
               (b, d2) = portsc_ccs bus p d1 in
           scan_ports bus es ports (if b then Some port else found) d2))"

text \<open>\<^verbatim>\<open>init_port\<close> up to its await: \<open>None\<close> when the port never leaves reset.\<close>

definition init_port :: "'d bus \<Rightarrow> 'd Controller \<Rightarrow> usize \<Rightarrow> (nat \<times> 'd Controller) res option" where
  "init_port bus xhc port =
     and_then_opt (Some (ok_or (portsc_get (portsc (xregs xhc)) port) ''invalid portsc'')) (\<lambda>p.
     Option.bind (reset_port bus p (xdev xhc)) (\<lambda>d1.
     let (en, d2) = is_enabled bus p d1 in
     and_then_opt (Some (if en then Ok () else Err ''port is not enabled'')) (\<lambda>_.
     and_then_opt (Some cmd_enable_slot) (\<lambda>cmd.
     Some (send_command bus (xhc\<lparr>xdev := d2\<rparr>) cmd)))))"

text \<open>
  \<^verbatim>\<open>address_device\<close> up to its await, with the addresses of the output context, of the control
  ring and of the input context. The port register is read for the speed and again for the packet
  size.
\<close>

definition address_input_context :: "usize \<Rightarrow> InputContext res" where
  "address_input_context port =
     and_then (add_context 0 InputControlContext_default) (\<lambda>c0.
     and_then (add_context 1 c0) (\<lambda>c.
     and_then (set_input_ctrl_ctx c InputContext_default) (\<lambda>ic.
     and_then (set_root_hub_port_number port ic) (set_last_valid_dci 1))))"

definition address_endpoint :: "'d bus \<Rightarrow> u64 \<Rightarrow> u64 \<Rightarrow> InputContext \<Rightarrow> 'd \<Rightarrow>
    (CommandRing \<times> InputContext \<times> 'd) res" where
  "address_endpoint bus p addr ic d =
     (let (speed, d1) = port_speed bus p d in
      and_then (set_port_speed speed ic) (\<lambda>ic1.
      and_then (CommandRing_default addr) (\<lambda>ring.
      let (speed2, d2) = port_speed bus p d1 in
      and_then (max_packet_size_of speed2) (\<lambda>mps.
      and_then (new_control_endpoint mps (ring_phys_addr ring)) (\<lambda>ep.
      and_then (set_ep_ctx 1 ep ic1) (\<lambda>ic2. Ok (ring, ic2, d2)))))))"

definition address_device :: "'d bus \<Rightarrow> 'd Controller \<Rightarrow> usize \<Rightarrow> u8 \<Rightarrow> u64 \<Rightarrow> u64 \<Rightarrow> u64 \<Rightarrow>
    (nat \<times> CommandRing \<times> InputContext \<times> 'd Controller) res" where
  "address_device bus xhc port slot out_ctx addr in_ctx =
     and_then (set_output_context_for_slot xhc slot out_ctx) (\<lambda>xhc1.
     and_then (address_input_context port) (\<lambda>ic.
     and_then (ok_or (portsc_get (portsc (xregs xhc1)) port) ''PORTSC was invalid'') (\<lambda>p.
     and_then (address_endpoint bus p addr ic (xdev xhc1)) (\<lambda>(ring, ic1, d).
     and_then (cmd_address_device in_ctx slot) (\<lambda>cmd.
     and_then (send_command bus (xhc1\<lparr>xdev := d\<rparr>) cmd) (\<lambda>(i, xhc2).
     Ok (i, ring, ic1, xhc2)))))))"

end
