(* ===== verification/Xhci_Theorems.thy ===== *)
theory Xhci_Theorems
  imports Xhci Heap_Theorems
begin

text \<open>
  The properties of the xHCI driver: the order of commands and events on the rings, delivery of an
  event to the future that waits for it, the shape of control transfers, the contexts of a new
  device, and the register layout.
\<close>

section \<open>Rings\<close>

lemma push_all_spec:
  assumes "ring_inv cr h0" "\<forall>t \<in> set h. ty_of t \<noteq> trb_type_code Link"
  shows "\<exists>cr'. push_all cr h = Ok (map (slot_addr cr) [length h0 ..< length h0 + length h], cr') \<and>
    ring_inv cr' (h0 @ h)"
  using assms
proof (induction h arbitrary: cr h0)
  case (Cons t h)
  obtain cr1 where cr1: "push cr t = Ok (slot_addr cr (length h0), cr1)" "ring_inv cr1 (h0 @ [t])"
      "slot_addr cr1 = slot_addr cr"
    using command_ring.enq_ok [OF Cons.prems(1), of t] Cons.prems(2) by auto
  obtain cr2 where "push_all cr1 h = Ok (map (slot_addr cr1) [Suc (length h0) ..< Suc (length h0) + length h], cr2)"
      "ring_inv cr2 ((h0 @ [t]) @ h)"
    using Cons.IH [OF cr1(2)] Cons.prems(2) unfolding length_append_singleton by (metis list.set_intros(2))
  moreover have "[length h0 ..< length h0 + length (t # h)] = length h0 # [Suc (length h0) ..< Suc (length h0) + length h]"
    by (subst upt_conv_Cons) simp_all
  ultimately show ?case using cr1 by simp
qed simp

definition demo_trb :: "nat \<Rightarrow> GenericTrbEntry" where
  "demo_trb n = \<lparr>trb_data = word_of_nat n, trb_option = 0, trb_control = 0x2400\<rparr>"

lemma demo_trb_type: "ty_of (demo_trb n) = 9"
  by (simp add: demo_trb_def ty_of_def get_field_def)



text \<open>
  The test for a full command ring never fires: every push onto a ring that was
  only pushed to succeeds, and after sixteen pushes that the controller has not looked at, it finds
  the ring empty although sixteen commands were accepted.
\<close>

theorem command_ring_full_not_detected:
  assumes "\<forall>t \<in> set h. ty_of t \<noteq> trb_type_code Link" "length h = 16"
  shows "\<exists>cr0 ps cr. CommandRing_default addr = Ok cr0 \<and> push_all cr0 h = Ok (ps, cr) \<and> length ps = 16 \<and>
    hw_fetch (ring_trb (cmd_ring cr)) (hw_pos 0) = None"
proof -
  obtain cr0 where cr0: "CommandRing_default addr = Ok cr0" "ring_inv cr0 []"
    using CommandRing_default_inv by blast
  obtain cr where cr: "push_all cr0 h = Ok (map (slot_addr cr0) [0 ..< 16], cr)" "ring_inv cr h"
    using push_all_spec [OF cr0(2) assms(1)] assms(2) by auto
  have "ring_trb (cmd_ring cr) ! 0 = slot_trb h 0" using cr(2) by (simp add: ring_inv_def)
  then have "\<not> cyc (ring_trb (cmd_ring cr) ! 0)" using slot_trb_cyc [of 0 h] assms(2) by simp
  then show ?thesis using cr0(1) cr(1) by (simp add: hw_pos_def)
qed

theorem command_ring_full_not_detected_witness:
  "\<exists>cr0 ps cr. CommandRing_default 0x8000 = Ok cr0 \<and> push_all cr0 (map demo_trb [0 ..< 16]) = Ok (ps, cr) \<and>
    length ps = 16 \<and> hw_fetch (ring_trb (cmd_ring cr)) (hw_pos 0) = None"
  using command_ring_full_not_detected [of "map demo_trb [0 ..< 16]" "0x8000"] by (simp add: demo_trb_type)

text \<open>
  The life of the event ring: the controller posts, the kernel pops, futures come and go, and the
  controller may change the flag bits of the dequeue register.
\<close>

inductive event_run :: "EventRing \<Rightarrow> GenericTrbEntry list \<Rightarrow> GenericTrbEntry list \<Rightarrow> bool" where
  start: "EventRing_new addr erst = Ok er \<Longrightarrow> event_run (set_erdp er reg) [] []"
| post: "event_run er h q \<Longrightarrow> length h < length q + 16 \<Longrightarrow> event_run (hw_post er (length h) e) (h @ [e]) q"
| pop: "event_run er h q \<Longrightarrow> ev_pop er = Ok (Some e, er') \<Longrightarrow> event_run er' h (q @ [e])"
| waiters: "event_run er h q \<Longrightarrow> event_run (er\<lparr>wait_list := ws, next_wait_id := n\<rparr>) h q"
| flags: "event_run er h q \<Longrightarrow> event_run (er\<lparr>erdp := Some reg\<rparr>) h q"

inductive_cases event_runE: "event_run er h q"

lemma event_run_inv:
  "event_run er h q \<Longrightarrow> event_inv er h (length q) \<and>
     (\<forall>i < length q. q ! i = with_cyc (even (i div 16)) (h ! i))"
proof (induction rule: event_run.induct)
  case (start addr erst er reg)
  then show ?case using event_inv_start [of addr erst reg] by auto
next
  case (post er h q e)
  then have "length q \<le> length h" by (simp add: event_inv_def)
  then show ?case using post event_inv_post by (auto simp: nth_append)
next
  case (pop er h q e er')
  then have inv: "event_inv er h (length q)" by simp
  have "length q \<noteq> length h" using ev_pop_spec [OF inv] pop.hyps(2) by auto
  then have "e = with_cyc (even (length q div 16)) (h ! length q)" "event_inv er' h (Suc (length q))"
    using ev_pop_spec [OF inv] pop.hyps(2) by auto
  then show ?case using pop.IH by (auto simp: nth_append less_Suc_eq)
next
  case (waiters er h q ws n)
  then show ?case by (simp add: event_inv_def)
next
  case (flags er h q reg)
  then show ?case by (simp add: event_inv_def)
qed

text \<open>
  Property C14 (safety). Events are neither lost, duplicated nor reordered: in every run, the events
  that the kernel has popped are the first ones the controller posted, in order (up to the cycle
  bit), and a further pop returns the next posted event, or nothing exactly when all are consumed.
\<close>

theorem event_ring_in_order:
  assumes "event_run er posted popped"
  shows "length popped \<le> length posted \<and>
    (\<forall>i < length popped. popped ! i = with_cyc (even (i div 16)) (posted ! i)) \<and>
    (if length popped = length posted then ev_pop er = Ok (None, er)
     else \<exists>er'. ev_pop er = Ok (Some (with_cyc (even (length popped div 16)) (posted ! length popped)), er'))"
proof -
  have inv: "event_inv er posted (length popped)" using event_run_inv [OF assms] by simp
  then have "length popped \<le> length posted" by (simp add: event_inv_def)
  then show ?thesis using event_run_inv [OF assms] ev_pop_spec [OF inv] by auto
qed

theorem event_ring_in_order_witness:
  "\<exists>er er'. event_run er [demo_trb 7] [] \<and> ev_pop er = Ok (Some (with_cyc True (demo_trb 7)), er')"
proof -
  obtain er where "event_run er [] []"
    using event_run.start event_inv_start by meson
  then have "event_run (hw_post er 0 (demo_trb 7)) [demo_trb 7] []" using event_run.post [of er "[]" "[]"] by simp
  then show ?thesis using event_ring_in_order [of "hw_post er 0 (demo_trb 7)" "[demo_trb 7]" "[]"] by auto
qed


section \<open>Delivery to futures\<close>

text \<open>\<open>awaiting er i a q\<close>: future \<open>i\<close> waits for the TRB at \<open>a\<close> and \<open>q\<close> are the events it has not taken.\<close>

definition awaiting :: "EventRing \<Rightarrow> nat \<Rightarrow> u64 \<Rightarrow> GenericTrbEntry list \<Rightarrow> bool" where
  "awaiting er i a q \<longleftrightarrow> (\<exists>ws1 ws2. wait_list er =
     ws1 @ \<lparr>wait_id = i, wait_cond = EventWaitCond_default\<lparr>cond_trb_addr := Some a\<rparr>, wait_trbs = q, wait_alive = True\<rparr> # ws2 \<and>
     i \<notin> wait_id ` set ws1)"

definition waiters_ok :: "EventRing \<Rightarrow> bool" where
  "waiters_ok er \<longleftrightarrow> (\<forall>w \<in> set (wait_list er). wait_id w < next_wait_id er)"

lemma ev_pop_waiters: "ev_pop er = Ok (r, er') \<Longrightarrow> wait_list er' = wait_list er \<and> next_wait_id er' = next_wait_id er"
  by (auto simp: ev_pop_def res_simps split: if_splits)

lemma give_simps [simp]: "wait_id (give e w) = wait_id w" "wait_alive (give e w) = wait_alive w"
  by (simp_all add: give_def resolve_def)

lemma awaiting_poll:
  assumes "awaiting er i a q" "ev_pop er = Ok (Some e, er1)"
  shows "\<exists>er2. ev_poll er = Ok er2 \<and> awaiting er2 i a (q @ (if trb_data e = a then [e] else []))"
proof -
  obtain ws1 ws2 where ws: "wait_list er1 = ws1 @ \<lparr>wait_id = i,
      wait_cond = EventWaitCond_default\<lparr>cond_trb_addr := Some a\<rparr>, wait_trbs = q, wait_alive = True\<rparr> # ws2"
      "i \<notin> wait_id ` set ws1"
    using assms(1) ev_pop_waiters [OF assms(2)] by (auto simp: awaiting_def)
  let ?f = "\<lambda>ws. filter wait_alive (map (give e) ws)"
  have "ev_poll er = Ok (er1\<lparr>wait_list := ?f (wait_list er1)\<rparr>)"
    using assms(2) by (simp add: ev_poll_eq)
  moreover have "give e \<lparr>wait_id = i, wait_cond = EventWaitCond_default\<lparr>cond_trb_addr := Some a\<rparr>, wait_trbs = q,
      wait_alive = True\<rparr> = \<lparr>wait_id = i, wait_cond = EventWaitCond_default\<lparr>cond_trb_addr := Some a\<rparr>,
      wait_trbs = q @ (if trb_data e = a then [e] else []), wait_alive = True\<rparr>"
    by (simp add: give_def matched_def resolve_def EventWaitCond_default_def)
  moreover have "i \<notin> wait_id ` set (?f ws1)" using ws(2) by auto
  ultimately show ?thesis using ws(1) unfolding awaiting_def
    by (intro exI [of _ "er1\<lparr>wait_list := ?f (wait_list er1)\<rparr>"] conjI exI [of _ "?f ws1"] exI [of _ "?f ws2"]) simp_all
qed

lemma pop_waiter_skip:
  "i \<notin> wait_id ` set ws \<Longrightarrow> pop_waiter i (ws @ ws') = (fst (pop_waiter i ws'), ws @ snd (pop_waiter i ws'))"
  by (induction ws) (auto simp: case_prod_beta)

lemma awaiting_take:
  assumes "awaiting er i a q"
  shows "case q of [] \<Rightarrow> EventFuture_poll i er = (None, er)
    | t # ts \<Rightarrow> \<exists>er'. EventFuture_poll i er = (Some t, er') \<and> awaiting er' i a ts"
proof -
  obtain ws1 ws2 where ws: "wait_list er = ws1 @ \<lparr>wait_id = i,
      wait_cond = EventWaitCond_default\<lparr>cond_trb_addr := Some a\<rparr>, wait_trbs = q, wait_alive = True\<rparr> # ws2"
      "i \<notin> wait_id ` set ws1"
    using assms by (auto simp: awaiting_def)
  show ?thesis
  proof (cases q)
    case Nil
    then show ?thesis using ws by (simp add: EventFuture_poll_def pop_waiter_skip flip: ws(1))
  next
    case (Cons t ts)
    then show ?thesis using ws by (auto simp: EventFuture_poll_def pop_waiter_skip awaiting_def)
  qed
qed

lemma awaiting_new:
  assumes "waiters_ok er"
  shows "\<exists>er1. EventFuture_new_for_trb er a = (next_wait_id er, er1) \<and> awaiting er1 (next_wait_id er) a [] \<and>
    waiters_ok er1 \<and> ev_ring er1 = ev_ring er \<and> ev_cycle_ours er1 = ev_cycle_ours er \<and> erdp er1 = erdp er"
proof -
  let ?w = "\<lparr>wait_id = next_wait_id er, wait_cond = EventWaitCond_default\<lparr>cond_trb_addr := Some a\<rparr>,
      wait_trbs = [], wait_alive = True\<rparr>"
  let ?er1 = "er\<lparr>next_wait_id := Suc (next_wait_id er), wait_list := wait_list er @ [?w]\<rparr>"
  have "EventFuture_new_for_trb er a = (next_wait_id er, ?er1)"
    by (simp add: EventFuture_new_for_trb_def EventFuture_new_def register_waiter_def Let_def)
  moreover have "awaiting ?er1 (next_wait_id er) a []"
    unfolding awaiting_def using assms
    by (intro exI [of _ "wait_list er"] exI [of _ "[]"]) (auto simp: waiters_ok_def)
  moreover have "waiters_ok ?er1" using assms by (auto simp: waiters_ok_def)
  ultimately show ?thesis by simp
qed

text \<open>A round of the event task: pop and deliver. Rounds that find no event change nothing.\<close>

fun poll_rounds :: "EventRing \<Rightarrow> nat \<Rightarrow> EventRing res" where
  "poll_rounds er 0 = Ok er"
| "poll_rounds er (Suc n) = and_then (ev_poll er) (\<lambda>er'. poll_rounds er' n)"

lemma ev_poll_inv:
  assumes "event_inv er h c" "c < length h" "awaiting er i a q"
  shows "\<exists>er2. ev_poll er = Ok er2 \<and> event_inv er2 h (Suc c) \<and>
    awaiting er2 i a (q @ (if trb_data (h ! c) = a then [with_cyc (even (c div 16)) (h ! c)] else []))"
proof -
  obtain er1 where er1: "ev_pop er = Ok (Some (with_cyc (even (c div 16)) (h ! c)), er1)" "event_inv er1 h (Suc c)"
    using ev_pop_spec [OF assms(1)] assms(2) by auto
  obtain er2 where er2: "ev_poll er = Ok er2"
      "awaiting er2 i a (q @ (if trb_data (h ! c) = a then [with_cyc (even (c div 16)) (h ! c)] else []))"
    using awaiting_poll [OF assms(3) er1(1)] by (auto simp: trb_simps)
  have "event_inv er2 h (Suc c)" using er2(1) er1 by (auto simp: ev_poll_eq event_inv_def)
  then show ?thesis using er2 by blast
qed

lemma poll_rounds_spec:
  assumes "event_inv er h c" "c + n \<le> length h" "awaiting er i a q"
  shows "\<exists>er'. poll_rounds er n = Ok er' \<and> awaiting er' i a
    (q @ [with_cyc (even (j div 16)) (h ! j). j \<leftarrow> [c ..< c + n], trb_data (h ! j) = a])"
  using assms
proof (induction n arbitrary: er c q)
  case (Suc n)
  obtain er2 where er2: "ev_poll er = Ok er2" "event_inv er2 h (Suc c)"
      "awaiting er2 i a (q @ (if trb_data (h ! c) = a then [with_cyc (even (c div 16)) (h ! c)] else []))"
    using ev_poll_inv [OF Suc.prems(1) _ Suc.prems(3)] Suc.prems(2) by auto
  have "[c ..< c + Suc n] = c # [Suc c ..< Suc c + n]" by (subst upt_conv_Cons) simp_all
  then show ?case using Suc.IH [OF er2(2) _ er2(3)] er2(1) Suc.prems(2) by auto
qed simp



definition demo_bus :: "unit bus" where
  "demo_bus = \<lparr>rd32 = \<lambda>a d. (0, d), wr32 = \<lambda>a v d. d, rd64 = \<lambda>a d. (0, d), wr64 = \<lambda>a v d. d\<rparr>"

definition demo_regs :: XhcRegisters where
  "demo_regs = \<lparr>cap_regs = \<lparr>cap_caplength = 0x40, cap_hcsparams1 = 0x08001040, cap_hcsparams2 = 0,
     cap_dboff = 0x2000, cap_rtsoff = 0x1000\<rparr>, op_regs = 0xF0000040, rt_regs = 0xF0001000,
     doorbell_regs = [0xF0002000, 0xF0002004], portsc = [0xF0000440]\<rparr>"

lemma demo_xhc:
  "\<exists>xhc :: unit Controller. ring_inv (command_ring xhc) [] \<and> ring_phys_addr (command_ring xhc) = 0x8000 \<and>
    xregs xhc = demo_regs \<and> waiters_ok (primary_event_ring xhc) \<and>
    event_inv (primary_event_ring xhc) [demo_trb 0x8000] 0"
proof -
  obtain cr where cr: "ring_inv cr []" "ring_phys_addr cr = 0x8000" using CommandRing_default_inv by blast
  obtain er where er: "EventRing_new 0x9000 0xA000 = Ok er" "event_inv (set_erdp er 0x9000) [] 0"
    using event_inv_start by blast
  have "wait_list er = []" using er(1) by (auto simp: EventRing_new_def EventRingSegmentTableEntry_new_def
      num_trbs_def NUM_TRB_def Let_def)
  then have "waiters_ok (hw_post (set_erdp er 0x9000) 0 (demo_trb 0x8000))"
    by (simp add: waiters_ok_def hw_post_def set_erdp_def)
  moreover have "event_inv (hw_post (set_erdp er 0x9000) 0 (demo_trb 0x8000)) [demo_trb 0x8000] 0"
    using event_inv_post [OF er(2), of "demo_trb 0x8000"] by simp
  ultimately show ?thesis
    using cr by (intro exI [of _ "\<lparr>xregs = demo_regs, device_context_base_array = DCBAA_new 0 \<lparr>scratch_table = 0, scratch_bufs = []\<rparr>,
        primary_event_ring = hw_post (set_erdp er 0x9000) 0 (demo_trb 0x8000), command_ring = cr, xdev = ()\<rparr>"]) simp
qed


section \<open>Control transfers\<close>

lemma control_types:
  "ty_of (trb_from_setup (SetupStageTrb_new a b v i l)) = trb_type_code SetupStage"
  "ty_of (DataStageTrb_new_in buf len) = trb_type_code DataStage"
  "ty_of StatusStageTrb_new_out = trb_type_code StatusStage"
  "ty_of StatusStageTrb_new_in = trb_type_code StatusStage"
  by (simp_all add: ty_of_def trb_from_setup_def SetupStageTrb_new_def Let_def DataStageTrb_new_in_def
      StatusStageTrb_new_out_def StatusStageTrb_new_in_def get_field_def CTRL_BIT_IMMEDIATE_DATA_def
      CTRL_BIT_DATA_DIR_IN_def CTRL_BIT_INTERRUPT_ON_COMPLETION_def CTRL_BIT_INTERRUPT_ON_SHORT_PACKET_def)

lemma notify_ep_eq:
  "notify_ep bus xhc slot (Suc 0) =
     (if unat slot < length (doorbell_regs (xregs xhc))
      then Ok (xhc\<lparr>xdev := wr32 bus (doorbell_regs (xregs xhc) ! unat slot) 1 (xdev xhc)\<rparr>)
      else Err ''Invalid slot'')"
  by (simp add: notify_ep_def Let_def doorbell_notify_def)

text \<open>
  Property C16 (functional). A control request with a data stage puts exactly its setup, data and
  status TRBs on the endpoint's ring, in this order, rings the doorbell of the slot with the control
  endpoint's index, and waits for the event of the data TRB; for a slot without a doorbell it reports
  the error instead.
\<close>

theorem control_in_stages:
  fixes rt rq :: u8 and v ix ln :: u16
  assumes "ring_inv ring h" "waiters_ok (primary_event_ring xhc)"
  defines "setup \<equiv> SetupStageTrb_new rt rq v ix ln"
  shows "if unat slot < length (doorbell_regs (xregs xhc))
    then \<exists>i ring' xhc'. control_in bus xhc slot ring setup buf len = Ok (i, ring', xhc') \<and>
      ring_inv ring' (h @ [trb_from_setup setup, DataStageTrb_new_in buf len, StatusStageTrb_new_out]) \<and>
      xdev xhc' = wr32 bus (doorbell_regs (xregs xhc) ! unat slot) 1 (xdev xhc) \<and>
      awaiting (primary_event_ring xhc') i (slot_addr ring (Suc (length h))) []
    else control_in bus xhc slot ring setup buf len = Err ''Invalid slot''"
proof -
  have ty: "ty_of (trb_from_setup setup) \<noteq> trb_type_code Link" "ty_of (DataStageTrb_new_in buf len) \<noteq> trb_type_code Link"
      "ty_of StatusStageTrb_new_out \<noteq> trb_type_code Link"
    by (simp_all add: control_types setup_def)
  obtain r1 r2 r3 where r: "push ring (trb_from_setup setup) = Ok (slot_addr ring (length h), r1)"
      "push r1 (DataStageTrb_new_in buf len) = Ok (slot_addr ring (Suc (length h)), r2)"
      "push r2 StatusStageTrb_new_out = Ok (slot_addr ring (Suc (Suc (length h))), r3)"
      "ring_inv r3 (h @ [trb_from_setup setup, DataStageTrb_new_in buf len, StatusStageTrb_new_out])"
    using command_ring.enq_thrice [OF assms(1) ty] by blast
  show ?thesis
  proof (cases "unat slot < length (doorbell_regs (xregs xhc))")
    case True
    then show ?thesis
      using r awaiting_new [OF assms(2), of "slot_addr ring (Suc (length h))"]
      by (auto simp: control_in_def notify_ep_eq await_trb_def)
  next
    case False
    then show ?thesis using r by (simp add: control_in_def notify_ep_eq)
  qed
qed

theorem control_in_stages_witness:
  "\<exists>xhc ring i ring' xhc'. control_in demo_bus xhc 1 ring (SetupStageTrb_new 0x80 6 0x100 0 18) 0xB000 18 = Ok (i, ring', xhc') \<and>
    ring_inv ring' [trb_from_setup (SetupStageTrb_new 0x80 6 0x100 0 18), DataStageTrb_new_in 0xB000 18, StatusStageTrb_new_out]"
proof -
  obtain xhc :: "unit Controller" where x: "ring_inv (command_ring xhc) []" "xregs xhc = demo_regs"
      "waiters_ok (primary_event_ring xhc)"
    using demo_xhc by blast
  then show ?thesis
    using control_in_stages [OF x(1,3), where slot = 1 and rt = "0x80" and rq = 6 and v = "0x100" and ix = 0 and ln = 18
        and bus = demo_bus and buf = "0xB000" and len = 18]
    by (simp add: demo_regs_def) blast
qed

section \<open>The contexts of a new device\<close>

lemma address_input_context_eq:
  "address_input_context port =
     (if 0 < port \<and> port < 256
      then Ok \<lparr>input_ctrl_ctx = \<lparr>drop_context_bitmap = 0, add_context_bitmap = 3\<rparr>,
               device_ctx = \<lparr>slot_ctx = [0x8000000, push_bit 16 (word_of_nat port), 0, 0, 0, 0, 0, 0],
                             ep_ctx = replicate 31 EndpointContext_new\<rparr>\<rparr>
      else Err ''port out of range'')"
  by (simp add: address_input_context_def add_context_def set_input_ctrl_ctx_def InputControlContext_default_def
      InputContext_default_def set_root_hub_port_number_def set_last_valid_dci_def in_device_def upd_slot_def
      dev_set_root_hub_port_number_def dev_set_last_valid_dci_def DeviceContext_default_def numeral_eq_Suc
      push_bit_Suc)

lemma set_port_speed_lost:
  "set_port_speed mode ic =
     (if psi mode < 16
      then Ok (ic\<lparr>device_ctx := upd_slot 0 0xF00000 0 (device_ctx ic)\<rparr>)
      else Err ''psi out of range'')"
proof -
  have "drop_bit 20 (psi mode) = 0" if "psi mode < 16"
  proof -
    have "unat (psi mode) < 2 ^ 20" using that by (simp add: word_less_nat_alt)
    then have "unat (drop_bit 20 (psi mode)) = 0" unfolding unat_drop_bit_eq by (simp add: drop_bit_eq_div)
    then show ?thesis by (simp only: unsigned_eq_0_iff)
  qed
  then show ?thesis by (simp add: set_port_speed_def in_device_def dev_set_port_speed_def)
qed

text \<open>
  The input context that \<^verbatim>\<open>address_device\<close> builds for a port has the slot and the
  control endpoint added, the root hub port and one context entry in the slot context, and a
  control endpoint context whose dequeue pointer is the new transfer ring with cycle state 1.
\<close>

theorem address_endpoint_fields:
  assumes "0 < port" "port < 256" "address_input_context port = Ok ic"
    and "address_endpoint bus p addr ic d = Ok (ring, ic', d')"
  shows "add_context_bitmap (input_ctrl_ctx ic') = 3 \<and>
    get_field 27 5 (slot_ctx (device_ctx ic') ! 0) = 1 \<and>
    get_field 16 8 (slot_ctx (device_ctx ic') ! 1) = word_of_nat port \<and>
    get_field 3 3 (ep_data1 (ep_ctx (device_ctx ic') ! 0)) = ep_type_code ControlEp \<and>
    tr_dequeue_ptr (ep_ctx (device_ctx ic') ! 0) AND NOT 0b1111 = addr AND NOT 0b1111 \<and>
    bit (tr_dequeue_ptr (ep_ctx (device_ctx ic') ! 0)) 0 \<and>
    ring_inv ring [] \<and> ring_phys_addr ring = addr"
proof -
  obtain sp d1 where sp: "port_speed bus p d = (sp, d1)" by fastforce
  obtain sp2 d2 where sp2: "port_speed bus p d1 = (sp2, d2)" by fastforce
  obtain r where r: "CommandRing_default addr = Ok r" "ring_inv r []" "ring_phys_addr r = addr"
    using CommandRing_default_inv by blast
  obtain mps where mps: "max_packet_size_of sp2 = Ok mps"
    using assms(4) sp sp2 r(1) by (auto simp: address_endpoint_def res_simps)
  obtain ep where ep: "new_control_endpoint mps addr = Ok ep" "get_field 3 3 (ep_data1 ep) = ep_type_code ControlEp"
      "tr_dequeue_ptr ep AND NOT 0b1111 = addr AND NOT 0b1111" "bit (tr_dequeue_ptr ep) 0"
    using new_control_endpoint_eq by blast
  have psi: "psi sp < 16"
    using assms(4) sp by (auto simp: address_endpoint_def set_port_speed_lost res_simps split: if_splits)
  have "take_bit 8 (word_of_nat port) = (word_of_nat port :: u32)"
    using assms(2) by (simp add: take_bit_self_iff unat_of_nat)
  then have "get_field 16 8 (push_bit 16 (word_of_nat port :: u32)) = word_of_nat port"
    using get_put_same [of 8 "word_of_nat port :: u32" 16 0] by (simp add: put_field_def)
  then show ?thesis
    using assms(3,4) sp sp2 r mps ep psi
    by (auto simp: address_endpoint_def address_input_context_eq set_port_speed_lost upd_slot_def
        set_ep_ctx_def sub_u_def get_field_def assms(1,2))
qed


definition demo_port_bus :: "unit bus" where
  "demo_port_bus = demo_bus\<lparr>rd32 := \<lambda>a d. (0xE03, d)\<rparr>"

theorem address_endpoint_fields_witness:
  "\<exists>ic ring ic' d'. address_input_context 5 = Ok ic \<and> address_endpoint demo_port_bus 0xF0000440 0x9000 ic () = Ok (ring, ic', d') \<and>
    get_field 16 8 (slot_ctx (device_ctx ic') ! 1) = 5 \<and> ring_phys_addr ring = 0x9000"
proof -
  obtain ic where ic: "address_input_context 5 = Ok ic" "ep_ctx (device_ctx ic) \<noteq> []"
    by (auto simp: address_input_context_eq)
  have sp: "port_speed demo_port_bus 0xF0000440 () = (HighSpeed, ())"
    by (simp add: port_speed_def demo_port_bus_def port_speed_of_def extract_bits_eq Let_def)
  obtain r where r: "CommandRing_default 0x9000 = Ok r" using CommandRing_default_inv by blast
  obtain ep where ep: "new_control_endpoint 64 (ring_phys_addr r) = Ok ep" using new_control_endpoint_eq by blast
  obtain ring ic' d' where e: "address_endpoint demo_port_bus 0xF0000440 0x9000 ic () = Ok (ring, ic', d')"
    using ic(2) sp r ep
    by (auto simp: address_endpoint_def set_port_speed_lost set_ep_ctx_def sub_u_def upd_slot_def)
  show ?thesis using address_endpoint_fields [OF _ _ ic(1) e] ic(1) e by auto
qed

text \<open>
  \<^verbatim>\<open>set_port_speed\<close> shifts the speed identifier right instead of left: whatever
  the speed, the speed field of the slot context is zero afterwards.
\<close>

theorem port_speed_not_recorded:
  assumes "set_port_speed mode ic = Ok ic'" "slot_ctx (device_ctx ic) \<noteq> []"
  shows "get_field 20 4 (slot_ctx (device_ctx ic') ! 0) = 0"
proof -
  let ?v = "slot_ctx (device_ctx ic) ! 0"
  have m: "(0xF00000 :: u32) = push_bit 20 (mask 4)" by (simp add: mask_eq_exp_minus_1)
  have "get_field 20 4 (?v AND NOT 0xF00000) = 0"
    unfolding m by (rule bit_word_eqI) (auto simp: bit_get_field bit_simps)
  then show ?thesis using assms by (auto simp: set_port_speed_lost upd_slot_def split: if_splits)
qed

theorem port_speed_not_recorded_witness:
  "\<exists>ic'. set_port_speed HighSpeed InputContext_default = Ok ic' \<and> get_field 20 4 (slot_ctx (device_ctx ic') ! 0) = 0"
proof -
  obtain ic' where "set_port_speed HighSpeed InputContext_default = Ok ic'" by (simp add: set_port_speed_lost)
  then show ?thesis using port_speed_not_recorded [of HighSpeed InputContext_default ic']
    by (auto simp: InputContext_default_def DeviceContext_default_def)
qed

text \<open>
  The eight bytes that a controller reads from the data word of a setup TRB are
  the setup packet: request type, request, value, index and length, little-endian.
\<close>

theorem setup_bytes_roundtrip: "le_bytes 8 (unat (trb_data (trb_from_setup s))) = setup_bytes s"
proof -
  have len: "length (setup_bytes s) = 8" by (simp add: setup_bytes_def)
  then have "le_nat (setup_bytes s) < 2 ^ 64" using le_nat_bound [of "setup_bytes s"] by simp
  then have "unat (trb_data (trb_from_setup s)) = le_nat (setup_bytes s)"
    by (simp add: trb_from_setup_def unat_of_nat)
  then show ?thesis using le_bytes_le_nat [of "setup_bytes s"] len by simp
qed

text \<open>
  A GET\_DESCRIPTOR request from device to host that has data is marked with the
  transfer type of an OUT data stage, because the constructor tests the direction bit in the request
  code instead of the request type.
\<close>

theorem setup_direction:
  assumes "len \<noteq> 0"
  shows "get_field 16 2 (setup_control (SetupStageTrb_new REQ_TYPE_DIR_DEVICE_TO_HOST REQ_GET_DESCRIPTOR v ix len)) = 2"
  using assms by (simp add: SetupStageTrb_new_def Let_def REQ_GET_DESCRIPTOR_def REQ_TYPE_DIR_DEVICE_TO_HOST_def
      CTRL_BIT_IMMEDIATE_DATA_def get_field_def)


theorem setup_direction_witness:
  "(18 :: u16) \<noteq> 0 \<and>
    get_field 16 2 (setup_control (SetupStageTrb_new REQ_TYPE_DIR_DEVICE_TO_HOST REQ_GET_DESCRIPTOR 0x100 0 18)) = 2"
  using setup_direction [of 18 "0x100" 0] by simp

section \<open>Ports\<close>

text \<open>
  The writes of \<^verbatim>\<open>reset_port\<close> (power and reset) never write a one to the port-enabled
  bit or to a change bit, which would disable the port or drop a change, and keep the settings they
  read.
\<close>

theorem port_writes_are_safe:
  assumes "pos = 4 \<or> pos = 9"
  shows "\<exists>w. portsc_assert_bit bus p pos d = wr32 bus p w (snd (rd32 bus p d)) \<and>
    bit w pos \<and> \<not> bit w 1 \<and> (\<forall>i \<in> {17..23}. \<not> bit w i) \<and>
    (\<forall>i \<in> {0, 3} \<union> {5..8} \<union> {10..16} \<union> {24..27} \<union> {30}. bit w i = bit (fst (rd32 bus p d)) i)"
proof -
  have pos: "pos < 32" using assms by auto
  define w where "w = (fst (rd32 bus p d) AND PRESERVE_MASK) OR push_bit pos 1"
  have w: "portsc_assert_bit bus p pos d = wr32 bus p w (snd (rd32 bus p d))"
    by (simp add: portsc_assert_bit_def w_def case_prod_beta)
  have b: "bit w i = (bit (fst (rd32 bus p d)) i \<and> bit PRESERVE_MASK i \<or> i = pos)" if "i < 32" for i
    using that pos unfolding w_def by (auto simp: bit_or_iff bit_and_iff bit_push_bit_iff bit_1_iff bit_exp_iff)
  have z: "\<not> bit PRESERVE_MASK i" if "i \<in> {1} \<union> {17..23}" for i
    using that by (auto simp: PRESERVE_MASK_def atLeastAtMost_iff numeral_eq_Suc le_Suc_eq)
  have k: "bit PRESERVE_MASK i" if "i \<in> {0, 3} \<union> {5..8} \<union> {10..16} \<union> {24..27} \<union> {30}" for i
    using that by (auto simp: PRESERVE_MASK_def atLeastAtMost_iff numeral_eq_Suc le_Suc_eq)
  have "bit w pos" "\<not> bit w 1" using b [of pos] b [of 1] z [of 1] pos assms by auto
  moreover have "\<not> bit w i" if "i \<in> {17..23}" for i using b [of i] z [of i] that assms by auto
  moreover have "bit w i = bit (fst (rd32 bus p d)) i" if "i \<in> {0, 3} \<union> {5..8} \<union> {10..16} \<union> {24..27} \<union> {30}" for i
    using b [of i] k [OF that] that assms by auto
  ultimately show ?thesis using w by blast
qed

theorem port_writes_are_safe_witness:
  "\<exists>w. portsc_assert_bit demo_port_bus 0xF0000440 4 () = wr32 demo_port_bus 0xF0000440 w () \<and> bit w 4 \<and> \<not> bit w 1"
  using port_writes_are_safe [of 4 demo_port_bus "0xF0000440" "()"] by auto

section \<open>Scratchpad buffers\<close>

lemma page_size_of_Ok:
  assumes "page_size_of reg = Ok n"
  shows "\<exists>k < 16. n = 2 ^ (k + 12)"
proof -
  let ?ones = "filter (bit (reg AND 0xFFFF)) [0 ..< 32]"
  have "length ?ones = 1" "n = 2 ^ (hd ?ones + 12)"
    using assms by (auto simp: page_size_of_def Let_def split: if_splits)
  then obtain k where k: "?ones = [k]" "n = 2 ^ (k + 12)" by (auto simp: length_Suc_conv)
  then have "k \<in> set ?ones" by simp
  then have "bit (reg AND mask 16) k" by (simp add: mask_eq_exp_minus_1)
  then show ?thesis using k(2) by (auto simp: bit_and_iff bit_mask_iff)
qed

lemma layout_pow2: "k < 30 \<Longrightarrow> n \<le> 2 ^ 30 \<Longrightarrow> layout_ok n (2 ^ k)"
proof -
  assume a: "k < 30" "n \<le> 2 ^ 30"
  have "(2::nat) ^ k \<le> 2 ^ 30" using a(1) by (intro power_increasing) auto
  then show ?thesis using a(2) by (auto simp: layout_ok_def is_pow2_iff)
qed

lemma alloc_and_box_spec:
  assumes "live_inv s L" "layout_ok n al" "layout_ok n ea"
  shows "alloc_and_box s n al ea err \<in> {Some UB, Some (Panic ''memory allocation failed'')} \<or>
    (\<exists>p s' q. alloc_and_box s n al ea err = Some (Ok (p, s')) \<and>
       live_inv s' (insert (p, n) (insert (q, n) L)) \<and> p \<notin> fst ` L)"
proof -
  obtain q s1 where q: "alloc_with_options s n al = Some (Ok (q, s1))"
    using heap.alloc_returns [OF assms(1,2)] by blast
  show ?thesis
  proof (cases "q = 0")
    case False
    have "live_inv s1 (insert (q, n) L)" using heap.alloc_live [OF assms(1,2) q False] by simp
    from box_alloc_spec [OF this assms(3)] show ?thesis
      using q False assms(2) by (auto simp: alloc_and_box_def)
  qed (simp add: q alloc_and_box_def assms(2))
qed

lemma alloc_bufs_spec:
  assumes "live_inv s L" "layout_ok ps ps" "layout_ok ps 1"
  shows "alloc_bufs s ps n \<in> {Some UB, Some (Panic ''memory allocation failed'')} \<or>
    (\<exists>bs s' L'. alloc_bufs s ps n = Some (Ok (bs, s')) \<and> live_inv s' L' \<and> L \<subseteq> L' \<and> length bs = n \<and>
       distinct bs \<and> set bs \<inter> fst ` L = {} \<and> (\<forall>b \<in> set bs. (b, ps) \<in> L'))"
  using assms(1)
proof (induction n arbitrary: s L)
  case (Suc n)
  consider "alloc_and_box s ps ps 1 ''could not allocated a scratchpad buffer'' \<in> {Some UB, Some (Panic ''memory allocation failed'')}"
    | p s1 q where "alloc_and_box s ps ps 1 ''could not allocated a scratchpad buffer'' = Some (Ok (p, s1))"
        "live_inv s1 (insert (p, ps) (insert (q, ps) L))" "p \<notin> fst ` L"
    using alloc_and_box_spec [OF Suc.prems assms(2,3)] by metis
  then show ?case
  proof cases
    case (2 p s1 q)
    from Suc.IH [OF 2(2)] show ?thesis
      using 2(1,3) by (auto simp: image_iff) blast+
  qed auto
qed auto

text \<open>
  The scratchpad table and buffers that the driver gives to the controller are
  distinct live heap objects of the right size, as many as the controller asks for and at least one;
  otherwise the register is rejected or the heap is exhausted.
\<close>

theorem scratchpad_buffers_live:
  assumes "live_inv s L"
  shows "(\<exists>e. ScratchpadBuffers_alloc cap reg s = Some e \<and> e \<in> {Err ''PAGE_SIZE has multiple bits set'', UB, Panic ''memory allocation failed''}) \<or>
    (\<exists>sb s' L' ps. ScratchpadBuffers_alloc cap reg s = Some (Ok (sb, s')) \<and> page_size_of reg = Ok ps \<and>
       live_inv s' L' \<and> L \<subseteq> L' \<and> length (scratch_bufs sb) = max (num_scratchpad_bufs cap) 1 \<and>
       distinct (scratch_table sb # scratch_bufs sb) \<and>
       (scratch_table sb, 8 * length (scratch_bufs sb)) \<in> L' \<and> (\<forall>b \<in> set (scratch_bufs sb). (b, ps) \<in> L'))"
proof (cases "\<exists>ps. page_size_of reg = Ok ps")
  case False
  then have "page_size_of reg = Err ''PAGE_SIZE has multiple bits set''"
    by (auto simp: page_size_of_def Let_def split: if_splits)
  then show ?thesis by (simp add: ScratchpadBuffers_alloc_def)
next
  case True
  then obtain ps where ps: "page_size_of reg = Ok ps" by blast
  then obtain k where k: "k < 16" "ps = 2 ^ (k + 12)" using page_size_of_Ok by blast
  let ?n = "max (num_scratchpad_bufs cap) 1"
  have n: "8 * ?n \<le> 2 ^ 30"
  proof -
    have "num_scratchpad_bufs cap < 2 ^ 10"
    proof -
      have "take_bit 10 (push_bit 5 (extract_bits (cap_hcsparams2 cap) 21 5) OR extract_bits (cap_hcsparams2 cap) 27 5)
          = push_bit 5 (extract_bits (cap_hcsparams2 cap) 21 5) OR extract_bits (cap_hcsparams2 cap) 27 5"
        by (rule bit_word_eqI) (auto simp: extract_bits_eq bit_take_bit_iff bit_or_iff bit_push_bit_iff)
      then show ?thesis unfolding num_scratchpad_bufs_def take_bit_self_iff .
    qed
    then show ?thesis by simp
  qed
  have pk: "ps \<le> 2 ^ 30" unfolding k(2) using k(1) by (intro power_increasing) auto
  have l: "layout_ok (8 * ?n) ps" "layout_ok (8 * ?n) 8" "layout_ok ps ps" "layout_ok ps 1"
    using layout_pow2 [of "k + 12"] layout_pow2 [of 3] layout_pow2 [of 0] n pk k by auto
  consider "alloc_and_box s (8 * ?n) ps 8 ''cloud not allocate scratchpad buffer table'' \<in> {Some UB, Some (Panic ''memory allocation failed'')}"
    | p s1 q where "alloc_and_box s (8 * ?n) ps 8 ''cloud not allocate scratchpad buffer table'' = Some (Ok (p, s1))"
        "live_inv s1 (insert (p, 8 * ?n) (insert (q, 8 * ?n) L))"
    using alloc_and_box_spec [OF assms l(1,2)] by metis
  then show ?thesis
  proof cases
    case 1
    then show ?thesis by (auto simp: ScratchpadBuffers_alloc_def ps Let_def)
  next
    case (2 p s1 q)
    show ?thesis using alloc_bufs_spec [OF 2(2) l(3,4), of ?n] 2(1)
      by (auto simp: ScratchpadBuffers_alloc_def ps Let_def) blast
  qed
qed


theorem scratchpad_buffers_live_witness:
  "\<exists>s. live_inv s {} \<and> ((\<exists>e. ScratchpadBuffers_alloc (cap_regs demo_regs) 1 s = Some e \<and>
        e \<in> {Err ''PAGE_SIZE has multiple bits set'', UB, Panic ''memory allocation failed''}) \<or>
     (\<exists>sb s'. ScratchpadBuffers_alloc (cap_regs demo_regs) 1 s = Some (Ok (sb, s')) \<and> length (scratch_bufs sb) \<ge> 1))"
proof -
  obtain s where s: "live_inv s {}" using demo_boot kernel_heap_live_inv by blast
  from scratchpad_buffers_live [OF s, of "cap_regs demo_regs" 1] show ?thesis
    using s by (metis max.cobounded2)
qed

text \<open>
  The page-aligned scratchpad buffer is allocated and then copied into a new box with
  byte alignment: on a fresh heap the buffer that the controller gets is not page aligned.
\<close>

theorem scratchpad_buffer_misaligned:
  "\<exists>s s'. kernel_heap s {} \<and> alloc_and_box s 4096 4096 1 ''could not allocated a scratchpad buffer'' = Some (Ok (0x11DFE0, s')) \<and>
    \<not> 4096 dvd (0x11DFE0 :: nat)"
proof -
  obtain s where s: "heap_inv s [(0x100000, 0x20000, False)]" "kernel_heap s {}" using demo_boot by blast
  have c: "spec_alloc 4096 4096 [(0x100000, 0x20000, False)] = (0x11F000, [(0x100000, 0x1EFE0, False), (0x11EFE0, 0x1020, True)])"
      "fst (spec_alloc 4096 1 [(0x100000, 0x1EFE0, False), (0x11EFE0, 0x1020, True)]) = 0x11DFE0"
    by (simp_all add: fits_def alloc_addr_def split_block_def eff_size_def eff_align_def bit_len.simps Let_def)
  have l: "layout_ok 4096 1" using layout_pow2 [of 0 4096] by simp
  obtain s1 where s1: "alloc_with_options s 4096 4096 = Some (Ok (0x11F000, s1))"
      "heap_inv s1 [(0x100000, 0x1EFE0, False), (0x11EFE0, 0x1020, True)]"
    using alloc_with_options_spec [OF s(1) demo_layout(2)] by (auto simp only: c fst_conv snd_conv)
  obtain s2 where "alloc_with_options s1 4096 1 = Some (Ok (0x11DFE0, s2))"
    using alloc_with_options_spec [OF s1(2) l] by (auto simp only: c)
  then show ?thesis using s(2) s1(1) demo_layout(2) by (auto simp: alloc_and_box_def box_alloc_def)
qed

end
