(* ===== verification/Usb.thy ===== *)
theory Usb
  imports Xhci
begin

text \<open>
  The USB layer (\<^verbatim>\<open>usb.rs\<close>, \<^verbatim>\<open>slice.rs\<close>): descriptors and their decoding from bytes, the iterator
  over a configuration, the choice of an interface, and the requests that fetch them. A request runs
  up to the await of its transfer; the bytes that the transfer leaves in the buffer are the argument
  of the decoding functions.
\<close>

section \<open>Descriptors\<close>

record ConfigDescriptor =
  cfg_desc_length :: u8
  cfg_desc_type :: u8
  cfg_total_length :: u16
  cfg_num_of_interfaces :: u8
  cfg_config_value :: u8
  cfg_config_string_index :: u8
  cfg_attribute :: u8
  cfg_max_power :: u8

record InterfaceDescriptor =
  if_desc_length :: u8
  if_desc_type :: u8
  interface_number :: u8
  alt_setting :: u8
  num_of_endpoints :: u8
  interface_class :: u8
  interface_subclass :: u8
  interface_protocol :: u8
  interface_index :: u8

record EndpointDescriptor =
  ep_desc_length :: u8
  ep_desc_type :: u8
  endpoint_address :: u8
  ep_attributes :: u8
  ep_max_packet_size :: u16
  ep_interval :: u8

record UsbDeviceDescriptor =
  dev_desc_length :: u8
  dev_desc_type :: u8
  dev_version :: u16
  device_class :: u8
  device_subclass :: u8
  device_protocol :: u8
  dev_max_packet_size :: u8
  vender_id :: u16
  product_id :: u16
  device_version :: u16
  manufacturer_idx :: u8
  product_idx :: u8
  serial_idx :: u8
  num_of_config :: u8

datatype UsbDescriptor =
    DConfig ConfigDescriptor
  | DEndpoint EndpointDescriptor
  | DInterface InterfaceDescriptor
  | DUnknown u8 u8

definition total_length :: "ConfigDescriptor \<Rightarrow> usize" where
  "total_length c = unat (cfg_total_length c)"

definition config_value :: "ConfigDescriptor \<Rightarrow> u8" where
  "config_value c = cfg_config_value c"

definition triple :: "InterfaceDescriptor \<Rightarrow> u8 \<times> u8 \<times> u8" where
  "triple i = (interface_class i, interface_subclass i, interface_protocol i)"

section \<open>Decoding\<close>

text \<open>
  \<^verbatim>\<open>Sliceable::copy_from_slice\<close>: the object is read from the first \<open>size_of::<Self>()\<close> bytes. The
  structures are packed and the target is little-endian, which gives the field offsets.
\<close>

definition copy_from_slice :: "nat \<Rightarrow> (u8 list \<Rightarrow> 'a) \<Rightarrow> u8 list \<Rightarrow> 'a res" where
  "copy_from_slice size_of decode data =
     (if size_of > length data then Err ''data is too short'' else Ok (decode data))"

definition u16_at :: "u8 list \<Rightarrow> nat \<Rightarrow> u16" where
  "u16_at bs i = word_of_nat (le_nat (take 2 (drop i bs)))"

definition decode_config :: "u8 list \<Rightarrow> ConfigDescriptor" where
  "decode_config b = \<lparr>cfg_desc_length = b ! 0, cfg_desc_type = b ! 1, cfg_total_length = u16_at b 2,
     cfg_num_of_interfaces = b ! 4, cfg_config_value = b ! 5, cfg_config_string_index = b ! 6,
     cfg_attribute = b ! 7, cfg_max_power = b ! 8\<rparr>"

definition decode_interface :: "u8 list \<Rightarrow> InterfaceDescriptor" where
  "decode_interface b = \<lparr>if_desc_length = b ! 0, if_desc_type = b ! 1, interface_number = b ! 2,
     alt_setting = b ! 3, num_of_endpoints = b ! 4, interface_class = b ! 5, interface_subclass = b ! 6,
     interface_protocol = b ! 7, interface_index = b ! 8\<rparr>"

definition decode_endpoint :: "u8 list \<Rightarrow> EndpointDescriptor" where
  "decode_endpoint b = \<lparr>ep_desc_length = b ! 0, ep_desc_type = b ! 1, endpoint_address = b ! 2,
     ep_attributes = b ! 3, ep_max_packet_size = u16_at b 4, ep_interval = b ! 6\<rparr>"

definition decode_device :: "u8 list \<Rightarrow> UsbDeviceDescriptor" where
  "decode_device b = \<lparr>dev_desc_length = b ! 0, dev_desc_type = b ! 1, dev_version = u16_at b 2,
     device_class = b ! 4, device_subclass = b ! 5, device_protocol = b ! 6, dev_max_packet_size = b ! 7,
     vender_id = u16_at b 8, product_id = u16_at b 10, device_version = u16_at b 12,
     manufacturer_idx = b ! 14, product_idx = b ! 15, serial_idx = b ! 16, num_of_config = b ! 17\<rparr>"

section \<open>DescriptorIterator\<close>

text \<open>\<open>next\<close> returns the item and the new index. \<^verbatim>\<open>.ok()?\<close> ends the iteration on a short buffer.\<close>

definition ok_item :: "'a res \<Rightarrow> ('a \<Rightarrow> 'b) \<Rightarrow> 'b option" where
  "ok_item r f = (case r of Ok a \<Rightarrow> Some (f a) | _ \<Rightarrow> None)"

definition DescriptorIterator_next :: "u8 list \<Rightarrow> usize \<Rightarrow> (UsbDescriptor option \<times> usize) res" where
  "DescriptorIterator_next data index =
     (if index \<ge> length data then Ok (None, index)
      else (let buf = drop index data in
            if length buf < 2 then Panic ''index out of bounds''
            else (let desc_len = buf ! 0; desc_type = buf ! 1;
                      desc = (if desc_type = desc_type_code DescConfig
                              then ok_item (copy_from_slice 9 decode_config buf) DConfig
                              else if desc_type = desc_type_code DescInterface
                              then ok_item (copy_from_slice 9 decode_interface buf) DInterface
                              else if desc_type = desc_type_code DescEndpoint
                              then ok_item (copy_from_slice 7 decode_endpoint buf) DEndpoint
                              else Some (DUnknown desc_len desc_type)) in
                  case desc of None \<Rightarrow> Ok (None, index)
                  | Some d \<Rightarrow> Ok (Some d, index + unat desc_len))))"

text \<open>\<^verbatim>\<open>iter.collect()\<close>.\<close>

partial_function (option) collect_descriptors ::
  "u8 list \<Rightarrow> usize \<Rightarrow> UsbDescriptor list \<Rightarrow> UsbDescriptor list res option" where
  "collect_descriptors data index acc =
     (case DescriptorIterator_next data index of
        Ok (Some d, index') \<Rightarrow> collect_descriptors data index' (acc @ [d])
      | Ok (None, _) \<Rightarrow> Some (Ok acc)
      | Err e \<Rightarrow> Some (Err e) | Panic p \<Rightarrow> Some (Panic p) | UB \<Rightarrow> Some UB)"

section \<open>Choosing an interface\<close>

type_synonym picked = "ConfigDescriptor option \<times> InterfaceDescriptor option \<times> EndpointDescriptor list"

fun pick_loop :: "u8 \<times> u8 \<times> u8 \<Rightarrow> UsbDescriptor list \<Rightarrow> picked \<Rightarrow> picked" where
  "pick_loop t [] st = st"
| "pick_loop t (DConfig e # ds) (config, interface, eps) =
     (if interface \<noteq> None then (config, interface, eps) else pick_loop t ds (Some e, interface, []))"
| "pick_loop t (DInterface e # ds) (config, interface, eps) =
     pick_loop t ds (config, if t = triple e then Some e else interface, eps)"
| "pick_loop t (DEndpoint e # ds) (config, interface, eps) = pick_loop t ds (config, interface, eps @ [e])"
| "pick_loop t (DUnknown l ty # ds) st = pick_loop t ds st"

definition pick_interface_with_triple :: "UsbDescriptor list \<Rightarrow> u8 \<times> u8 \<times> u8 \<Rightarrow>
    (ConfigDescriptor \<times> InterfaceDescriptor \<times> EndpointDescriptor list) option" where
  "pick_interface_with_triple ds t =
     (case pick_loop t ds (None, None, []) of
        (Some c, Some i, eps) \<Rightarrow> Some (c, i, eps) | _ \<Rightarrow> None)"

section \<open>Requests\<close>

definition request_device_descriptor where
  "request_device_descriptor bus xhc slot ring buf =
     request_descriptor bus xhc slot ring DescDevice 0 0 buf 18"

definition request_string_descriptor where
  "request_string_descriptor bus xhc slot ring lang_id index buf =
     request_descriptor bus xhc slot ring DescString index lang_id buf 128"

text \<open>The buffer of \<^verbatim>\<open>request_string_descriptor_zero\<close> is eight 16-bit words.\<close>

definition request_string_descriptor_zero where
  "request_string_descriptor_zero bus xhc slot ring buf =
     request_descriptor bus xhc slot ring DescString 0 0 buf (8 * 2)"

definition request_config_descriptor where
  "request_config_descriptor bus xhc slot ring buf =
     request_descriptor bus xhc slot ring DescConfig 0 0 buf 9"

definition request_config_rest where
  "request_config_rest bus xhc slot ring header buf =
     request_descriptor bus xhc slot ring DescConfig 0 0 buf (total_length (decode_config header))"

definition request_hid_report where
  "request_hid_report bus xhc slot ring buf = request_report_bytes bus xhc slot ring buf 8"

definition request_hid_report_descriptor where
  "request_hid_report_descriptor bus xhc slot ring n buf =
     request_descriptor_for_interface bus xhc slot ring DescReport 0 (ucast (n :: u8)) buf 4096"


section \<open>Iterating over well-formed descriptors\<close>

definition decode_chunk :: "u8 list \<Rightarrow> UsbDescriptor" where
  "decode_chunk b =
     (if b ! 1 = desc_type_code DescConfig then DConfig (decode_config b)
      else if b ! 1 = desc_type_code DescInterface then DInterface (decode_interface b)
      else if b ! 1 = desc_type_code DescEndpoint then DEndpoint (decode_endpoint b)
      else DUnknown (b ! 0) (b ! 1))"

definition min_length :: "u8 \<Rightarrow> nat" where
  "min_length ty =
     (if ty = desc_type_code DescConfig \<or> ty = desc_type_code DescInterface then 9
      else if ty = desc_type_code DescEndpoint then 7 else 2)"

text \<open>A chunk is one descriptor as the USB specification wants it: its first byte is its length.\<close>

definition chunk_ok :: "u8 list \<Rightarrow> bool" where
  "chunk_ok b \<longleftrightarrow> 2 \<le> length b \<and> unat (b ! 0) = length b \<and> min_length (b ! 1) \<le> length b"

lemma decode_append:
  "9 \<le> length b \<Longrightarrow> decode_config (b @ r) = decode_config b"
  "9 \<le> length b \<Longrightarrow> decode_interface (b @ r) = decode_interface b"
  "7 \<le> length b \<Longrightarrow> decode_endpoint (b @ r) = decode_endpoint b"
  by (auto simp: decode_config_def decode_interface_def decode_endpoint_def u16_at_def nth_append)

lemma next_chunk:
  assumes "chunk_ok b"
  shows "DescriptorIterator_next (pre @ b @ rest) (length pre) = Ok (Some (decode_chunk b), length pre + length b)"
  using assms
  by (auto simp: DescriptorIterator_next_def Let_def chunk_ok_def min_length_def decode_chunk_def
      copy_from_slice_def ok_item_def decode_append nth_append split: if_splits)

lemma collect_chunks_aux:
  assumes "list_all chunk_ok bs"
  shows "collect_descriptors (pre @ concat bs) (length pre) acc = Some (Ok (acc @ map decode_chunk bs))"
  using assms
proof (induction bs arbitrary: pre acc)
  case Nil
  then show ?case by (simp add: collect_descriptors.simps [of pre] DescriptorIterator_next_def)
next
  case (Cons b bs)
  have "DescriptorIterator_next (pre @ b @ concat bs) (length pre) = Ok (Some (decode_chunk b), length pre + length b)"
    using Cons.prems by (intro next_chunk) simp
  then have "collect_descriptors (pre @ concat (b # bs)) (length pre) acc =
      collect_descriptors ((pre @ b) @ concat bs) (length (pre @ b)) (acc @ [decode_chunk b])"
    by (simp add: collect_descriptors.simps [of "pre @ b @ concat bs" "length pre"])
  then show ?case using Cons.IH [of "pre @ b"] Cons.prems by simp
qed

lemma collect_chunks:
  assumes "list_all chunk_ok bs"
  shows "collect_descriptors (concat bs) 0 [] = Some (Ok (map decode_chunk bs))"
  using collect_chunks_aux [OF assms, of "[]" "[]"] by simp

fun encode_descriptor :: "UsbDescriptor \<Rightarrow> u8 list" where
  "encode_descriptor (DConfig c) =
     [cfg_desc_length c, cfg_desc_type c] @ le_bytes 2 (unat (cfg_total_length c)) @
     [cfg_num_of_interfaces c, cfg_config_value c, cfg_config_string_index c, cfg_attribute c, cfg_max_power c]"
| "encode_descriptor (DInterface i) =
     [if_desc_length i, if_desc_type i, interface_number i, alt_setting i, num_of_endpoints i,
      interface_class i, interface_subclass i, interface_protocol i, interface_index i]"
| "encode_descriptor (DEndpoint e) =
     [ep_desc_length e, ep_desc_type e, endpoint_address e, ep_attributes e] @
     le_bytes 2 (unat (ep_max_packet_size e)) @ [ep_interval e]"
| "encode_descriptor (DUnknown l ty) = [l, ty] @ replicate (unat l - 2) 0"

fun descriptor_ok :: "UsbDescriptor \<Rightarrow> bool" where
  "descriptor_ok (DConfig c) \<longleftrightarrow> cfg_desc_length c = 9 \<and> cfg_desc_type c = 2"
| "descriptor_ok (DInterface i) \<longleftrightarrow> if_desc_length i = 9 \<and> if_desc_type i = 4"
| "descriptor_ok (DEndpoint e) \<longleftrightarrow> ep_desc_length e = 7 \<and> ep_desc_type e = 5"
| "descriptor_ok (DUnknown l ty) \<longleftrightarrow> 2 \<le> unat l \<and> ty \<notin> {2, 4, 5}"

lemma u16_le_bytes: "word_of_nat (le_nat (le_bytes 2 (unat w))) = (w :: u16)"
proof -
  have "unat w < 2 ^ 16" using unsigned_less [of w, where ?'a = nat] by simp
  then show ?thesis by (simp add: le_nat_le_bytes)
qed

lemma encode_chunk:
  assumes "descriptor_ok d"
  shows "chunk_ok (encode_descriptor d) \<and> decode_chunk (encode_descriptor d) = d"
proof (cases d)
  case (DConfig c)
  then have "cfg_desc_length c = 9" "cfg_desc_type c = 2" using assms by simp_all
  then show ?thesis using DConfig u16_le_bytes [of "cfg_total_length c"]
    by (simp add: chunk_ok_def min_length_def decode_chunk_def decode_config_def u16_at_def nth_append)
next
  case (DEndpoint e)
  then have "ep_desc_length e = 7" "ep_desc_type e = 5" using assms by simp_all
  then show ?thesis using DEndpoint u16_le_bytes [of "ep_max_packet_size e"]
    by (simp add: chunk_ok_def min_length_def decode_chunk_def decode_endpoint_def u16_at_def nth_append)
next
  case (DInterface i)
  then have "if_desc_length i = 9" "if_desc_type i = 4" using assms by simp_all
  then show ?thesis using DInterface
    by (simp add: chunk_ok_def min_length_def decode_chunk_def decode_interface_def)
next
  case (DUnknown l ty)
  then show ?thesis using assms by (simp add: chunk_ok_def min_length_def decode_chunk_def) linarith
qed

lemma descriptors_roundtrip_aux:
  "list_all descriptor_ok ds \<Longrightarrow> collect_descriptors (concat (map encode_descriptor ds)) 0 [] = Some (Ok ds)"
proof -
  assume a: "list_all descriptor_ok ds"
  then have "list_all chunk_ok (map encode_descriptor ds)" "map decode_chunk (map encode_descriptor ds) = ds"
    using encode_chunk by (auto simp: list_all_iff map_idI)
  then show ?thesis using collect_chunks [of "map encode_descriptor ds"] by simp
qed

section \<open>Malformed descriptors\<close>

lemma collect_stuck:
  assumes "DescriptorIterator_next data index = Ok (Some d, index)"
  shows "collect_descriptors data index acc = None"
proof (rule ccontr)
  assume "collect_descriptors data index acc \<noteq> None"
  then obtain r where "collect_descriptors data index acc = Some r" by auto
  then have "\<not> (\<exists>d. DescriptorIterator_next data index = Ok (Some d, index))"
    by (rule collect_descriptors.raw_induct [rotated]) (auto split: res.splits option.splits)
  then show False using assms by blast
qed

lemma collect_bad_tail:
  assumes "list_all chunk_ok bs"
  shows "collect_descriptors (concat bs @ [b]) 0 [] = Some (Panic ''index out of bounds'')"
    and "2 \<le> length z \<Longrightarrow> z ! 0 = 0 \<Longrightarrow> min_length (z ! 1) \<le> length z \<Longrightarrow>
      collect_descriptors (concat bs @ z) 0 [] = None"
proof -
  have gen: "collect_descriptors (pre @ concat bs @ t) (length pre) acc =
      collect_descriptors (pre @ concat bs @ t) (length pre + length (concat bs)) (acc @ map decode_chunk bs)"
    if "list_all chunk_ok bs" for pre bs t acc
    using that
  proof (induction bs arbitrary: pre acc)
    case (Cons c bs)
    have "DescriptorIterator_next (pre @ c @ concat bs @ t) (length pre) = Ok (Some (decode_chunk c), length pre + length c)"
      using Cons.prems by (intro next_chunk) simp
    then have "collect_descriptors (pre @ concat (c # bs) @ t) (length pre) acc =
        collect_descriptors ((pre @ c) @ concat bs @ t) (length (pre @ c)) (acc @ [decode_chunk c])"
      by (simp add: collect_descriptors.simps [of "pre @ c @ concat bs @ t" "length pre"])
    then show ?case using Cons.IH [of "pre @ c"] Cons.prems by (simp add: add.assoc)
  qed simp
  have at: "collect_descriptors (concat bs @ t) 0 [] =
      collect_descriptors (concat bs @ t) (length (concat bs)) (map decode_chunk bs)" for t
    using gen [OF assms, of "[]" t "[]"] by simp
  show "collect_descriptors (concat bs @ [b]) 0 [] = Some (Panic ''index out of bounds'')"
    unfolding at by (simp add: collect_descriptors.simps [of _ "length (concat bs)"] DescriptorIterator_next_def)
  show "collect_descriptors (concat bs @ z) 0 [] = None"
    if "2 \<le> length z" "z ! 0 = 0" "min_length (z ! 1) \<le> length z"
    unfolding at
  proof (rule collect_stuck)
    show "DescriptorIterator_next (concat bs @ z) (length (concat bs)) = Ok (Some (decode_chunk z), length (concat bs))"
      using that by (auto simp: DescriptorIterator_next_def Let_def min_length_def decode_chunk_def
          copy_from_slice_def ok_item_def split: if_splits)
  qed
qed

section \<open>Interfaces\<close>

definition matching :: "u8 \<times> u8 \<times> u8 \<Rightarrow> UsbDescriptor list \<Rightarrow> InterfaceDescriptor list" where
  "matching t ds = [i. DInterface i \<leftarrow> ds, triple i = t]"

definition endpoints :: "UsbDescriptor list \<Rightarrow> EndpointDescriptor list" where
  "endpoints ds = [e. DEndpoint e \<leftarrow> ds]"

lemma pick_loop_one_config:
  assumes "\<forall>c. DConfig c \<notin> set ds"
  shows "pick_loop t ds (cfg, ifc, eps) =
    (cfg, if matching t ds = [] then ifc else Some (last (matching t ds)), eps @ endpoints ds)"
  using assms
proof (induction ds arbitrary: ifc eps)
  case (Cons d ds)
  then show ?case by (cases d) (auto simp: matching_def endpoints_def)
qed (simp add: matching_def endpoints_def)

lemma pick_one_config:
  assumes "\<forall>c. DConfig c \<notin> set ds"
  shows "pick_interface_with_triple (DConfig cfg # ds) t =
    (if matching t ds = [] then None else Some (cfg, last (matching t ds), endpoints ds))"
  by (simp add: pick_interface_with_triple_def pick_loop_one_config [OF assms])

end
