(* ===== verification/Usb_Input.thy ===== *)
theory Usb_Input
  imports Usb
begin

text \<open>
  The USB input drivers (\<^verbatim>\<open>keyboard.rs\<close>, \<^verbatim>\<open>tablet.rs\<close>): the translation of key identifiers, the
  difference between two keyboard reports, and the start of each driver up to its first await. A
  \<^verbatim>\<open>BTreeSet<u8>\<close> is the sorted list of its elements without duplicates; iterating over
  \<^verbatim>\<open>symmetric_difference\<close> visits the identifiers in ascending order.
\<close>

section \<open>Key identifiers\<close>

datatype KeyEvent = KNone | KChar nat | KUnknown u8 | KEnter

definition from_usb_key_id :: "u8 \<Rightarrow> KeyEvent res" where
  "from_usb_key_id usage_id =
     (let u = unat usage_id in
      if u = 0 then Ok KNone
      else if 4 \<le> u \<and> u \<le> 29
      then and_then (add_u 8 97 u) (\<lambda>x. and_then (sub_u x 4) (\<lambda>c. Ok (KChar c)))
      else if 30 \<le> u \<and> u \<le> 39
      then and_then (add_u 8 u 1) (\<lambda>x. and_then (add_u 8 48 (x mod 10)) (\<lambda>c. Ok (KChar c)))
      else if u = 40 then Ok KEnter
      else if u = 42 then Ok (KChar 8)
      else if u = 44 then Ok (KChar 32)
      else if u = 45 then Ok (KChar 45)
      else if u = 51 then Ok (KChar 58)
      else if u = 54 then Ok (KChar 44)
      else if u = 55 then Ok (KChar 46)
      else if u = 56 then Ok (KChar 47)
      else Ok (KUnknown usage_id))"

fun to_char :: "KeyEvent \<Rightarrow> nat option" where
  "to_char (KChar c) = Some c"
| "to_char KEnter = Some 10"
| "to_char KNone = None"
| "to_char (KUnknown _) = None"

section \<open>Reports\<close>

definition btree_set :: "u8 list \<Rightarrow> u8 list" where
  "btree_set xs = sort (remdups xs)"

definition pressed_keys :: "u8 list \<Rightarrow> u8 list" where
  "pressed_keys report = btree_set (filter (\<lambda>id. id \<noteq> 0) (drop 2 report))"

definition symmetric_difference :: "u8 list \<Rightarrow> u8 list \<Rightarrow> u8 list" where
  "symmetric_difference a b = btree_set (filter (\<lambda>x. x \<notin> set b) a @ filter (\<lambda>x. x \<notin> set a) b)"

text \<open>One round of the keyboard loop: the key-down and key-up lines it logs, and the new state.\<close>

fun log_diff :: "u8 list \<Rightarrow> u8 list \<Rightarrow> (bool \<times> u8 \<times> KeyEvent) list res" where
  "log_diff pressed [] = Ok []"
| "log_diff pressed (k # ks) =
     and_then (from_usb_key_id k) (\<lambda>e.
     and_then (log_diff pressed ks) (\<lambda>rest. Ok ((k \<in> set pressed, k, e) # rest)))"

definition keyboard_round :: "u8 list \<Rightarrow> u8 list \<Rightarrow> ((bool \<times> u8 \<times> KeyEvent) list \<times> u8 list) res" where
  "keyboard_round prev_pressed report =
     (let pressed = pressed_keys report in
      and_then (log_diff pressed (symmetric_difference pressed prev_pressed)) (\<lambda>evs. Ok (evs, pressed)))"

fun keyboard_rounds :: "u8 list \<Rightarrow> u8 list list \<Rightarrow> ((bool \<times> u8 \<times> KeyEvent) list \<times> u8 list) res" where
  "keyboard_rounds prev [] = Ok ([], prev)"
| "keyboard_rounds prev (r # rs) =
     and_then (keyboard_round prev r) (\<lambda>(evs, prev').
     and_then (keyboard_rounds prev' rs) (\<lambda>(evs', prev''). Ok (evs @ evs', prev'')))"

section \<open>Starting the drivers\<close>

definition BootProtocol :: u8 where
  "BootProtocol = 0"

definition start_usb_keyboard where
  "start_usb_keyboard bus xhc slot ring descriptors =
     and_then (ok_or (pick_interface_with_triple descriptors (3, 1, 1)) ''No USB KBD Boot interface found'')
       (\<lambda>(config_desc, interface_desc, _).
        request_set_protocol bus xhc slot ring (config_value config_desc) BootProtocol)"

definition is_usb_tablet :: "UsbDeviceDescriptor \<Rightarrow> bool" where
  "is_usb_tablet d \<longleftrightarrow> \<not> (device_class d \<noteq> 0 \<or> device_subclass d \<noteq> 0 \<or> device_protocol d \<noteq> 0 \<or>
     vender_id d \<noteq> 0x0627 \<or> product_id d \<noteq> 0x0001)"

definition start_usb_tablet where
  "start_usb_tablet bus xhc slot ring device_descriptor descriptors buf =
     (if \<not> is_usb_tablet device_descriptor then Err ''Not a USB Tablet''
      else and_then (ok_or (pick_interface_with_triple descriptors (3, 0, 0)) ''NO USB KBD Boot interface found'')
        (\<lambda>(_, interface_desc, _).
         request_hid_report_descriptor bus xhc slot ring (interface_number interface_desc) buf))"

section \<open>Lemmas\<close>

lemma from_usb_key_id_Ok: "\<exists>e. from_usb_key_id k = Ok e"
proof -
  have "(unat k + 1) mod 10 < 10" by simp
  then have "48 + (unat k + 1) mod 10 < 256" by linarith
  then show ?thesis by (auto simp: from_usb_key_id_def Let_def add_u_def sub_u_def)
qed

lemma btree_set_simps [simp]: "set (btree_set xs) = set xs" "sorted (btree_set xs)" "distinct (btree_set xs)"
  by (simp_all add: btree_set_def)

lemma log_diff_spec:
  "\<exists>evs. log_diff p ks = Ok evs \<and> map (\<lambda>(d, k, e). (d, k)) evs = map (\<lambda>k. (k \<in> set p, k)) ks \<and>
     (\<forall>(d, k, e) \<in> set evs. from_usb_key_id k = Ok e)"
proof (induction ks)
  case (Cons k ks)
  then show ?case using from_usb_key_id_Ok [of k] by auto
qed simp

definition replay :: "u8 set \<Rightarrow> (bool \<times> u8 \<times> KeyEvent) list \<Rightarrow> u8 set" where
  "replay S evs = foldl (\<lambda>S (down, k, e). if down then insert k S else S - {k}) S evs"

lemma replay_append: "replay S (xs @ ys) = replay (replay S xs) ys"
  by (simp add: replay_def)

lemma replay_set:
  assumes "map (\<lambda>(d, k, e). (d, k)) evs = map (\<lambda>k. (k \<in> P, k)) ks"
  shows "replay S evs = (S - set ks) \<union> (P \<inter> set ks)"
  using assms
proof (induction evs arbitrary: S ks)
  case (Cons x evs)
  obtain d k e where x: "x = (d, k, e)" by (cases x)
  then obtain ks' where ks: "ks = k # ks'" "d = (k \<in> P)"
      "map (\<lambda>(d, k, e). (d, k)) evs = map (\<lambda>k. (k \<in> P, k)) ks'"
    using Cons.prems by (cases ks) auto
  have "replay S (x # evs) = replay (if d then insert k S else S - {k}) evs"
    by (simp add: replay_def x)
  also have "\<dots> = ((if d then insert k S else S - {k}) - set ks') \<union> (P \<inter> set ks')" using Cons.IH [OF ks(3)] .
  finally show ?case using ks by auto
qed (simp add: replay_def)

lemma keyboard_round_spec:
  "\<exists>evs. keyboard_round prev r = Ok (evs, pressed_keys r) \<and> replay (set prev) evs = set (pressed_keys r) \<and>
     sorted (map (\<lambda>x. fst (snd x)) evs) \<and> distinct (map (\<lambda>x. fst (snd x)) evs) \<and>
     (\<forall>(d, k, e) \<in> set evs. d = (k \<in> set (pressed_keys r)) \<and> d = (k \<notin> set prev) \<and> from_usb_key_id k = Ok e)"
proof -
  let ?p = "pressed_keys r"
  let ?ks = "symmetric_difference ?p prev"
  obtain evs where evs: "log_diff ?p ?ks = Ok evs"
      "map (\<lambda>(d, k, e). (d, k)) evs = map (\<lambda>k. (k \<in> set ?p, k)) ?ks"
      "\<forall>(d, k, e) \<in> set evs. from_usb_key_id k = Ok e"
    using log_diff_spec by blast
  have keys: "map (\<lambda>x. fst (snd x)) evs = ?ks"
  proof -
    have "map snd (map (\<lambda>(d, k, e). (d, k)) evs) = map snd (map (\<lambda>k. (k \<in> set ?p, k)) ?ks)"
      unfolding evs(2) ..
    then show ?thesis by (simp add: case_prod_beta comp_def)
  qed
  have mem: "d = (k \<in> set ?p) \<and> k \<in> set ?ks" if "(d, k, e) \<in> set evs" for d k e
  proof -
    have "(d, k) \<in> set (map (\<lambda>(d, k, e). (d, k)) evs)" using that by force
    then show ?thesis unfolding evs(2) by auto
  qed
  have sd: "set ?ks = (set ?p - set prev) \<union> (set prev - set ?p)"
    by (auto simp: symmetric_difference_def)
  have "replay (set prev) evs = set ?p" using replay_set [OF evs(2)] sd by auto
  moreover have "\<forall>(d, k, e) \<in> set evs. d = (k \<in> set ?p) \<and> d = (k \<notin> set prev) \<and> from_usb_key_id k = Ok e"
    using evs(3) mem sd by fast
  ultimately show ?thesis using evs(1) keys
    by (simp add: keyboard_round_def symmetric_difference_def)
qed


lemma keyboard_rounds_spec:
  "\<exists>evs. keyboard_rounds prev rs = Ok (evs, if rs = [] then prev else pressed_keys (last rs)) \<and>
     replay (set prev) evs = set (if rs = [] then prev else pressed_keys (last rs))"
proof (induction rs arbitrary: prev)
  case (Cons r rs)
  obtain evs where e: "keyboard_round prev r = Ok (evs, pressed_keys r)" "replay (set prev) evs = set (pressed_keys r)"
    using keyboard_round_spec by blast
  obtain evs' where e': "keyboard_rounds (pressed_keys r) rs = Ok (evs', if rs = [] then pressed_keys r else pressed_keys (last rs))"
      "replay (set (pressed_keys r)) evs' = set (if rs = [] then pressed_keys r else pressed_keys (last rs))"
    using Cons by blast
  have "keyboard_rounds prev (r # rs) = Ok (evs @ evs', pressed_keys (last (r # rs)))"
    using e(1) e'(1) by (cases "rs = []") simp_all
  moreover have "replay (set prev) (evs @ evs') = set (pressed_keys (last (r # rs)))"
    using e(2) e'(2) by (cases "rs = []") (simp_all add: replay_append)
  ultimately show ?case by simp
qed (simp add: replay_def)

end
