(* ===== verification/Usb_Theorems.thy ===== *)
theory Usb_Theorems
  imports Usb_Input
begin

text \<open>The properties of the USB layer and the input drivers.\<close>

text \<open>
  Property C17 (roundtrip). Parsing is the inverse of printing: collecting the descriptors of a
  configuration that consists of well-formed descriptors, each with the length its first byte says,
  returns and yields exactly those descriptors in order.
\<close>

theorem descriptors_roundtrip:
  assumes "list_all descriptor_ok ds"
  shows "collect_descriptors (concat (map encode_descriptor ds)) 0 [] = Some (Ok ds)"
  using assms by (rule descriptors_roundtrip_aux)

definition demo_config :: ConfigDescriptor where
  "demo_config = \<lparr>cfg_desc_length = 9, cfg_desc_type = 2, cfg_total_length = 34, cfg_num_of_interfaces = 1,
     cfg_config_value = 1, cfg_config_string_index = 0, cfg_attribute = 0xA0, cfg_max_power = 50\<rparr>"

definition demo_interface :: InterfaceDescriptor where
  "demo_interface = \<lparr>if_desc_length = 9, if_desc_type = 4, interface_number = 0, alt_setting = 0,
     num_of_endpoints = 1, interface_class = 3, interface_subclass = 1, interface_protocol = 1, interface_index = 0\<rparr>"

definition demo_endpoint :: EndpointDescriptor where
  "demo_endpoint = \<lparr>ep_desc_length = 7, ep_desc_type = 5, endpoint_address = 0x81, ep_attributes = 3,
     ep_max_packet_size = 8, ep_interval = 10\<rparr>"

definition demo_descriptors :: "UsbDescriptor list" where
  "demo_descriptors = [DConfig demo_config, DInterface demo_interface, DUnknown 9 0x21, DEndpoint demo_endpoint]"

lemmas demo_descriptor_defs = demo_descriptors_def demo_config_def demo_interface_def demo_endpoint_def

theorem descriptors_roundtrip_witness:
  "list_all descriptor_ok demo_descriptors \<and>
    collect_descriptors (concat (map encode_descriptor demo_descriptors)) 0 [] = Some (Ok demo_descriptors)"
  using descriptors_roundtrip [of demo_descriptors] by (simp add: demo_descriptor_defs)



text \<open>
  Property C19 (functional). Within one configuration \<^verbatim>\<open>pick_interface_with_triple\<close> finds an interface
  exactly when one has the class triple; it returns the configuration, the last such interface, and
  all endpoints of the configuration, whichever interface they belong to.
\<close>

theorem pick_interface_spec:
  assumes "\<forall>c. DConfig c \<notin> set ds"
  shows "pick_interface_with_triple (DConfig cfg # ds) t =
    (if matching t ds = [] then None else Some (cfg, last (matching t ds), endpoints ds))"
  using assms by (rule pick_one_config)

theorem pick_interface_spec_witness:
  "pick_interface_with_triple demo_descriptors (3, 1, 1) = Some (demo_config, demo_interface, [demo_endpoint])"
  using pick_interface_spec [of "tl demo_descriptors" demo_config "(3, 1, 1)"]
  by (simp add: demo_descriptors_def matching_def endpoints_def triple_def demo_interface_def)

text \<open>
  The keyboard's log tracks the keyboard: over any sequence of reports no step
  fails, and replaying the logged key-down and key-up events on the keys pressed before gives the
  keys pressed in the last report; within a round each changed key is logged once, in ascending
  order, as down when it became pressed and as up when it was released.
\<close>

theorem keyboard_log_tracks_keys:
  "\<exists>evs. keyboard_rounds prev rs = Ok (evs, if rs = [] then prev else pressed_keys (last rs)) \<and>
     replay (set prev) evs = set (if rs = [] then prev else pressed_keys (last rs)) \<and>
     (\<exists>evs1. keyboard_round prev r = Ok (evs1, pressed_keys r) \<and>
        sorted (map (\<lambda>x. fst (snd x)) evs1) \<and> distinct (map (\<lambda>x. fst (snd x)) evs1) \<and>
        (\<forall>(d, k, e) \<in> set evs1. d = (k \<in> set (pressed_keys r)) \<and> d = (k \<notin> set prev) \<and> from_usb_key_id k = Ok e))"
  using keyboard_rounds_spec [of prev rs] keyboard_round_spec [of prev r] by blast

theorem keyboard_log_tracks_keys_witness:
  "\<exists>evs. keyboard_rounds [] [[0, 0, 4, 5, 0, 0, 0, 0], [0, 0, 5, 40, 0, 0, 0, 0]] = Ok (evs, [5, 40]) \<and>
     replay {} evs = {5, 40}"
proof -
  let ?rs = "[[0, 0, 4, 5, 0, 0, 0, 0], [0, 0, 5, 40, 0, 0, 0, 0]] :: u8 list list"
  have "pressed_keys (last ?rs) = [5, 40]" by (simp add: pressed_keys_def btree_set_def)
  moreover obtain evs where "keyboard_rounds [] ?rs = Ok (evs, if ?rs = [] then [] else pressed_keys (last ?rs))"
      "replay (set []) evs = set (if ?rs = [] then [] else pressed_keys (last ?rs))"
    using keyboard_log_tracks_keys [of "[]" ?rs "[]"] by blast
  ultimately have "keyboard_rounds [] ?rs = Ok (evs, [5, 40]) \<and> replay {} evs = {5, 40}" by simp
  then show ?thesis by blast
qed

end
