(* ===== verification/Spin_Mutex.thy ===== *)
theory Spin_Mutex
  imports Prelude
begin

text \<open>
  The lock of \<^verbatim>\<open>mutex.rs\<close>. The first part is the code as one caller sees it: \<^verbatim>\<open>try_lock\<close>,
  \<^verbatim>\<open>lock\<close> with its 10000 attempts, the guard's \<^verbatim>\<open>drop\<close> and \<^verbatim>\<open>under_locked\<close>. The second part lets
  any number of callers run at once: each atomic access of the code is one step of a transition
  system, and the read and the write of the protected data are separate steps.
\<close>

section \<open>The operations\<close>

record 'a Mutex =
  mx_data :: 'a
  is_taken :: bool
  taker_line_num :: u32
  created_at_file :: string
  created_at_line :: u32

definition Mutex_new :: "string \<times> u32 \<Rightarrow> 'a \<Rightarrow> 'a Mutex" where
  "Mutex_new caller data = \<lparr>mx_data = data, is_taken = False, taker_line_num = 0,
     created_at_file = fst caller, created_at_line = snd caller\<rparr>"

text \<open>
  \<^verbatim>\<open>AtomicBool::compare_exchange\<close>: the value is replaced when it is the expected one; the result
  says whether it was.
\<close>

definition compare_exchange :: "bool \<Rightarrow> bool \<Rightarrow> bool \<Rightarrow> bool \<times> bool" where
  "compare_exchange current new cell = (if cell = current then (True, new) else (False, cell))"

text \<open>A guard is represented by the fact that it exists; its data is the data of the mutex.\<close>

definition try_lock :: "u32 \<Rightarrow> 'a Mutex \<Rightarrow> unit res \<times> 'a Mutex" where
  "try_lock line m =
     (case compare_exchange False True (is_taken m) of
        (True, t) \<Rightarrow> (Ok (), m\<lparr>is_taken := t, taker_line_num := line\<rparr>)
      | (False, t) \<Rightarrow> (Err ''Lock failed'', m\<lparr>is_taken := t\<rparr>))"

fun lock_attempts :: "nat \<Rightarrow> u32 \<Rightarrow> 'a Mutex \<Rightarrow> 'a Mutex res" where
  "lock_attempts 0 line m = Panic ''Failed to lock Mutex''"
| "lock_attempts (Suc n) line m =
     (case try_lock line m of (Ok _, m') \<Rightarrow> Ok m' | (_, m') \<Rightarrow> lock_attempts n line m')"

definition lock :: "u32 \<Rightarrow> 'a Mutex \<Rightarrow> 'a Mutex res" where
  "lock line m = lock_attempts 10000 line m"

definition MutexGuard_drop :: "'a Mutex \<Rightarrow> 'a Mutex" where
  "MutexGuard_drop m = m\<lparr>is_taken := False\<rparr>"

text \<open>
  The closure gets the data and returns its result with the changed data; the guard is dropped on
  both outcomes, and a panic in the closure stops the kernel.
\<close>

definition under_locked :: "u32 \<Rightarrow> ('a \<Rightarrow> 'r res \<times> 'a) \<Rightarrow> 'a Mutex \<Rightarrow> 'r res \<times> 'a Mutex" where
  "under_locked line f m =
     (case lock line m of
        Ok m1 \<Rightarrow> (case f (mx_data m1) of (r, d) \<Rightarrow>
           if no_fault r then (r, MutexGuard_drop (m1\<lparr>mx_data := d\<rparr>)) else (r, m1\<lparr>mx_data := d\<rparr>))
      | Err e \<Rightarrow> (Err e, m) | Panic p \<Rightarrow> (Panic p, m) | UB \<Rightarrow> (UB, m))"

lemma lock_free: "\<not> is_taken m \<Longrightarrow> lock line m = Ok (m\<lparr>is_taken := True, taker_line_num := line\<rparr>)"
  unfolding lock_def by (subst lock_attempts.simps(2) [of 9999, simplified]) (simp add: try_lock_def compare_exchange_def)

lemma lock_attempts_taken: "is_taken m \<Longrightarrow> lock_attempts n line m = Panic ''Failed to lock Mutex''"
  by (induction n arbitrary: m) (simp_all add: try_lock_def compare_exchange_def)

lemma lock_taken: "is_taken m \<Longrightarrow> lock line m = Panic ''Failed to lock Mutex''"
  by (simp add: lock_def lock_attempts_taken)

lemma under_locked_free:
  assumes "\<not> is_taken m" "f (mx_data m) = (r, d)" "no_fault r"
  shows "under_locked line f m = (r, m\<lparr>mx_data := d, taker_line_num := line\<rparr>)"
  using assms by (cases m) (simp add: under_locked_def lock_free MutexGuard_drop_def)

section \<open>Concurrent callers\<close>

text \<open>
  A caller of \<open>under_locked\<close> is in one of these places: outside; about to make its next attempt,
  with the attempts that are left; holding the flag before the taker's line is stored; inside the
  closure, before and after it has read the data; before the drop of the guard; panicked.
\<close>

datatype 'a pc =
    Outside
  | Trying nat "'a \<Rightarrow> 'a"
  | Acquired "'a \<Rightarrow> 'a"
  | Entered "'a \<Rightarrow> 'a"
  | Loaded "'a \<Rightarrow> 'a" 'a
  | Stored
  | Panicked

record ('t, 'a) world =
  wmutex :: "'a Mutex"
  wpc :: "'t \<Rightarrow> 'a pc"
  wdone :: "('t \<times> ('a \<Rightarrow> 'a)) list"

definition set_pc :: "'t \<Rightarrow> 'a pc \<Rightarrow> ('t, 'a) world \<Rightarrow> ('t, 'a) world" where
  "set_pc t p w = w\<lparr>wpc := (wpc w)(t := p)\<rparr>"

text \<open>
  The list \<open>wdone\<close> is a history variable: the closures in the order in which they wrote their result.
\<close>

inductive mstep :: "('t, 'a) world \<Rightarrow> ('t, 'a) world \<Rightarrow> bool" where
  call: "wpc w t = Outside \<Longrightarrow> mstep w (set_pc t (Trying 10000 f) w)"
| win: "wpc w t = Trying (Suc n) f \<Longrightarrow> compare_exchange False True (is_taken (wmutex w)) = (True, b) \<Longrightarrow>
    mstep w (set_pc t (Acquired f) (w\<lparr>wmutex := (wmutex w)\<lparr>is_taken := b\<rparr>\<rparr>))"
| lose: "wpc w t = Trying (Suc n) f \<Longrightarrow> compare_exchange False True (is_taken (wmutex w)) = (False, b) \<Longrightarrow>
    mstep w (set_pc t (Trying n f) w)"
| give_up: "wpc w t = Trying 0 f \<Longrightarrow> mstep w (set_pc t Panicked w)"
| note_taker: "wpc w t = Acquired f \<Longrightarrow>
    mstep w (set_pc t (Entered f) (w\<lparr>wmutex := (wmutex w)\<lparr>taker_line_num := line\<rparr>\<rparr>))"
| load: "wpc w t = Entered f \<Longrightarrow> mstep w (set_pc t (Loaded f (mx_data (wmutex w))) w)"
| store: "wpc w t = Loaded f x \<Longrightarrow>
    mstep w (set_pc t Stored (w\<lparr>wmutex := (wmutex w)\<lparr>mx_data := f x\<rparr>, wdone := wdone w @ [(t, f)]\<rparr>))"
| unlock: "wpc w t = Stored \<Longrightarrow>
    mstep w (set_pc t Outside (w\<lparr>wmutex := MutexGuard_drop (wmutex w)\<rparr>))"

definition mstart :: "'a Mutex \<Rightarrow> ('t, 'a) world" where
  "mstart m = \<lparr>wmutex = m, wpc = (\<lambda>_. Outside), wdone = []\<rparr>"

fun holds :: "'a pc \<Rightarrow> bool" where
  "holds (Acquired f) = True"
| "holds (Entered f) = True"
| "holds (Loaded f x) = True"
| "holds Stored = True"
| "holds _ = False"

definition replay_done :: "('t \<times> ('a \<Rightarrow> 'a)) list \<Rightarrow> 'a \<Rightarrow> 'a" where
  "replay_done h d = foldl (\<lambda>x (t, f). f x) d h"

text \<open>The invariant: the flag says whether somebody holds, at most one caller holds, a loaded value is current.\<close>

definition mutex_inv :: "'a \<Rightarrow> ('t, 'a) world \<Rightarrow> bool" where
  "mutex_inv d w \<longleftrightarrow>
     (is_taken (wmutex w) \<longleftrightarrow> (\<exists>t. holds (wpc w t))) \<and>
     (\<forall>t u. holds (wpc w t) \<and> holds (wpc w u) \<longrightarrow> t = u) \<and>
     (\<forall>t f x. wpc w t = Loaded f x \<longrightarrow> x = mx_data (wmutex w)) \<and>
     mx_data (wmutex w) = replay_done (wdone w) d"

lemma mutex_inv_start: "\<not> is_taken m \<Longrightarrow> mutex_inv (mx_data m) (mstart m)"
  by (simp add: mutex_inv_def mstart_def replay_done_def)

text \<open>A step that moves one caller without changing who holds keeps the invariant.\<close>

lemma mutex_inv_set_pc:
  assumes "mutex_inv d w" "holds p = holds (wpc w t)" "\<And>f x. p = Loaded f x \<Longrightarrow> x = mx_data (wmutex w)"
    and "is_taken m = is_taken (wmutex w)" "mx_data m = mx_data (wmutex w)"
  shows "mutex_inv d (set_pc t p (w\<lparr>wmutex := m\<rparr>))"
proof -
  have "\<And>u. holds (wpc (set_pc t p (w\<lparr>wmutex := m\<rparr>)) u) = holds (wpc w u)"
    using assms(2) by (simp add: set_pc_def)
  then show ?thesis using assms unfolding mutex_inv_def by (auto simp: set_pc_def)
qed

lemma mutex_inv_step: "mstep w w' \<Longrightarrow> mutex_inv d w \<Longrightarrow> mutex_inv d w'"
proof (induction rule: mstep.induct)
  case (store w t f x)
  have only: "\<And>u. holds (wpc w u) \<Longrightarrow> u = t" using store unfolding mutex_inv_def by (metis holds.simps(3))
  then have "\<And>u g y. u \<noteq> t \<Longrightarrow> wpc w u \<noteq> Loaded g y" by (metis holds.simps(3))
  moreover have "is_taken (wmutex w)" using store unfolding mutex_inv_def by (metis holds.simps(3))
  ultimately show ?case using store unfolding mutex_inv_def
    by (auto simp: set_pc_def replay_done_def)
next
  case (unlock w t)
  have only: "\<And>u. holds (wpc w u) \<Longrightarrow> u = t" using unlock unfolding mutex_inv_def by (metis holds.simps(4))
  then show ?case using unlock unfolding mutex_inv_def
    by (auto simp: set_pc_def MutexGuard_drop_def)
next
  case (win w t n f b)
  then have none: "\<And>u. \<not> holds (wpc w u)"
    by (auto simp: mutex_inv_def compare_exchange_def split: if_splits)
  then have "\<And>u g y. wpc w u \<noteq> Loaded g y" by (metis holds.simps(3))
  then show ?case using win none unfolding mutex_inv_def
    by (auto simp: set_pc_def compare_exchange_def split: if_splits)
next
  case (call w t f)
  then show ?case using mutex_inv_set_pc [of d w "Trying 10000 f" t "wmutex w"] by simp
next
  case (lose w t n f b)
  then show ?case using mutex_inv_set_pc [of d w "Trying n f" t "wmutex w"] by simp
next
  case (give_up w t f)
  then show ?case using mutex_inv_set_pc [of d w Panicked t "wmutex w"] by simp
next
  case (note_taker w t f line)
  then show ?case by (intro mutex_inv_set_pc) simp_all
next
  case (load w t f)
  then show ?case using mutex_inv_set_pc [of d w "Loaded f (mx_data (wmutex w))" t "wmutex w"] by simp
qed


lemma mutex_inv_reachable: "mstep\<^sup>*\<^sup>* (mstart m) w \<Longrightarrow> \<not> is_taken m \<Longrightarrow> mutex_inv (mx_data m) w"
  by (induction rule: rtranclp_induct) (auto intro: mutex_inv_start mutex_inv_step)

end
