(* ===== verification/Hpet.thy ===== *)
theory Hpet
  imports Mmio Spin_Mutex
begin

text \<open>
  The timer (\<^verbatim>\<open>hpet.rs\<close>): the register block at its base address behind the bus, \<^verbatim>\<open>Hpet::new\<close>, and the
  conversion of the main counter to a time stamp. Field offsets follow from the \<^verbatim>\<open>repr(C)\<close> layout:
  capabilities at 0, configuration at 0x10, main counter at 0xF0, timer \<open>i\<close> at 0x100 + 0x20 i.
\<close>

definition TIMER_CONFIG_INT_ENABLE :: u64 where "TIMER_CONFIG_INT_ENABLE = push_bit 2 1"
definition TIMER_CONFIG_USE_PERIODIC :: u64 where "TIMER_CONFIG_USE_PERIODIC = push_bit 3 1"

record Hpet =
  hpet_base :: u64
  num_of_timers :: usize
  hpet_freq :: nat

definition off_configuration :: u64 where "off_configuration = 0x10"
definition off_main_counter :: u64 where "off_main_counter = 0xF0"
definition off_timer :: "nat \<Rightarrow> u64" where "off_timer i = 0x100 + 0x20 * word_of_nat i"

definition write_config :: "'d bus \<Rightarrow> u64 \<Rightarrow> nat \<Rightarrow> u64 \<Rightarrow> 'd \<Rightarrow> 'd" where
  "write_config bus base i config d = wr64 bus (base + off_timer i) config d"

definition globally_disable :: "'d bus \<Rightarrow> u64 \<Rightarrow> 'd \<Rightarrow> 'd" where
  "globally_disable bus base d =
     (case rd64 bus (base + off_configuration) d of (c, d1) \<Rightarrow>
      wr64 bus (base + off_configuration) (c AND NOT 0b11) d1)"

definition globally_enable :: "'d bus \<Rightarrow> u64 \<Rightarrow> 'd \<Rightarrow> 'd" where
  "globally_enable bus base d =
     (case rd64 bus (base + off_configuration) d of (c, d1) \<Rightarrow>
      wr64 bus (base + off_configuration) (c OR 0b01) d1)"

definition timer_reset_config :: "u64 \<Rightarrow> u64" where
  "timer_reset_config config =
     config AND NOT (TIMER_CONFIG_INT_ENABLE OR TIMER_CONFIG_USE_PERIODIC OR push_bit 9 0b11111)"

text \<open>The loop over the timers; indexing past the 32 timers of the block would panic.\<close>

fun reset_timers :: "'d bus \<Rightarrow> u64 \<Rightarrow> nat list \<Rightarrow> 'd \<Rightarrow> 'd res" where
  "reset_timers bus base [] d = Ok d"
| "reset_timers bus base (i # is) d =
     (if i \<ge> 32 then Panic ''index out of bounds''
      else (case rd64 bus (base + off_timer i) d of (config, d1) \<Rightarrow>
            reset_timers bus base is (write_config bus base i (timer_reset_config config) d1)))"

definition Hpet_new :: "'d bus \<Rightarrow> u64 \<Rightarrow> 'd \<Rightarrow> (Hpet \<times> 'd) res" where
  "Hpet_new bus base d =
     (case rd64 bus base d of (cap, d1) \<Rightarrow>
      let fs_per_count = drop_bit 32 cap;
          num = unat (drop_bit 8 cap AND 0b11111) + 1 in
      and_then (div_u 1000000000000000 (unat fs_per_count)) (\<lambda>freq.
      and_then (reset_timers bus base [0..<num] (globally_disable bus base d1)) (\<lambda>d2.
      let d3 = wr64 bus (base + off_main_counter) 0 d2 in
      Ok (\<lparr>hpet_base = base, num_of_timers = num, hpet_freq = freq\<rparr>, globally_enable bus base d3))))"

definition main_counter :: "'d bus \<Rightarrow> Hpet \<Rightarrow> 'd \<Rightarrow> u64 \<times> 'd" where
  "main_counter bus h d = rd64 bus (hpet_base h + off_main_counter) d"

definition set_global_hpet :: "Hpet \<Rightarrow> Hpet option \<Rightarrow> Hpet option res" where
  "set_global_hpet h g = and_then (assert_that (g = None) ''assertion failed'') (\<lambda>_. Ok (Some h))"

text \<open>
  \<^verbatim>\<open>global_timestamp\<close>: the product is computed with 128 bits, the quotient is cut to 64 bits of
  nanoseconds.
\<close>

definition counter_to_ns :: "nat \<Rightarrow> nat \<Rightarrow> nat res" where
  "counter_to_ns counter freq =
     and_then (mul_u 128 counter 1000000000) (\<lambda>x.
     and_then (div_u x freq) (\<lambda>ns. Ok (ns mod 2 ^ 64)))"

definition global_timestamp :: "'d bus \<Rightarrow> Hpet option \<Rightarrow> 'd \<Rightarrow> (nat \<times> 'd) res" where
  "global_timestamp bus g d =
     (case g of None \<Rightarrow> Ok (0, d)
      | Some h \<Rightarrow> (case main_counter bus h d of (c, d') \<Rightarrow>
          and_then (counter_to_ns (unat c) (hpet_freq h)) (\<lambda>ns. Ok (ns, d'))))"

section \<open>Lemmas\<close>

lemma counter_to_ns_eq:
  assumes "counter < 2 ^ 64" "0 < freq"
  shows "counter_to_ns counter freq = Ok (counter * 1000000000 div freq mod 2 ^ 64)"
  using assms by (simp add: counter_to_ns_def mul_u_def div_u_def)

text \<open>The quotient is within one of the exact ratio; differences are within one of the exact difference.\<close>

lemma floor_diff:
  assumes "0 < (f :: nat)" "x \<le> y"
  shows "x div f + d < y div f \<longrightarrow> d * f < y - x"
    and "(d + 2) * f \<le> y - x \<longrightarrow> x div f + d < y div f"
proof -
  have x: "x div f * f \<le> x" "x < x div f * f + f" and y: "y div f * f \<le> y" "y < y div f * f + f"
    using dividend_less_div_times [OF assms(1), of x] dividend_less_div_times [OF assms(1), of y] by simp_all
  show "x div f + d < y div f \<longrightarrow> d * f < y - x"
  proof
    assume "x div f + d < y div f"
    then have "(x div f + d + 1) * f \<le> y div f * f" by (intro mult_right_mono) simp_all
    then have "x div f * f + d * f + f \<le> y" using y(1) by (simp only: add_mult_distrib)
    then show "d * f < y - x" using x(2) assms(2) by linarith
  qed
  show "(d + 2) * f \<le> y - x \<longrightarrow> x div f + d < y div f"
  proof
    assume a: "(d + 2) * f \<le> y - x"
    have "(x div f + d + 1) * f \<le> y"
      using a x(1) assms(2) by (simp only: add_mult_distrib)
    then have "x div f + d + 1 \<le> y div f" using assms(1) by (simp add: less_eq_div_iff_mult_less_eq)
    then show "x div f + d < y div f" by simp
  qed
qed

end
