(* ===== verification/Executor.thy ===== *)
theory Executor
  imports Spin_Mutex Hpet
begin

text \<open>
  The task executor (\<^verbatim>\<open>executor.rs\<close>). A future is a state of any type with a poll function, which is
  a parameter: it may change the rest of the kernel (the world) and may spawn tasks, which
  \<^verbatim>\<open>spawn_global\<close> appends to the queue while the poll runs. The lock of the global executor is taken
  and released within each access to the queue and never across a poll.
\<close>

section \<open>Tasks\<close>

datatype 'a Poll = Ready 'a | Pending

record 'f Task =
  future :: 'f
  task_file :: string
  task_line :: u32

definition Task_new :: "string \<times> u32 \<Rightarrow> 'f \<Rightarrow> 'f Task" where
  "Task_new caller f = \<lparr>future = f, task_file = fst caller, task_line = snd caller\<rparr>"

text \<open>One poll: the outcome, the future's new state, the tasks spawned meanwhile, the new world.\<close>

type_synonym ('f, 'w, 'r) poller = "'f \<Rightarrow> 'w \<Rightarrow> 'r res Poll \<times> 'f \<times> 'f Task list \<times> 'w"

definition Task_poll ::
  "('f, 'w, 'r) poller \<Rightarrow> 'f Task \<Rightarrow> 'w \<Rightarrow> 'r res Poll \<times> 'f Task \<times> 'f Task list \<times> 'w" where
  "Task_poll poll task w =
     (case poll (future task) w of (p, f, spawned, w') \<Rightarrow> (p, task\<lparr>future := f\<rparr>, spawned, w'))"

text \<open>\<^verbatim>\<open>block_on\<close> polls one task until it is ready; what it spawns is collected.\<close>

partial_function (option) block_on_loop ::
  "('f, 'w, 'r) poller \<Rightarrow> 'f Task \<Rightarrow> 'f Task list \<Rightarrow> 'w \<Rightarrow> ('r res \<times> 'f Task list \<times> 'w) option" where
  "block_on_loop poll task acc w =
     (case Task_poll poll task w of
        (Ready r, _, spawned, w') \<Rightarrow> Some (r, acc @ spawned, w')
      | (Pending, task', spawned, w') \<Rightarrow> block_on_loop poll task' (acc @ spawned) w')"

definition block_on where
  "block_on poll caller f w = block_on_loop poll (Task_new caller f) [] w"

section \<open>The executor\<close>

record 'f Executor =
  task_queue_opt :: "'f Task list option"

definition Executor_new :: "'f Executor" where
  "Executor_new = \<lparr>task_queue_opt = None\<rparr>"

text \<open>\<^verbatim>\<open>task_queue\<close> creates the queue on first use; the result is the queue and the executor that has it.\<close>

definition task_queue :: "'f Executor \<Rightarrow> 'f Task list \<times> 'f Executor" where
  "task_queue e =
     (case task_queue_opt e of
        None \<Rightarrow> ([], e\<lparr>task_queue_opt := Some []\<rparr>)
      | Some q \<Rightarrow> (q, e))"

definition enqueue :: "'f Task \<Rightarrow> 'f Executor \<Rightarrow> 'f Executor" where
  "enqueue task e = (case task_queue e of (q, e') \<Rightarrow> e'\<lparr>task_queue_opt := Some (q @ [task])\<rparr>)"

definition pop_front :: "'f Executor \<Rightarrow> 'f Task option \<times> 'f Executor" where
  "pop_front e =
     (case task_queue e of
        ([], e') \<Rightarrow> (None, e')
      | (t # q, e') \<Rightarrow> (Some t, e'\<lparr>task_queue_opt := Some q\<rparr>))"

text \<open>\<^verbatim>\<open>GLOBAL_EXECUTOR.lock().get_or_insert_default().enqueue(task)\<close>.\<close>

definition spawn_global :: "'f Task \<Rightarrow> 'f Executor option \<Rightarrow> 'f Executor option" where
  "spawn_global task g = Some (enqueue task (case g of None \<Rightarrow> Executor_new | Some e \<Rightarrow> e))"

record ('f, 'w, 'r) kernel =
  executor :: "'f Executor option"
  kworld :: 'w
  completed :: "((string \<times> u32) \<times> 'r res) list"

text \<open>One turn of the loop of \<^verbatim>\<open>Executor::run\<close>. \<open>completed\<close> is what it logs.\<close>

definition run_turn :: "('f, 'w, 'r) poller \<Rightarrow> ('f, 'w, 'r) kernel \<Rightarrow> ('f, 'w, 'r) kernel" where
  "run_turn poll k =
     (case executor k of
        None \<Rightarrow> k
      | Some e \<Rightarrow>
         (case pop_front e of
            (None, e') \<Rightarrow> k\<lparr>executor := Some e'\<rparr>
          | (Some task, e') \<Rightarrow>
             (case Task_poll poll task (kworld k) of (p, task', spawned, w') \<Rightarrow>
              let g = fold spawn_global spawned (Some e');
                  k' = k\<lparr>executor := g, kworld := w'\<rparr> in
              case p of
                Ready r \<Rightarrow> k'\<lparr>completed := completed k @ [((task_file task', task_line task'), r)]\<rparr>
              | Pending \<Rightarrow> k'\<lparr>executor := map_option (enqueue task') g\<rparr>)))"

definition run_turns :: "('f, 'w, 'r) poller \<Rightarrow> nat \<Rightarrow> ('f, 'w, 'r) kernel \<Rightarrow> ('f, 'w, 'r) kernel" where
  "run_turns poll n = run_turn poll ^^ n"

section \<open>Futures of the module\<close>

definition Yield_poll :: "bool \<Rightarrow> unit Poll \<times> bool" where
  "Yield_poll polled = (if polled then Ready () else Pending, True)"

record TimeoutFuture =
  time_out :: nat

text \<open>Durations are in nanoseconds; the sum panics above the largest \<^verbatim>\<open>Duration\<close>.\<close>

definition DURATION_MAX :: nat where
  "DURATION_MAX = (2 ^ 64 - 1) * 1000000000 + 999999999"

definition TimeoutFuture_new :: "nat \<Rightarrow> nat \<Rightarrow> TimeoutFuture res" where
  "TimeoutFuture_new now duration =
     (if now + duration \<le> DURATION_MAX then Ok \<lparr>time_out = now + duration\<rparr>
      else Panic ''overflow when adding durations'')"

definition TimeoutFuture_poll :: "nat \<Rightarrow> TimeoutFuture \<Rightarrow> unit Poll" where
  "TimeoutFuture_poll now f = (if time_out f < now then Ready () else Pending)"

section \<open>The queue as a list\<close>

definition queue_of :: "('f, 'w, 'r) kernel \<Rightarrow> 'f Task list" where
  "queue_of k = (case executor k of None \<Rightarrow> [] | Some e \<Rightarrow> (case task_queue_opt e of None \<Rightarrow> [] | Some q \<Rightarrow> q))"

lemma fold_spawn:
  "fold spawn_global ts (Some e) = Some (if ts = [] then e else e\<lparr>task_queue_opt := Some (fst (task_queue e) @ ts)\<rparr>)"
proof (induction ts arbitrary: e)
  case (Cons t ts)
  then show ?case
    by (cases ts) (auto simp: spawn_global_def enqueue_def task_queue_def split: option.splits)
qed simp

text \<open>What one turn does to the queue, the world and the log.\<close>

lemma run_turn_queue:
  assumes "queue_of k = t # q" "Task_poll poll t (kworld k) = (p, t', spawned, w')"
  shows "queue_of (run_turn poll k) = q @ spawned @ (case p of Ready r \<Rightarrow> [] | Pending \<Rightarrow> [t']) \<and>
    kworld (run_turn poll k) = w' \<and>
    completed (run_turn poll k) = completed k @
      (case p of Ready r \<Rightarrow> [((task_file t', task_line t'), r)] | Pending \<Rightarrow> [])"
proof -
  obtain e where e: "executor k = Some e" "task_queue_opt e = Some (t # q)"
    using assms(1) by (auto simp: queue_of_def split: option.splits)
  then show ?thesis using assms(2)
    by (auto simp: run_turn_def pop_front_def task_queue_def fold_spawn queue_of_def enqueue_def Let_def
        split: Poll.splits)
qed

lemma run_turns_Suc: "run_turns poll (Suc n) k = run_turns poll n (run_turn poll k)"
  by (simp add: run_turns_def funpow_Suc_right del: funpow.simps(2))

lemma run_turns_add: "run_turns poll (m + n) k = run_turns poll n (run_turns poll m k)"
  by (simp add: run_turns_def funpow_add add.commute [of m n])

lemma completed_mono: "set (completed k) \<subseteq> set (completed (run_turns poll n k))"
proof (induction n arbitrary: k)
  case (Suc n)
  have "set (completed k) \<subseteq> set (completed (run_turn poll k))"
    by (auto simp: run_turn_def Let_def split: option.splits prod.splits Poll.splits)
  then show ?case using Suc by (fastforce simp: run_turns_Suc)
qed (simp add: run_turns_def)

text \<open>The tasks of the queue reach the front one after the other.\<close>

lemma reaches_front:
  assumes "queue_of k = pre @ t # q"
  shows "\<exists>q'. queue_of (run_turns poll (length pre) k) = t # q'"
  using assms
proof (induction pre arbitrary: k q)
  case Nil
  then show ?case by (simp add: run_turns_def)
next
  case (Cons u pre)
  obtain p u' spawned w' where p: "Task_poll poll u (kworld k) = (p, u', spawned, w')"
    by (cases "Task_poll poll u (kworld k)") auto
  have "queue_of (run_turn poll k) = pre @ t # (q @ spawned @ (case p of Ready r \<Rightarrow> [] | Pending \<Rightarrow> [u']))"
    using run_turn_queue [OF _ p] Cons.prems by simp
  then show ?case using Cons.IH by (simp add: run_turns_Suc)
qed

text \<open>A future is ready within \<open>n\<close> polls when, whatever the world does, a poll among the first \<open>n\<close> is ready.\<close>

fun ready_within :: "('f, 'w, 'r) poller \<Rightarrow> nat \<Rightarrow> 'f \<Rightarrow> bool" where
  "ready_within poll 0 f = False"
| "ready_within poll (Suc n) f =
     (\<forall>w. case poll f w of (Ready r, _, _, _) \<Rightarrow> True | (Pending, f', _, _) \<Rightarrow> ready_within poll n f')"

lemma task_completes:
  assumes "t \<in> set (queue_of k)" "ready_within poll n (future t)"
  shows "\<exists>m r. ((task_file t, task_line t), r) \<in> set (completed (run_turns poll m k))"
  using assms
proof (induction n arbitrary: t k)
  case (Suc n)
  obtain pre q where "queue_of k = pre @ t # q" using Suc.prems(1) split_list by fast
  then obtain q' where q': "queue_of (run_turns poll (length pre) k) = t # q'" using reaches_front by blast
  let ?k = "run_turns poll (length pre) k"
  obtain p f' spawned w' where p: "poll (future t) (kworld ?k) = (p, f', spawned, w')"
    by (cases "poll (future t) (kworld ?k)") auto
  then have tp: "Task_poll poll t (kworld ?k) = (p, t\<lparr>future := f'\<rparr>, spawned, w')"
    by (simp add: Task_poll_def)
  note turn = run_turn_queue [OF q' tp]
  have next_k: "run_turns poll (Suc (length pre)) k = run_turn poll ?k"
    using run_turns_add [of poll "length pre" 1 k] by (simp add: run_turns_def)
  show ?case
  proof (cases p)
    case (Ready r)
    then have "((task_file t, task_line t), r) \<in> set (completed (run_turns poll (Suc (length pre)) k))"
      using turn by (simp add: next_k)
    then show ?thesis by blast
  next
    case Pending
    then have "t\<lparr>future := f'\<rparr> \<in> set (queue_of (run_turn poll ?k))" using turn by simp
    moreover have "ready_within poll n f'"
    proof -
      have "case poll (future t) (kworld ?k) of (Ready r, _, _, _) \<Rightarrow> True | (Pending, f', _, _) \<Rightarrow> ready_within poll n f'"
        using Suc.prems(2) by simp
      then show ?thesis using p Pending by simp
    qed
    ultimately obtain m r where
      "((task_file t, task_line t), r) \<in> set (completed (run_turns poll m (run_turn poll ?k)))"
      using Suc.IH [of "t\<lparr>future := f'\<rparr>" "run_turn poll ?k"] by auto
    then have "((task_file t, task_line t), r) \<in> set (completed (run_turns poll (Suc (length pre) + m) k))"
      by (simp only: run_turns_add next_k)
    then show ?thesis by blast
  qed
qed simp

end
