(* ===== verification/Executor_Theorems.thy ===== *)
theory Executor_Theorems
  imports Executor
begin

text \<open>The properties of the lock, the executor and the clock.\<close>

section \<open>The lock\<close>

text \<open>
  Property C28 (safety). Callers of \<open>under_locked\<close> that run concurrently are serialised: in every reachable
  state at most one is between acquiring and releasing, the flag is set exactly while there is one,
  and the data is what running the closures one after the other in the order of their writes gives
  (no update is lost). To a single caller a free lock is taken at the first attempt and a lock that is
  already held is a panic, not a deadlock.
\<close>

theorem mutex_serialises:
  assumes "mstep\<^sup>*\<^sup>* (mstart m) w" "\<not> is_taken m"
  shows "(holds (wpc w t) \<and> holds (wpc w u) \<longrightarrow> t = u) \<and>
    (is_taken (wmutex w) \<longleftrightarrow> (\<exists>t. holds (wpc w t))) \<and>
    mx_data (wmutex w) = replay_done (wdone w) (mx_data m) \<and>
    lock line (wmutex w) = (if \<exists>t. holds (wpc w t) then Panic ''Failed to lock Mutex''
      else Ok ((wmutex w)\<lparr>is_taken := True, taker_line_num := line\<rparr>))"
  using mutex_inv_reachable [OF assms] unfolding mutex_inv_def by (simp add: lock_taken lock_free)

definition demo_mutex :: "nat Mutex" where
  "demo_mutex = Mutex_new (''main.rs'', 10) 5"

definition demo_contended :: "(bool, nat) world" where
  "demo_contended = set_pc True (Trying 9999 Suc) (set_pc True (Trying 10000 Suc)
     (set_pc False (Acquired Suc) ((set_pc False (Trying 10000 Suc) (mstart demo_mutex))
       \<lparr>wmutex := demo_mutex\<lparr>is_taken := True\<rparr>\<rparr>)))"

lemma demo_contended_reachable: "mstep\<^sup>*\<^sup>* (mstart demo_mutex) demo_contended"
proof -
  let ?w1 = "set_pc False (Trying 10000 Suc) (mstart demo_mutex) :: (bool, nat) world"
  let ?w2 = "set_pc False (Acquired Suc) (?w1\<lparr>wmutex := (wmutex ?w1)\<lparr>is_taken := True\<rparr>\<rparr>)"
  let ?w3 = "set_pc True (Trying 10000 Suc) ?w2"
  have "mstep (mstart demo_mutex) ?w1" by (rule mstep.call) (simp add: mstart_def)
  moreover have "mstep ?w1 ?w2"
    by (rule mstep.win [where n = 9999])
      (simp_all add: set_pc_def mstart_def demo_mutex_def Mutex_new_def compare_exchange_def)
  moreover have "mstep ?w2 ?w3" by (rule mstep.call) (simp add: set_pc_def mstart_def)
  moreover have "mstep ?w3 (set_pc True (Trying 9999 Suc) ?w3)"
    by (rule mstep.lose) (simp_all add: set_pc_def compare_exchange_def)
  moreover have "demo_contended = set_pc True (Trying 9999 Suc) ?w3"
    by (simp add: demo_contended_def set_pc_def mstart_def)
  ultimately show ?thesis by (metis (no_types, lifting) converse_rtranclp_into_rtranclp rtranclp.rtrancl_refl)
qed

theorem mutex_serialises_witness:
  "holds (wpc demo_contended False) \<and> \<not> holds (wpc demo_contended True) \<and>
    lock 20 (wmutex demo_contended) = Panic ''Failed to lock Mutex''"
proof -
  have f: "holds (wpc demo_contended False)" by (simp add: demo_contended_def set_pc_def)
  have "\<not> is_taken demo_mutex" by (simp add: demo_mutex_def Mutex_new_def)
  note m = mutex_serialises [OF demo_contended_reachable this]
  show ?thesis using m [of False True 20] f by auto
qed

section \<open>The executor\<close>

text \<open>
  Property C29 (liveness). The executor is fair: the tasks of the queue are polled in the order of the queue,
  the one at position \<open>n\<close> after exactly \<open>n\<close> turns, whatever the polled tasks do and spawn; and a
  task in the queue whose future becomes ready within any number of polls is eventually logged as
  completed.
\<close>

theorem executor_fair:
  assumes "queue_of k = pre @ t # q"
  shows "(\<exists>q'. queue_of (run_turns poll (length pre) k) = t # q') \<and>
    (ready_within poll n (future t) \<longrightarrow>
      (\<exists>m r. ((task_file t, task_line t), r) \<in> set (completed (run_turns poll m k))))"
  using reaches_front [OF assms] task_completes [of t k poll n] assms by auto

text \<open>
  Tasks that yield a number of times, each \<open>yield_execution\<close> being a \<^verbatim>\<open>Yield\<close> future; the first one
  spawns another task at its first poll.
\<close>

fun demo_poll :: "(nat \<times> bool, nat, unit) poller" where
  "demo_poll (0, p) w = (Ready (Ok ()), (0, p), [], w)"
| "demo_poll (Suc n, p) w =
     (case Yield_poll p of
        (Pending, p') \<Rightarrow> (Pending, (Suc n, p'), if w = 0 then [Task_new (''t.rs'', 3) (1, False)] else [], w + 1)
      | (Ready _, _) \<Rightarrow> (Pending, (n, False), [], w + 1))"

definition demo_kernel :: "(nat \<times> bool, nat, unit) kernel" where
  "demo_kernel = \<lparr>executor = fold spawn_global [Task_new (''t.rs'', 1) (2, False), Task_new (''t.rs'', 2) (1, False)] None,
     kworld = 0, completed = []\<rparr>"

theorem executor_fair_witness:
  "\<exists>m r. ((''t.rs'', 2), r) \<in> set (completed (run_turns demo_poll m demo_kernel))"
proof -
  have q: "queue_of demo_kernel = [Task_new (''t.rs'', 1) (2, False)] @ Task_new (''t.rs'', 2) (1, False) # []"
    by (simp add: demo_kernel_def queue_of_def spawn_global_def enqueue_def task_queue_def Executor_new_def)
  have "ready_within demo_poll 3 (1, False)" by (simp add: numeral_3_eq_3 Yield_poll_def)
  then show ?thesis using executor_fair [OF q, of demo_poll 3] by (simp add: Task_new_def)
qed

section \<open>The clock\<close>

text \<open>
  Property C30 (bounds). For every counter value and every tick length that the HPET specification allows (at
  most 100 ns) the time stamp is defined, is never behind the exact time of the counter, and is
  ahead of it by less than one part in ten million, up to the wrap of 64-bit nanoseconds.
\<close>

theorem timestamp_accuracy:
  assumes "0 < fs" "fs \<le> 100000000" "c < 2 ^ 64"
    and "ns = c * 1000000000 div (1000000000000000 div fs)"
  shows "counter_to_ns c (1000000000000000 div fs) = Ok (ns mod 2 ^ 64) \<and>
    c * fs div 1000000 \<le> ns \<and> 9999999 * ns \<le> 10 * (c * fs)"
proof -
  let ?f = "1000000000000000 div fs"
  have f: "?f * fs \<le> 1000000000000000" "1000000000000000 < ?f * fs + fs"
    using assms(1) dividend_less_div_times [of fs "1000000000000000"] by simp_all
  have "0 < ?f" using assms(1,2) by (simp add: div_greater_zero_iff)
  have n: "ns * ?f \<le> c * 1000000000" "c * 1000000000 < ns * ?f + ?f"
    using dividend_less_div_times [OF \<open>0 < ?f\<close>, of "c * 1000000000"] assms(4) by simp_all
  have up: "9999999 * ns \<le> 10 * (c * fs)"
  proof -
    have "ns * 999999900000000 \<le> ns * (?f * fs)" using f(2) assms(2) by (intro mult_left_mono) linarith+
    also have "\<dots> \<le> c * 1000000000 * fs" using n(1) by (simp add: mult.assoc [symmetric])
    finally show ?thesis by simp
  qed
  have "c * fs div 1000000 \<le> ns"
  proof (rule ccontr)
    assume "\<not> ?thesis"
    then have "(ns + 1) * 1000000 \<le> c * fs" by (simp add: less_eq_div_iff_mult_less_eq)
    then have "(ns + 1) * 1000000 * ?f \<le> c * fs * ?f" by (rule mult_right_mono) simp
    also have "\<dots> \<le> c * 1000000000000000" using f(1) by (simp add: algebra_simps)
    finally have "(ns + 1) * ?f * 1000000 \<le> c * 1000000000 * 1000000" by (simp add: algebra_simps)
    then show False using n(2) by (simp add: algebra_simps)
  qed
  then show ?thesis using up counter_to_ns_eq [OF assms(3) \<open>0 < ?f\<close>] assms(4) by simp
qed

theorem timestamp_accuracy_witness:
  "\<exists>ns. counter_to_ns 1000000000 (1000000000000000 div 69841279) = Ok ns \<and> 69841279000 \<le> ns \<and>
    9999999 * ns \<le> 698412790000000000"
  using timestamp_accuracy [of 69841279 1000000000] by simp

text \<open>
  \<^verbatim>\<open>sleep\<close>: a timeout of \<open>dur\<close> nanoseconds that was created at counter value \<open>c0\<close> is never
  ready before the counter has advanced by more than \<open>dur\<close> nanoseconds at the timer's frequency, and
  is ready at every poll from \<open>dur + 2\<close> nanoseconds on.
\<close>

theorem sleep_duration:
  assumes "0 < freq" "c0 \<le> c1" "c1 < 2 ^ 64" "c1 * 1000000000 div freq < 2 ^ 64"
    and "counter_to_ns c0 freq = Ok t0" "counter_to_ns c1 freq = Ok t1" "TimeoutFuture_new t0 dur = Ok f"
  shows "(TimeoutFuture_poll t1 f = Ready () \<longrightarrow> dur * freq < (c1 - c0) * 1000000000) \<and>
    ((dur + 2) * freq \<le> (c1 - c0) * 1000000000 \<longrightarrow> TimeoutFuture_poll t1 f = Ready ())"
proof -
  let ?x = "c0 * 1000000000" and ?y = "c1 * 1000000000"
  have le: "?x div freq \<le> ?y div freq" using assms(2) by (intro div_le_mono) simp
  have t: "t0 = ?x div freq" "t1 = ?y div freq"
    using assms counter_to_ns_eq [of c0 freq] counter_to_ns_eq [of c1 freq] le by simp_all
  have f: "time_out f = t0 + dur" using assms(7) by (auto simp: TimeoutFuture_new_def split: if_splits)
  show ?thesis using floor_diff [of freq ?x ?y dur] assms(1,2) t f
    by (simp add: TimeoutFuture_poll_def diff_mult_distrib)
qed

theorem sleep_duration_witness:
  "TimeoutFuture_poll 1000000000 \<lparr>time_out = 500000000 + 100\<rparr> = Ready () \<and>
    counter_to_ns 5000000 10000000 = Ok 500000000 \<and> TimeoutFuture_new 500000000 100 = Ok \<lparr>time_out = 500000000 + 100\<rparr>"
proof -
  have c: "counter_to_ns 5000000 10000000 = Ok 500000000" "counter_to_ns 10000000 10000000 = Ok 1000000000"
    by (simp_all add: counter_to_ns_def mul_u_def div_u_def)
  have n: "TimeoutFuture_new 500000000 100 = Ok \<lparr>time_out = 500000000 + 100\<rparr>"
    by (simp add: TimeoutFuture_new_def DURATION_MAX_def)
  show ?thesis using sleep_duration [OF _ _ _ _ c n] c n by simp
qed

end
