(* ===== verification/Acpi.thy ===== *)
theory Acpi
  imports Mmio
begin

text \<open>
  The ACPI tables (\<^verbatim>\<open>acpi.rs\<close>) in physical memory. A reference to a table is its address; memory is
  a partial function from addresses to bytes, and reading a byte that is not backed is undefined.
  The structures are packed, which fixes the offsets: a header has its signature at 0 and its length
  at 4 and is 36 bytes long.
\<close>

type_synonym memory = "usize \<Rightarrow> u8 option"

fun mem_bytes :: "memory \<Rightarrow> usize \<Rightarrow> nat \<Rightarrow> u8 list res" where
  "mem_bytes m a 0 = Ok []"
| "mem_bytes m a (Suc n) =
     (case m a of None \<Rightarrow> UB | Some b \<Rightarrow> and_then (mem_bytes m (a + 1) n) (\<lambda>bs. Ok (b # bs)))"

definition mem_nat :: "memory \<Rightarrow> usize \<Rightarrow> nat \<Rightarrow> nat res" where
  "mem_nat m a n = and_then (mem_bytes m a n) (\<lambda>bs. Ok (le_nat bs))"

section \<open>Table headers\<close>

definition sdt_signature :: "memory \<Rightarrow> usize \<Rightarrow> u8 list res" where
  "sdt_signature m p = mem_bytes m p 4"

definition sdt_length :: "memory \<Rightarrow> usize \<Rightarrow> nat res" where
  "sdt_length m p = mem_nat m (p + 4) 4"

definition expect_signature :: "memory \<Rightarrow> usize \<Rightarrow> u8 list \<Rightarrow> unit res" where
  "expect_signature m p sig =
     and_then (sdt_signature m p) (\<lambda>s. assert_that (s = sig) ''assertion `left == right` failed'')"

definition ascii :: "string \<Rightarrow> u8 list" where
  "ascii s = map (\<lambda>c. of_char c) s"

section \<open>XSDT\<close>

definition xsdt_header_size :: usize where
  "xsdt_header_size = 36"

definition xsdt_num_of_entries :: "memory \<Rightarrow> usize \<Rightarrow> usize res" where
  "xsdt_num_of_entries m xsdt =
     and_then (sdt_length m xsdt) (\<lambda>len.
     and_then (sub_u len xsdt_header_size) (\<lambda>n. div_u n 8))"

definition xsdt_entry :: "memory \<Rightarrow> usize \<Rightarrow> usize \<Rightarrow> usize res" where
  "xsdt_entry m xsdt index = mem_nat m (xsdt + xsdt_header_size + 8 * index) 8"

text \<open>The iterator returns the next table and the new index.\<close>

definition XsdtIterator_next :: "memory \<Rightarrow> usize \<Rightarrow> usize \<Rightarrow> (usize option \<times> usize) res" where
  "XsdtIterator_next m xsdt index =
     and_then (xsdt_num_of_entries m xsdt) (\<lambda>n.
     if index \<ge> n then Ok (None, index)
     else and_then (add64 index 1) (\<lambda>index'.
          and_then (sub_u index' 1) (\<lambda>i.
          and_then (xsdt_entry m xsdt i) (\<lambda>p. Ok (Some p, index')))))"

text \<open>\<^verbatim>\<open>self.iter().find(|&e| e.signature() == sig)\<close> from the given index on.\<close>

partial_function (option) find_from :: "memory \<Rightarrow> usize \<Rightarrow> u8 list \<Rightarrow> usize \<Rightarrow> usize option res option" where
  "find_from m xsdt sig index =
     (case XsdtIterator_next m xsdt index of
        Ok (None, _) \<Rightarrow> Some (Ok None)
      | Ok (Some p, index') \<Rightarrow>
          (case sdt_signature m p of
             Ok s \<Rightarrow> if s = sig then Some (Ok (Some p)) else find_from m xsdt sig index'
           | Err e \<Rightarrow> Some (Err e) | Panic e \<Rightarrow> Some (Panic e) | UB \<Rightarrow> Some UB)
      | Err e \<Rightarrow> Some (Err e) | Panic e \<Rightarrow> Some (Panic e) | UB \<Rightarrow> Some UB)"

definition find_table :: "memory \<Rightarrow> usize \<Rightarrow> u8 list \<Rightarrow> usize option res option" where
  "find_table m xsdt sig = find_from m xsdt sig 0"

section \<open>The tables the kernel uses\<close>

definition AcpiTable_new :: "memory \<Rightarrow> u8 list \<Rightarrow> usize \<Rightarrow> usize res" where
  "AcpiTable_new m sig header = and_then (expect_signature m header sig) (\<lambda>_. Ok header)"

definition map_table :: "memory \<Rightarrow> u8 list \<Rightarrow> usize option \<Rightarrow> usize option res" where
  "map_table m sig x = (case x of None \<Rightarrow> Ok None | Some p \<Rightarrow> and_then (AcpiTable_new m sig p) (\<lambda>q. Ok (Some q)))"

text \<open>The root pointer structure has the address of the XSDT at offset 24.\<close>

definition rsdp_xsdt :: "memory \<Rightarrow> usize \<Rightarrow> usize res" where
  "rsdp_xsdt m rsdp = mem_nat m (rsdp + 24) 8"

definition rsdp_table :: "u8 list \<Rightarrow> memory \<Rightarrow> usize \<Rightarrow> usize option res option" where
  "rsdp_table sig m rsdp =
     and_then_opt (Some (rsdp_xsdt m rsdp)) (\<lambda>xsdt.
     and_then_opt (find_table m xsdt sig) (\<lambda>x. Some (map_table m sig x)))"

definition hpet :: "memory \<Rightarrow> usize \<Rightarrow> usize option res option" where
  "hpet = rsdp_table (ascii ''HPET'')"

definition mcfg :: "memory \<Rightarrow> usize \<Rightarrow> usize option res option" where
  "mcfg = rsdp_table (ascii ''MCFG'')"

definition address_in_memory_space :: "memory \<Rightarrow> usize \<Rightarrow> usize res" where
  "address_in_memory_space m p =
     and_then (mem_nat m p 1) (\<lambda>space.
     if space = 0 then mem_nat m (p + 4) 8
     else Err ''ACPI Generic Address is not in system memory space'')"

definition hpet_base_address :: "memory \<Rightarrow> usize \<Rightarrow> usize res" where
  "hpet_base_address m p = address_in_memory_space m (p + 36 + 4)"

definition mcfg_header_size :: usize where
  "mcfg_header_size = 44"

definition mcfg_num_of_entries :: "memory \<Rightarrow> usize \<Rightarrow> usize res" where
  "mcfg_num_of_entries m p =
     and_then (sdt_length m p) (\<lambda>len.
     and_then (sub_u len mcfg_header_size) (\<lambda>n. div_u n 16))"

definition mcfg_entry :: "memory \<Rightarrow> usize \<Rightarrow> usize \<Rightarrow> usize option res" where
  "mcfg_entry m p index =
     and_then (mcfg_num_of_entries m p) (\<lambda>n.
     Ok (if index \<ge> n then None else Some (p + mcfg_header_size + 16 * index)))"

definition ecam_base_address :: "memory \<Rightarrow> usize \<Rightarrow> nat res" where
  "ecam_base_address m e = mem_nat m e 8"

section \<open>Memory given by a list of bytes\<close>

definition bytes_mem :: "u8 list \<Rightarrow> memory" where
  "bytes_mem bs x = (if x < length bs then Some (bs ! x) else None)"

lemma mem_bytes_list: "a + n \<le> length bs \<Longrightarrow> mem_bytes (bytes_mem bs) a n = Ok (take n (drop a bs))"
proof (induction n arbitrary: a)
  case (Suc n)
  then have "drop a bs = bs ! a # drop (Suc a) bs" by (simp add: Cons_nth_drop_Suc)
  then show ?case using Suc by (simp add: bytes_mem_def)
qed simp

section \<open>Lookup in a well-formed XSDT\<close>

text \<open>
  A well-formed XSDT: its length covers the addresses \<open>ps\<close>, and each address points to a table with
  a readable signature.
\<close>

definition valid_xsdt :: "memory \<Rightarrow> usize \<Rightarrow> usize list \<Rightarrow> bool" where
  "valid_xsdt m xsdt ps \<longleftrightarrow>
     sdt_length m xsdt = Ok (36 + 8 * length ps) \<and> length ps < 2 ^ 64 \<and>
     (\<forall>i < length ps. xsdt_entry m xsdt i = Ok (ps ! i)) \<and>
     (\<forall>p \<in> set ps. \<exists>s. sdt_signature m p = Ok s)"

lemma find_from_valid:
  assumes "valid_xsdt m xsdt ps" "n \<le> length ps"
  shows "find_from m xsdt sig n = Some (Ok (find (\<lambda>p. sdt_signature m p = Ok sig) (drop n ps)))"
  using assms(2)
proof (induction "length ps - n" arbitrary: n)
  case 0
  then show ?case using assms(1)
    by (simp add: find_from.simps [of m xsdt sig n] XsdtIterator_next_def xsdt_num_of_entries_def
        valid_xsdt_def sub_u_def div_u_def xsdt_header_size_def)
next
  case (Suc k)
  have n: "n < length ps" using Suc.hyps(2) by simp
  then obtain s where s: "sdt_signature m (ps ! n) = Ok s"
    using assms(1) nth_mem unfolding valid_xsdt_def by blast
  have nxt: "XsdtIterator_next m xsdt n = Ok (Some (ps ! n), Suc n)"
    using assms(1) n
    by (simp add: XsdtIterator_next_def xsdt_num_of_entries_def valid_xsdt_def sub_u_def div_u_def
        xsdt_header_size_def add_u_def)
  have d: "drop n ps = ps ! n # drop (Suc n) ps" using n by (simp add: Cons_nth_drop_Suc)
  have IH: "find_from m xsdt sig (Suc n) = Some (Ok (find (\<lambda>p. sdt_signature m p = Ok sig) (drop (Suc n) ps)))"
    using Suc.hyps n by simp
  show ?case using s by (simp add: find_from.simps [of m xsdt sig n] nxt d IH)
qed

lemma find_sat: "find P xs = Some x \<Longrightarrow> P x"
  by (induction xs) (auto split: if_splits)

lemma rsdp_table_valid:
  assumes "rsdp_xsdt m rsdp = Ok xsdt" "valid_xsdt m xsdt ps"
  shows "rsdp_table sig m rsdp = Some (Ok (find (\<lambda>p. sdt_signature m p = Ok sig) ps))"
proof -
  have f: "find_table m xsdt sig = Some (Ok (find (\<lambda>p. sdt_signature m p = Ok sig) ps))"
    using find_from_valid [OF assms(2), of 0] by (simp add: find_table_def)
  have "map_table m sig (find (\<lambda>p. sdt_signature m p = Ok sig) ps) = Ok (find (\<lambda>p. sdt_signature m p = Ok sig) ps)"
    by (cases "find (\<lambda>p. sdt_signature m p = Ok sig) ps")
      (auto simp: map_table_def AcpiTable_new_def expect_signature_def dest!: find_sat)
  then show ?thesis using f assms(1) by (simp add: rsdp_table_def)
qed

lemma xsdt_short:
  assumes "rsdp_xsdt m rsdp = Ok xsdt" "sdt_length m xsdt = Ok len" "len < 36"
  shows "rsdp_table sig m rsdp = Some (Panic ''attempt to subtract with overflow'')"
  using assms by (simp add: rsdp_table_def find_table_def find_from.simps XsdtIterator_next_def
      xsdt_num_of_entries_def xsdt_header_size_def sub_u_def)

end
