(* ===== verification/Pci.thy ===== *)
theory Pci
  imports Acpi Paging Xhci
begin

text \<open>
  PCI (\<^verbatim>\<open>pci.rs\<close>): function addresses, the memory-mapped configuration space, the size probe of a
  64-bit BAR, the command register, and the enumeration of all functions. The configuration space is
  reached through a bus that also reads 16-bit registers.
\<close>

section \<open>Bus, device, function\<close>

type_synonym BusDeviceFunction = u16

definition MASK_BUS :: usize where "MASK_BUS = 0b1111111100000000"
definition SHIFT_BUS :: nat where "SHIFT_BUS = 8"
definition MASK_DEVICE :: usize where "MASK_DEVICE = 0b0000000011111000"
definition SHIFT_DEVICE :: nat where "SHIFT_DEVICE = 3"
definition MASK_FUNCTION :: usize where "MASK_FUNCTION = 0b0000000000000111"
definition SHIFT_FUNCTION :: nat where "SHIFT_FUNCTION = 0"

definition BDF_new :: "usize \<Rightarrow> usize \<Rightarrow> usize \<Rightarrow> BusDeviceFunction res" where
  "BDF_new bus device fn =
     (if \<not> bus < 256 \<or> \<not> device < 32 \<or> \<not> fn < 8 then Err ''PCI bus device function of of range''
      else Ok (word_of_nat (push_bit SHIFT_BUS bus OR push_bit SHIFT_DEVICE device OR push_bit SHIFT_FUNCTION fn)))"

definition bdf_bus :: "BusDeviceFunction \<Rightarrow> usize" where
  "bdf_bus bdf = drop_bit SHIFT_BUS (unat bdf AND MASK_BUS)"

definition bdf_device :: "BusDeviceFunction \<Rightarrow> usize" where
  "bdf_device bdf = drop_bit SHIFT_DEVICE (unat bdf AND MASK_DEVICE)"

definition bdf_function :: "BusDeviceFunction \<Rightarrow> usize" where
  "bdf_function bdf = drop_bit SHIFT_FUNCTION (unat bdf AND MASK_FUNCTION)"

definition BDF_next :: "usize \<Rightarrow> BusDeviceFunction option \<times> usize" where
  "BDF_next next_id = (if next_id > 0xffff then (None, next_id) else (Some (word_of_nat next_id), next_id + 1))"

section \<open>Configuration space\<close>

record 'd pci_bus = "'d bus" +
  rd16 :: "u64 \<Rightarrow> 'd \<Rightarrow> u16 \<times> 'd"

record PciRange =
  ecm_start :: usize
  ecm_end :: usize

definition Pci_new :: "memory \<Rightarrow> usize \<Rightarrow> PciRange res" where
  "Pci_new m mcfg_table =
     and_then (mcfg_num_of_entries m mcfg_table) (\<lambda>n.
     and_then (assert_that (n = 1) ''assertion failed'') (\<lambda>_.
     and_then (mcfg_entry m mcfg_table 0) (\<lambda>e.
     and_then (expect_some e ''Out of range'') (\<lambda>e.
     and_then (ecam_base_address m e) (\<lambda>base.
     and_then (add64 base (2 ^ 24)) (\<lambda>last.
     Ok \<lparr>ecm_start = base, ecm_end = last\<rparr>))))))"

definition ecm_base :: "PciRange \<Rightarrow> BusDeviceFunction \<Rightarrow> u64 res" where
  "ecm_base pci bdf = and_then (add64 (ecm_start pci) (unat bdf * 4096)) (\<lambda>a. Ok (word_of_nat a))"

definition ConfigRegisters_read ::
  "nat \<Rightarrow> (u64 \<Rightarrow> 'd \<Rightarrow> 'v \<times> 'd) \<Rightarrow> u64 \<Rightarrow> usize \<Rightarrow> 'd \<Rightarrow> ('v \<times> 'd) res" where
  "ConfigRegisters_read size_of rd base byte_offset d =
     (if \<not> byte_offset < 256 \<or> byte_offset mod size_of \<noteq> 0 then Err ''PCI ConfigRegisters read out of range''
      else Ok (rd (base + word_of_nat (byte_offset div size_of * size_of)) d))"

definition ConfigRegisters_write ::
  "nat \<Rightarrow> (u64 \<Rightarrow> 'v \<Rightarrow> 'd \<Rightarrow> 'd) \<Rightarrow> u64 \<Rightarrow> usize \<Rightarrow> 'v \<Rightarrow> 'd \<Rightarrow> 'd res" where
  "ConfigRegisters_write size_of wr base byte_offset data d =
     (if \<not> byte_offset < 256 \<or> byte_offset mod size_of \<noteq> 0 then Err ''PCI ConfigRegisters write out of range''
      else Ok (wr (base + word_of_nat (byte_offset div size_of * size_of)) data d))"

definition read_register_u16 :: "'d pci_bus \<Rightarrow> PciRange \<Rightarrow> BusDeviceFunction \<Rightarrow> usize \<Rightarrow> 'd \<Rightarrow> (u16 \<times> 'd) res" where
  "read_register_u16 bus pci bdf off d =
     and_then (ecm_base pci bdf) (\<lambda>base. ConfigRegisters_read 2 (rd16 bus) base off d)"

definition read_register_u32 :: "'d pci_bus \<Rightarrow> PciRange \<Rightarrow> BusDeviceFunction \<Rightarrow> usize \<Rightarrow> 'd \<Rightarrow> (u32 \<times> 'd) res" where
  "read_register_u32 bus pci bdf off d =
     and_then (ecm_base pci bdf) (\<lambda>base. ConfigRegisters_read 4 (rd32 bus) base off d)"

definition write_register_u32 :: "'d pci_bus \<Rightarrow> PciRange \<Rightarrow> BusDeviceFunction \<Rightarrow> usize \<Rightarrow> u32 \<Rightarrow> 'd \<Rightarrow> 'd res" where
  "write_register_u32 bus pci bdf off data d =
     and_then (ecm_base pci bdf) (\<lambda>base. ConfigRegisters_write 4 (wr32 bus) base off data d)"

definition read_register_u64 :: "'d pci_bus \<Rightarrow> PciRange \<Rightarrow> BusDeviceFunction \<Rightarrow> usize \<Rightarrow> 'd \<Rightarrow> (u64 \<times> 'd) res" where
  "read_register_u64 bus pci bdf off d =
     and_then (read_register_u32 bus pci bdf off d) (\<lambda>(lo, d1).
     and_then (read_register_u32 bus pci bdf (off + 4) d1) (\<lambda>(hi, d2).
     Ok (push_bit 32 (ucast hi) OR ucast lo, d2)))"

definition write_register_u64 :: "'d pci_bus \<Rightarrow> PciRange \<Rightarrow> BusDeviceFunction \<Rightarrow> usize \<Rightarrow> u64 \<Rightarrow> 'd \<Rightarrow> 'd res" where
  "write_register_u64 bus pci bdf off data d =
     and_then (write_register_u32 bus pci bdf off (ucast data) d) (\<lambda>d1.
     write_register_u32 bus pci bdf (off + 4) (ucast (drop_bit 32 data)) d1)"

definition set_command_and_status_flags :: "'d pci_bus \<Rightarrow> PciRange \<Rightarrow> BusDeviceFunction \<Rightarrow> u32 \<Rightarrow> 'd \<Rightarrow> 'd res" where
  "set_command_and_status_flags bus pci bdf flags d =
     and_then (read_register_u32 bus pci bdf 0x04 d) (\<lambda>(v, d1).
     write_register_u32 bus pci bdf 0x04 (flags OR v) d1)"

definition enable_bus_master where
  "enable_bus_master bus pci bdf d = set_command_and_status_flags bus pci bdf (push_bit 2 1) d"

definition disable_interrupt where
  "disable_interrupt bus pci bdf d = set_command_and_status_flags bus pci bdf (push_bit 10 1) d"

section \<open>BAR 0\<close>

record BarMem64 =
  bar_addr :: u64
  bar_size :: u64

text \<open>\<^verbatim>\<open>1 + !(...)\<close> overflows, and panics, when the probe reads back no address bit at all.\<close>

definition bar_size_of :: "u64 \<Rightarrow> u64 res" where
  "bar_size_of v = and_then (add64 1 (unat (NOT (v AND NOT 0b1111)))) (\<lambda>s. Ok (word_of_nat s))"

definition try_bar0_mem64 :: "'d pci_bus \<Rightarrow> PciRange \<Rightarrow> BusDeviceFunction \<Rightarrow> 'd \<Rightarrow> (BarMem64 \<times> 'd) res" where
  "try_bar0_mem64 bus pci bdf d =
     and_then (read_register_u64 bus pci bdf 0x10 d) (\<lambda>(bar0, d1).
     if bar0 AND 0b0111 = 0b0100 then
       (let addr = bar0 AND NOT 0b1111 in
        and_then (write_register_u64 bus pci bdf 0x10 (NOT 0) d1) (\<lambda>d2.
        and_then (read_register_u64 bus pci bdf 0x10 d2) (\<lambda>(v, d3).
        and_then (bar_size_of v) (\<lambda>sz.
        and_then (write_register_u64 bus pci bdf 0x10 bar0 d3) (\<lambda>d4.
        Ok (\<lparr>bar_addr = addr, bar_size = sz\<rparr>, d4))))))
     else Err ''Unexpected BAR0 Type'')"

definition disable_cache :: "'s page_box \<Rightarrow> usize \<Rightarrow> BarMem64 \<Rightarrow> 's vm \<Rightarrow> 's vm res option" where
  "disable_cache box_page root bar vm =
     (let vstart = unat (bar_addr bar) in
      and_then_opt (Some (add64 vstart (unat (bar_size bar)))) (\<lambda>vend.
      map_option (\<lambda>r. expect r ''Failed to create mapping'')
        (create_mapping box_page vm root
          \<lparr>virt_start = vstart, virt_end = vend, phys_base = vstart, page_attr = ReadWriteIo\<rparr>)))"

section \<open>Enumeration\<close>

definition read_vendor_id_and_device_id ::
  "'d pci_bus \<Rightarrow> PciRange \<Rightarrow> BusDeviceFunction \<Rightarrow> 'd \<Rightarrow> ((u16 \<times> u16) option \<times> 'd) res" where
  "read_vendor_id_and_device_id bus pci bdf d =
     and_then (read_register_u16 bus pci bdf 0 d) (\<lambda>(vendor, d1).
     and_then (read_register_u16 bus pci bdf 2 d1) (\<lambda>(device, d2).
     Ok (if vendor = 0xffff \<and> device = 0xffff then None else Some (vendor, device), d2)))"

text \<open>
  One turn of \<^verbatim>\<open>probe_devices\<close>; the driver's \<open>attach\<close> is an argument. A failed attach is logged and the
  enumeration goes on.
\<close>

definition probe_one ::
  "'d pci_bus \<Rightarrow> PciRange \<Rightarrow> (u16 \<times> u16 \<Rightarrow> bool) \<Rightarrow> (BusDeviceFunction \<Rightarrow> 'd \<Rightarrow> (unit res \<times> 'd) option) \<Rightarrow>
    BusDeviceFunction \<Rightarrow> 'd \<Rightarrow> 'd res option" where
  "probe_one bus pci supports attach bdf d =
     and_then_opt (Some (read_vendor_id_and_device_id bus pci bdf d)) (\<lambda>(vd, d1).
       case vd of
         None \<Rightarrow> Some (Ok d1)
       | Some v \<Rightarrow>
          (if supports v then
             (case attach bdf d1 of
                None \<Rightarrow> None
              | Some (Ok _, d2) \<Rightarrow> Some (Ok d2)
              | Some (Err _, d2) \<Rightarrow> Some (Ok d2)
              | Some (Panic p, _) \<Rightarrow> Some (Panic p)
              | Some (UB, _) \<Rightarrow> Some UB)
           else Some (Ok d1)))"

function probe_from ::
  "'d pci_bus \<Rightarrow> PciRange \<Rightarrow> (u16 \<times> u16 \<Rightarrow> bool) \<Rightarrow> (BusDeviceFunction \<Rightarrow> 'd \<Rightarrow> (unit res \<times> 'd) option) \<Rightarrow>
    usize \<Rightarrow> 'd \<Rightarrow> 'd res option" where
  "probe_from bus pci supports attach next_id d =
     (case BDF_next next_id of
        (None, _) \<Rightarrow> Some (Ok d)
      | (Some bdf, next_id') \<Rightarrow>
          (case probe_one bus pci supports attach bdf d of
             Some (Ok d') \<Rightarrow> probe_from bus pci supports attach next_id' d'
           | r \<Rightarrow> r))"
  by pat_completeness auto
termination
  by (relation "measure (\<lambda>(_, _, _, _, n, _). 0x10000 - n)") (auto simp: BDF_next_def split: if_splits)

declare probe_from.simps [simp del]

definition probe_devices where
  "probe_devices bus pci attach d = probe_from bus pci PciXhciDriver_supports attach 0 d"

section \<open>Attaching the xHCI driver\<close>

text \<open>
  \<^verbatim>\<open>PciXhciDriver::attach\<close> up to the controller that \<^verbatim>\<open>spawn_global\<close> hands to \<^verbatim>\<open>run\<close>; \<open>cap\<close> are the
  capability registers found at the BAR, the addresses are those of the boxed objects.
\<close>

definition PciXhciDriver_attach ::
  "'d pci_bus \<Rightarrow> PciRange \<Rightarrow> usize \<Rightarrow> (u64 \<Rightarrow> CapabilityRegisters) \<Rightarrow> u64 \<Rightarrow> u64 \<Rightarrow> u64 \<Rightarrow> u64 \<Rightarrow>
    BusDeviceFunction \<Rightarrow> heap_state vm \<Rightarrow> 'd \<Rightarrow> ('d Controller \<times> heap_state vm) res option" where
  "PciXhciDriver_attach bus pci root cap_at dcbaa ev erst cmd bdf vm d =
     and_then_opt (Some (disable_interrupt bus pci bdf d)) (\<lambda>d1.
     and_then_opt (Some (enable_bus_master bus pci bdf d1)) (\<lambda>d2.
     and_then_opt (Some (try_bar0_mem64 bus pci bdf d2)) (\<lambda>(bar0, d3).
     and_then_opt (disable_cache box_new_page root bar0 vm) (\<lambda>vm1.
     and_then_opt (Some (setup_xhc_registers (bar_addr bar0) (cap_at (bar_addr bar0)))) (\<lambda>regs.
     and_then_opt (Controller_new (bus.truncate bus) regs dcbaa ev erst cmd (vheap vm1) d3) (\<lambda>(xhc, s).
     Some (Ok (xhc, vm1\<lparr>vheap := s\<rparr>))))))))"

section \<open>Lemmas\<close>

lemma BDF_fields:
  assumes "bus < 256" "dv < 32" "fn < 8"
  shows "\<exists>x. BDF_new bus dv fn = Ok x \<and> bdf_bus x = bus \<and> bdf_device x = dv \<and>
    bdf_function x = fn \<and> unat x = bus * 256 + dv * 8 + fn"
proof -
  define n where "n = bus * 256 + dv * 8 + fn"
  have "push_bit 8 bus OR (push_bit 3 dv OR fn) = n"
    using push_or_add [of fn 3 dv] push_or_add [of "dv * 8 + fn" 8 bus] assms by (simp add: n_def)
  then have new: "BDF_new bus dv fn = Ok (word_of_nat n)"
    using assms by (simp add: BDF_new_def SHIFT_BUS_def SHIFT_DEVICE_def SHIFT_FUNCTION_def or.assoc)
  have "n < 2 ^ 16" using assms by (simp add: n_def)
  then have u: "unat (word_of_nat n :: u16) = n" by (simp add: unat_of_nat)
  have m: "MASK_BUS = push_bit 8 (mask 8)" "MASK_DEVICE = push_bit 3 (mask 5)" "MASK_FUNCTION = push_bit 0 (mask 3)"
    by (simp_all add: MASK_BUS_def MASK_DEVICE_def MASK_FUNCTION_def mask_eq_exp_minus_1 push_bit_eq_mult)
  have n8: "n = (bus * 32 + dv) * 8 + fn" by (simp add: n_def)
  have "n div 256 = bus" "n div 8 = bus * 32 + dv" "n mod 8 = fn"
    using assms mod_mult_self3 [of "bus * 32 + dv" 8 fn] unfolding n8 by simp_all
  then have "bdf_bus (word_of_nat n) = bus" "bdf_device (word_of_nat n) = dv" "bdf_function (word_of_nat n) = fn"
    using assms unfolding bdf_bus_def bdf_device_def bdf_function_def SHIFT_BUS_def SHIFT_DEVICE_def
      SHIFT_FUNCTION_def m u drop_and_mask
    by (simp_all add: drop_bit_eq_div take_bit_eq_mod)
  then show ?thesis using new u unfolding n_def [symmetric] by blast
qed

lemma ecm_base_unat: "ecm_base pci x = Ok a \<Longrightarrow> unat a = ecm_start pci + unat x * 4096"
  using unat_u64 [of "ecm_start pci + unat x * 4096"]
  by (auto simp add: ecm_base_def add_u_def simp del: of_nat_add of_nat_mult split: if_splits)

lemma ecm_windows:
  assumes "ecm_base pci x = Ok a" "ecm_base pci y = Ok b" "x \<noteq> y"
  shows "unat a + 4096 \<le> unat b \<or> unat b + 4096 \<le> unat a"
proof -
  have "unat x \<noteq> unat y" using assms(3) by (simp add: word_unat_eq_iff [symmetric])
  then have "unat x + 1 \<le> unat y \<or> unat y + 1 \<le> unat x" by linarith
  moreover have "unat a = ecm_start pci + unat x * 4096" "unat b = ecm_start pci + unat y * 4096"
    using assms(1,2) by (simp_all add: ecm_base_unat)
  ultimately show ?thesis by linarith
qed

subsection \<open>The size probe\<close>

text \<open>
  A 64-bit memory BAR as the PCI specification describes it: two 32-bit registers at 0x10 and 0x14
  that read as the halves of \<open>bar\<close>; of a write only the address bits from bit \<open>k\<close> on are stored (the
  window has \<open>2 ^ k\<close> bytes), the type bits are read-only. Nothing else, seen through \<open>rest\<close>, changes.
\<close>

definition low32 :: u64 where "low32 = mask 32"

definition bar_store :: "nat \<Rightarrow> u64 \<Rightarrow> u64 \<Rightarrow> u64 \<Rightarrow> u64" where
  "bar_store k half v old = (old AND NOT half) OR (v AND half AND NOT (mask k)) OR (old AND half AND mask 4)"

definition bar64_at :: "'d pci_bus \<Rightarrow> u64 \<Rightarrow> nat \<Rightarrow> ('d \<Rightarrow> u64) \<Rightarrow> ('d \<Rightarrow> 'r) \<Rightarrow> bool" where
  "bar64_at bus base k bar rest \<longleftrightarrow> (\<forall>d.
     rd32 bus (base + 0x10) d = (ucast (bar d), d) \<and>
     rd32 bus (base + 0x14) d = (ucast (drop_bit 32 (bar d)), d) \<and>
     (\<forall>v. bar (wr32 bus (base + 0x10) v d) = bar_store k low32 (ucast v) (bar d) \<and>
          rest (wr32 bus (base + 0x10) v d) = rest d \<and>
          bar (wr32 bus (base + 0x14) v d) = bar_store k (NOT low32) (push_bit 32 (ucast v)) (bar d) \<and>
          rest (wr32 bus (base + 0x14) v d) = rest d))"

definition bar_ok :: "nat \<Rightarrow> u64 \<Rightarrow> bool" where
  "bar_ok k v \<longleftrightarrow> 4 \<le> k \<and> k < 64 \<and> v AND 0b0111 = 0b0100 \<and> v AND mask k = v AND mask 4"

lemma halves: "push_bit 32 (ucast (ucast (drop_bit 32 v) :: u32)) OR ucast (ucast v :: u32) = (v :: u64)"
  by (rule bit_word_eqI) (auto simp: bit_simps)

lemma bar_store_both:
  "bar_store k (NOT low32) (push_bit 32 (ucast (ucast (drop_bit 32 v) :: u32)))
     (bar_store k low32 (ucast (ucast v :: u32)) old) = (v AND NOT (mask k)) OR (old AND mask 4)"
  by (rule bit_word_eqI) (auto simp: bar_store_def low32_def bit_simps)

lemma read64_bar:
  assumes "bar64_at bus base k bar rest" "ecm_base pci bdf = Ok base"
  shows "read_register_u64 bus pci bdf 0x10 d = Ok (bar d, d)"
  using assms halves [of "bar d"]
  by (simp add: read_register_u64_def read_register_u32_def ConfigRegisters_read_def bar64_at_def)

lemma write64_bar:
  assumes "bar64_at bus base k bar rest" "ecm_base pci bdf = Ok base"
  shows "\<exists>d'. write_register_u64 bus pci bdf 0x10 v d = Ok d' \<and> rest d' = rest d \<and>
    bar d' = (v AND NOT (mask k)) OR (bar d AND mask 4)"
  using assms bar_store_both [of k v "bar d"]
  by (simp add: write_register_u64_def write_register_u32_def ConfigRegisters_write_def bar64_at_def)

lemma bar_size_probe:
  assumes "4 \<le> k" "k < 64"
  shows "bar_size_of ((NOT 0 AND NOT (mask k)) OR (b AND mask 4)) = Ok (2 ^ k)"
proof -
  have lt: "(2 :: nat) ^ k < 2 ^ 64" using assms(2) by (intro power_strict_increasing) simp_all
  have "NOT (((NOT 0 AND NOT (mask k)) OR (b AND mask 4)) AND NOT 0b1111) = (mask k :: u64)"
    using assms(1) by (intro bit_word_eqI) (auto simp: bit_simps mask_lits)
  moreover have "unat (mask k :: u64) = 2 ^ k - 1"
    using unat_u64 [of "2 ^ k - 1"] lt by (simp add: mask_eq_exp_minus_1 less_imp_diff_less)
  ultimately show ?thesis using lt by (simp add: bar_size_of_def add_u_def)
qed

lemma bar_probe:
  assumes "bar64_at bus base k bar rest" "ecm_base pci bdf = Ok base" "bar_ok k (bar d)"
  shows "\<exists>d'. try_bar0_mem64 bus pci bdf d = Ok (\<lparr>bar_addr = bar d AND NOT (mask 4), bar_size = 2 ^ k\<rparr>, d') \<and>
    bar d' = bar d \<and> rest d' = rest d"
proof -
  note rd = read64_bar [OF assms(1,2)]
  obtain d2 where d2: "write_register_u64 bus pci bdf 0x10 (NOT 0) d = Ok d2" "rest d2 = rest d"
      "bar d2 = (NOT 0 AND NOT (mask k)) OR (bar d AND mask 4)"
    using write64_bar [OF assms(1,2)] by blast
  obtain d4 where d4: "write_register_u64 bus pci bdf 0x10 (bar d) d2 = Ok d4" "rest d4 = rest d2"
      "bar d4 = (bar d AND NOT (mask k)) OR (bar d2 AND mask 4)"
    using write64_bar [OF assms(1,2)] by blast
  have sz: "bar_size_of (bar d2) = Ok (2 ^ k)"
    using bar_size_probe assms(3) unfolding d2(3) bar_ok_def by blast
  have "bar d4 = (bar d AND NOT (mask k)) OR (bar d AND mask 4)"
    unfolding d4(3) d2(3) using assms(3) by (intro bit_word_eqI) (auto simp: bit_simps bar_ok_def)
  also have "\<dots> = (bar d AND NOT (mask k)) OR (bar d AND mask k)" using assms(3) by (simp add: bar_ok_def)
  also have "\<dots> = bar d" by (rule bit_word_eqI) (auto simp: bit_simps)
  finally have b: "bar d4 = bar d" .
  have m: "(0b1111 :: u64) = mask 4" by (simp add: mask_eq_exp_minus_1)
  have "bar d AND 0b0111 = 0b0100" using assms(3) by (simp add: bar_ok_def)
  then have "try_bar0_mem64 bus pci bdf d = Ok (\<lparr>bar_addr = bar d AND NOT (mask 4), bar_size = 2 ^ k\<rparr>, d4)"
    by (simp only: try_bar0_mem64_def rd and_then.simps prod.case if_True Let_def d2(1) d4(1) sz m refl)
  then show ?thesis using b d2(2) d4(2) by auto
qed

subsection \<open>Enumeration\<close>

text \<open>The reference: attach to the given functions in order, ignoring errors.\<close>

fun attach_all :: "(BusDeviceFunction \<Rightarrow> 'd \<Rightarrow> (unit res \<times> 'd) option) \<Rightarrow> BusDeviceFunction list \<Rightarrow> 'd \<Rightarrow> 'd res option" where
  "attach_all attach [] d = Some (Ok d)"
| "attach_all attach (b # bs) d =
     (case attach b d of
        None \<Rightarrow> None
      | Some (r, d') \<Rightarrow>
          (case r of Panic p \<Rightarrow> Some (Panic p) | UB \<Rightarrow> Some UB | _ \<Rightarrow> attach_all attach bs d'))"

definition supported_in :: "(u16 \<times> u16 \<Rightarrow> bool) \<Rightarrow> (BusDeviceFunction \<Rightarrow> (u16 \<times> u16) option) \<Rightarrow> BusDeviceFunction \<Rightarrow> bool" where
  "supported_in supports ids b \<longleftrightarrow> (case ids b of None \<Rightarrow> False | Some v \<Rightarrow> supports v)"

lemma probe_from_static:
  assumes "\<forall>bdf d. read_vendor_id_and_device_id bus pci bdf d = Ok (ids bdf, d)"
  shows "probe_from bus pci supports attach n d =
    attach_all attach (filter (supported_in supports ids) (map word_of_nat [n..<0x10000])) d"
proof (induction "0x10000 - n" arbitrary: n d)
  case 0
  then have "0xffff < n" by simp
  then show ?case by (simp add: probe_from.simps [of _ _ _ _ n] BDF_next_def)
next
  case (Suc k)
  then have n: "n \<le> 0xffff" by simp
  have one: "probe_from bus pci supports attach n d =
      (case probe_one bus pci supports attach (word_of_nat n) d of
         Some (Ok d') \<Rightarrow> probe_from bus pci supports attach (Suc n) d' | r \<Rightarrow> r)"
    using n by (simp add: probe_from.simps [of _ _ _ _ n] BDF_next_def)
  have IH: "probe_from bus pci supports attach (Suc n) x =
      attach_all attach (filter (supported_in supports ids) (map word_of_nat [Suc n..<0x10000])) x" for x
    using Suc by simp
  have up: "[n..<0x10000] = n # [Suc n..<0x10000]" using n by (subst upt_conv_Cons) simp_all
  show ?case unfolding one up IH using assms
    by (auto simp: probe_one_def supported_in_def split: option.split prod.split res.split)
qed

end
