(* ===== verification/Devices_Theorems.thy ===== *)
theory Devices_Theorems
  imports Pci
begin

text \<open>The properties of the ACPI tables and of PCI.\<close>

section \<open>ACPI\<close>

text \<open>
  Property C32 (functional). Over a well-formed XSDT the lookup of a table returns: it is the first table with the
  signature, and none when there is none; the signature check that follows never fails. An XSDT whose
  length is below the header size is an overflow panic.
\<close>

theorem acpi_lookup:
  assumes "rsdp_xsdt m rsdp = Ok xsdt"
  shows "(valid_xsdt m xsdt ps \<longrightarrow>
      hpet m rsdp = Some (Ok (find (\<lambda>p. sdt_signature m p = Ok (ascii ''HPET'')) ps)) \<and>
      mcfg m rsdp = Some (Ok (find (\<lambda>p. sdt_signature m p = Ok (ascii ''MCFG'')) ps))) \<and>
    (sdt_length m xsdt = Ok len \<and> len < 36 \<longrightarrow>
      hpet m rsdp = Some (Panic ''attempt to subtract with overflow''))"
  using rsdp_table_valid [OF assms] xsdt_short [OF assms] by (simp add: hpet_def mcfg_def)

definition demo_memory :: "u8 list" where
  "demo_memory = replicate 24 0 @ [40, 0, 0, 0, 0, 0, 0, 0] @ replicate 8 0 @
     ascii ''XSDT'' @ [52, 0, 0, 0] @ replicate 28 0 @ [100, 0, 0, 0, 0, 0, 0, 0] @ [104, 0, 0, 0, 0, 0, 0, 0] @
     replicate 8 0 @ ascii ''MCFG'' @ ascii ''HPET''"

theorem acpi_lookup_witness:
  "hpet (bytes_mem demo_memory) 0 = Some (Ok (Some 104)) \<and> mcfg (bytes_mem demo_memory) 0 = Some (Ok (Some 100))"
proof -
  let ?m = "bytes_mem demo_memory"
  have len: "length demo_memory = 108" by (simp add: demo_memory_def ascii_def)
  note rd = mem_bytes_list [of _ _ demo_memory, unfolded len]
  have r: "rsdp_xsdt ?m 0 = Ok 40"
    by (simp add: rsdp_xsdt_def mem_nat_def rd) (simp add: demo_memory_def ascii_def)
  have l: "sdt_length ?m 40 = Ok 52"
    by (simp add: sdt_length_def mem_nat_def rd) (simp add: demo_memory_def ascii_def)
  have e: "xsdt_entry ?m 40 0 = Ok 100" "xsdt_entry ?m 40 1 = Ok 104"
    by (simp_all add: xsdt_entry_def xsdt_header_size_def mem_nat_def rd) (simp_all add: demo_memory_def ascii_def)
  have s: "sdt_signature ?m 100 = Ok (ascii ''MCFG'')" "sdt_signature ?m 104 = Ok (ascii ''HPET'')"
    by (simp_all add: sdt_signature_def rd) (simp_all add: demo_memory_def ascii_def)
  have "valid_xsdt ?m 40 [100, 104]"
    using l e s by (auto simp: valid_xsdt_def less_Suc_eq)
  then show ?thesis using acpi_lookup [OF r, of "[100, 104]"] s by (simp add: ascii_def)
qed

section \<open>PCI\<close>

text \<open>
  A function address gives back the bus, device and function it was built from, and an
  address out of range is an error. The configuration windows of different functions do not overlap;
  those of bus 16 and above lie outside the range that \<open>Pci_new\<close> records.
\<close>

theorem bdf_roundtrip:
  shows "(b < 256 \<and> dv < 32 \<and> fn < 8 \<longrightarrow>
      (\<exists>x. BDF_new b dv fn = Ok x \<and> bdf_bus x = b \<and> bdf_device x = dv \<and> bdf_function x = fn)) \<and>
    (\<not> (b < 256 \<and> dv < 32 \<and> fn < 8) \<longrightarrow> BDF_new b dv fn = Err ''PCI bus device function of of range'') \<and>
    (ecm_base pci x = Ok p \<and> ecm_base pci y = Ok q \<and> x \<noteq> y \<longrightarrow>
      unat p + 4096 \<le> unat q \<or> unat q + 4096 \<le> unat p) \<and>
    (Pci_new m t = Ok pci \<and> ecm_base pci x = Ok p \<and> 4096 \<le> unat x \<longrightarrow> ecm_end pci \<le> unat p)"
proof -
  have "ecm_end pci = ecm_start pci + 2 ^ 24" if "Pci_new m t = Ok pci"
    using that by (auto simp: Pci_new_def res_simps add_u_def split: if_splits)
  then have "ecm_end pci \<le> unat p" if "Pci_new m t = Ok pci" "ecm_base pci x = Ok p" "4096 \<le> unat x"
    using that ecm_base_unat [of pci x p] by simp
  moreover have "BDF_new b dv fn = Err ''PCI bus device function of of range''" if "\<not> (b < 256 \<and> dv < 32 \<and> fn < 8)"
    using that by (auto simp: BDF_new_def)
  ultimately show ?thesis using BDF_fields [of b dv fn] ecm_windows [of pci x p y q] by blast
qed

theorem bdf_roundtrip_witness:
  "(\<exists>x. BDF_new 3 31 7 = Ok x \<and> bdf_bus x = 3 \<and> bdf_device x = 31 \<and> bdf_function x = 7) \<and>
    BDF_new 0 32 0 = Err ''PCI bus device function of of range''"
  using bdf_roundtrip [of 3 31 7] bdf_roundtrip [of 0 32 0] by simp

text \<open>
  On a function with a 64-bit memory BAR of \<open>2 ^ k\<close> bytes the size probe returns the
  address and the size of the window, leaves the BAR with the value it had and changes nothing else.
\<close>

theorem bar_probe_restores:
  assumes "bar64_at bus base k bar rest" "ecm_base pci bdf = Ok base" "bar_ok k (bar d)"
  shows "\<exists>d'. try_bar0_mem64 bus pci bdf d = Ok (\<lparr>bar_addr = bar d AND NOT (mask 4), bar_size = 2 ^ k\<rparr>, d') \<and>
    bar d' = bar d \<and> rest d' = rest d"
  using assms by (rule bar_probe)

definition demo_pci :: PciRange where
  "demo_pci = \<lparr>ecm_start = 0xB0000000, ecm_end = 0xB1000000\<rparr>"

definition demo_pci_bus :: "u64 pci_bus" where
  "demo_pci_bus =
     \<lparr>rd32 = (\<lambda>a d. if a = 0xB0018010 then (ucast d, d) else if a = 0xB0018014 then (ucast (drop_bit 32 d), d) else (0, d)),
      wr32 = (\<lambda>a v d. if a = 0xB0018010 then bar_store 14 low32 (ucast v) d
                      else if a = 0xB0018014 then bar_store 14 (NOT low32) (push_bit 32 (ucast v)) d else d),
      rd64 = (\<lambda>a d. (0, d)), wr64 = (\<lambda>a v d. d), rd16 = (\<lambda>a d. (0, d))\<rparr>"

theorem bar_probe_restores_witness:
  "try_bar0_mem64 demo_pci_bus demo_pci 0x18 0xC000004004 = Ok (\<lparr>bar_addr = 0xC000004000, bar_size = 0x4000\<rparr>, 0xC000004004)"
proof -
  have 1: "bar64_at demo_pci_bus 0xB0018000 14 (\<lambda>d. d) (\<lambda>d. ())"
    by (simp add: bar64_at_def demo_pci_bus_def)
  have 2: "ecm_base demo_pci 0x18 = Ok 0xB0018000" by (simp add: ecm_base_def demo_pci_def add_u_def)
  have 3: "bar_ok 14 0xC000004004" by (simp add: bar_ok_def mask_eq_exp_minus_1)
  have "(0xC000004004 :: u64) AND NOT (mask 4) = 0xC000004000" by (simp add: mask_eq_exp_minus_1)
  then show ?thesis using bar_probe_restores [OF 1 2 3] by auto
qed

text \<open>
  Property C33 (equivalence). With identifiers that do not change, \<^verbatim>\<open>probe_devices\<close> visits every function exactly once
  and calls the driver exactly on those whose vendor and device are supported, in ascending order; an
  error of one attach does not stop the enumeration.
\<close>

theorem probe_attaches_supported:
  assumes "\<forall>bdf d. read_vendor_id_and_device_id bus pci bdf d = Ok (ids bdf, d)"
  shows "probe_devices bus pci attach d =
    attach_all attach (filter (supported_in PciXhciDriver_supports ids) (map word_of_nat [0..<0x10000])) d"
  unfolding probe_devices_def by (rule probe_from_static [OF assms])

text \<open>A machine whose only function is 0:3.0, an xHC as emulated by QEMU; the state counts the attachments.\<close>

definition demo_ids_bus :: "nat pci_bus" where
  "demo_ids_bus =
     \<lparr>rd32 = (\<lambda>a d. (0, d)), wr32 = (\<lambda>a v d. d), rd64 = (\<lambda>a d. (0, d)), wr64 = (\<lambda>a v d. d),
      rd16 = (\<lambda>a d. (if a = 0xB0018000 then 0x1b36 else if a = 0xB0018002 then 0x000d else 0xffff, d))\<rparr>"

definition demo_ids :: "BusDeviceFunction \<Rightarrow> (u16 \<times> u16) option" where
  "demo_ids b = (if b = 0x18 then Some (0x1b36, 0x000d) else None)"

lemma demo_ids_read: "read_vendor_id_and_device_id demo_ids_bus demo_pci b d = Ok (demo_ids b, d)"
proof -
  have "unat b < 65536" using unsigned_less [of b, where ?'a = nat] by simp
  then obtain base where base: "ecm_base demo_pci b = Ok base"
    by (auto simp: ecm_base_def demo_pci_def add_u_def)
  then have u: "unat base = 0xB0000000 + unat b * 4096" using ecm_base_unat by (simp add: demo_pci_def)
  have b: "b = 0x18 \<longleftrightarrow> unat b = 24" by (simp add: word_unat_eq_iff)
  have "unat base = 0xB0018000 \<longleftrightarrow> unat b = 24" using u by linarith
  moreover have "unat base mod 4096 = 0" unfolding u by simp
  then have "unat base \<noteq> 0xB0018002" "unat base \<noteq> 0xB0017FFE" by auto
  ultimately have "base = 0xB0018000 \<longleftrightarrow> b = 0x18" "base \<noteq> 0xB0018002" "base \<noteq> 0xB0017FFE"
    by (auto simp: b word_unat_eq_iff)
  moreover have "base + 2 = 0xB0018000 \<longleftrightarrow> base = 0xB0017FFE" "base + 2 = 0xB0018002 \<longleftrightarrow> base = 0xB0018000"
    by (simp_all add: eq_diff_eq [symmetric])
  ultimately show ?thesis using base
    by (simp add: read_vendor_id_and_device_id_def read_register_u16_def ConfigRegisters_read_def demo_ids_bus_def
        demo_ids_def)
qed

lemma filter_upt_single: "k < n \<Longrightarrow> filter (\<lambda>x. x = k) [0..<n] = [k]"
  by (induction n) (auto simp: less_Suc_eq)

lemma demo_supported: "filter (supported_in PciXhciDriver_supports demo_ids) (map word_of_nat [0..<0x10000]) = [0x18]"
proof -
  have s: "supported_in PciXhciDriver_supports demo_ids b \<longleftrightarrow> b = 0x18" for b
    by (simp add: supported_in_def demo_ids_def PciXhciDriver_supports_def VDI_LIST_def)
  have "word_of_nat n = (0x18 :: u16) \<longleftrightarrow> n = 24" if "n < 0x10000" for n
    using that by (auto simp: word_unat_eq_iff unat_of_nat)
  then have "filter (\<lambda>n. word_of_nat n = (0x18 :: u16)) [0..<0x10000] = filter (\<lambda>n. n = 24) [0..<0x10000]"
    by (intro filter_cong) simp_all
  then have "filter (\<lambda>n. word_of_nat n = (0x18 :: u16)) [0..<0x10000] = [24]"
    using filter_upt_single [of 24 "0x10000"] by (simp del: upt_conv_Nil upt_rec_numeral)
  then show ?thesis by (simp add: filter_map comp_def s del: upt_rec_numeral)
qed

theorem probe_attaches_supported_witness:
  "probe_devices demo_ids_bus demo_pci (\<lambda>b n. Some (if b = 0x18 then Ok () else Panic ''wrong'', n + 1)) 0 = Some (Ok 1)"
  using probe_attaches_supported [of demo_ids_bus demo_pci demo_ids] demo_ids_read demo_supported by simp

end
