(* ===== verification/X86_Interrupts.thy ===== *)
theory X86_Interrupts
  imports Bit_Fields
begin

text \<open>
  The interrupt entry code of \<^verbatim>\<open>x86.rs\<close>: the assembly stubs and \<^verbatim>\<open>inthandler_common\<close> as lists of
  instructions of a small machine, what the processor does before the first instruction and in
  \<^verbatim>\<open>iretq\<close>, and the Rust function \<^verbatim>\<open>inthandler\<close>. Memory is read and written in 8-byte words at the
  addresses the code uses; the 512-byte image of the FPU state is kept apart, at the address where
  \<^verbatim>\<open>fxsave64\<close> puts it.
\<close>

section \<open>The machine\<close>

datatype reg = RAX | RBX | RCX | RDX | RSI | RDI | RBP | RSP | R8 | R9 | R10 | R11 | R12 | R13 | R14 | R15

record 'f machine =
  gpr :: "reg \<Rightarrow> u64"
  mem :: "u64 \<Rightarrow> u64"
  fpu :: 'f
  fpu_area :: "u64 \<Rightarrow> 'f"
  rip :: u64
  cs :: u64
  rflags :: u64
  ss :: u64

datatype instr =
    PUSH reg | PUSH_IMM u64 | POP reg | MOV reg reg | MOV_IMM reg u64
  | SUB_RSP u64 | ADD_RSP u64 | AND_RSP u64 | FXSAVE64 | FXRSTOR64 | CALL_HANDLER | IRETQ

definition set_reg :: "reg \<Rightarrow> u64 \<Rightarrow> 'f machine \<Rightarrow> 'f machine" where
  "set_reg r v m = m\<lparr>gpr := (gpr m)(r := v)\<rparr>"

definition push_val :: "u64 \<Rightarrow> 'f machine \<Rightarrow> 'f machine" where
  "push_val v m =
     (let a = gpr m RSP - 8 in m\<lparr>gpr := (gpr m)(RSP := a), mem := (mem m)(a := v)\<rparr>)"

definition stack_word :: "'f machine \<Rightarrow> nat \<Rightarrow> u64" where
  "stack_word m i = mem m (gpr m RSP + 8 * word_of_nat i)"

text \<open>
  One instruction. \<open>None\<close> is a fault: \<^verbatim>\<open>fxsave64\<close> and \<^verbatim>\<open>fxrstor64\<close> need an address that is a multiple of
  16. The call of \<^verbatim>\<open>inthandler\<close> is a function from machines to machines, which may not return.
\<close>

fun exec_instr :: "('f machine \<Rightarrow> 'f machine option) \<Rightarrow> instr \<Rightarrow> 'f machine \<Rightarrow> 'f machine option" where
  "exec_instr h (PUSH r) m = Some (push_val (gpr m r) m)"
| "exec_instr h (PUSH_IMM v) m = Some (push_val v m)"
| "exec_instr h (POP r) m = Some (set_reg r (stack_word m 0) (set_reg RSP (gpr m RSP + 8) m))"
| "exec_instr h (MOV d s) m = Some (set_reg d (gpr m s) m)"
| "exec_instr h (MOV_IMM d v) m = Some (set_reg d v m)"
| "exec_instr h (SUB_RSP n) m = Some (set_reg RSP (gpr m RSP - n) m)"
| "exec_instr h (ADD_RSP n) m = Some (set_reg RSP (gpr m RSP + n) m)"
| "exec_instr h (AND_RSP n) m = Some (set_reg RSP (gpr m RSP AND n) m)"
| "exec_instr h FXSAVE64 m =
     (if gpr m RSP AND 15 = 0 then Some (m\<lparr>fpu_area := (fpu_area m)(gpr m RSP := fpu m)\<rparr>) else None)"
| "exec_instr h FXRSTOR64 m =
     (if gpr m RSP AND 15 = 0 then Some (m\<lparr>fpu := fpu_area m (gpr m RSP)\<rparr>) else None)"
| "exec_instr h CALL_HANDLER m = h m"
| "exec_instr h IRETQ m =
     Some (m\<lparr>rip := stack_word m 0, cs := stack_word m 1, rflags := stack_word m 2, gpr := (gpr m)(RSP := stack_word m 3), ss := stack_word m 4\<rparr>)"

fun exec :: "('f machine \<Rightarrow> 'f machine option) \<Rightarrow> instr list \<Rightarrow> 'f machine \<Rightarrow> 'f machine option" where
  "exec h [] m = Some m"
| "exec h (i # is) m = Option.bind (exec_instr h i m) (exec h is)"

text \<open>
  What the processor does on an interrupt whose gate names an interrupt stack: it switches to that
  stack, aligned to 16 bytes, and pushes \<^verbatim>\<open>ss\<close>, \<^verbatim>\<open>rsp\<close>, \<^verbatim>\<open>rflags\<close>, \<^verbatim>\<open>cs\<close>, \<^verbatim>\<open>rip\<close> and, for some exceptions,
  an error code.
\<close>

definition has_error_code :: "nat \<Rightarrow> bool" where
  "has_error_code v \<longleftrightarrow> v \<in> {8, 10, 11, 12, 13, 14, 17, 21, 29, 30}"

definition cpu_interrupt :: "u64 \<Rightarrow> nat \<Rightarrow> u64 \<Rightarrow> 'f machine \<Rightarrow> 'f machine" where
  "cpu_interrupt stack v ecode m =
     (let m1 = set_reg RSP (stack AND NOT 15) m;
          m2 = push_val (rip m) (push_val (cs m) (push_val (rflags m) (push_val (gpr m RSP) (push_val (ss m) m1)))) in
      if has_error_code v then push_val ecode m2 else m2)"

section \<open>The code\<close>

definition interrupt_entrypoint :: "u64 \<Rightarrow> instr list" where
  "interrupt_entrypoint index = [PUSH_IMM 0, PUSH RCX, MOV_IMM RCX index]"

definition interrupt_entrypoint_with_ecode :: "u64 \<Rightarrow> instr list" where
  "interrupt_entrypoint_with_ecode index = [PUSH RCX, MOV_IMM RCX index]"

definition saved_regs :: "reg list" where
  "saved_regs = [R15, R14, R13, R12, R11, R10, R9, R8, RDI, RSI, RBP, RBX, RDX, RAX]"

definition inthandler_common :: "instr list" where
  "inthandler_common =
     map PUSH saved_regs @
     [SUB_RSP (512 + 8), FXSAVE64, MOV RDI RSP, MOV RBP RSP, AND_RSP (- 16), MOV RSI RCX, CALL_HANDLER,
      MOV RSP RBP, FXRSTOR64, ADD_RSP (512 + 8)] @
     map POP (rev saved_regs) @
     [POP RCX, ADD_RSP 8, IRETQ]"

definition entry_code :: "nat \<Rightarrow> instr list option" where
  "entry_code v =
     (if v \<in> {3, 6, 8, 32} then Some (interrupt_entrypoint (word_of_nat v) @ inthandler_common)
      else if v \<in> {13, 14} then Some (interrupt_entrypoint_with_ecode (word_of_nat v) @ inthandler_common)
      else None)"

section \<open>inthandler\<close>

text \<open>
  The words of \<^verbatim>\<open>InterruptInfo\<close> that the handler reads, at the offsets of the \<^verbatim>\<open>repr(C)\<close> structure from the
  pointer in the first argument.
\<close>

definition info_error_code :: "'f machine \<Rightarrow> u64 \<Rightarrow> u64" where
  "info_error_code m info = mem m (info + 512 + 8 + 15 * 8)"

definition info_rip :: "'f machine \<Rightarrow> u64 \<Rightarrow> u64" where
  "info_rip m info = mem m (info + 512 + 8 + 15 * 8 + 8)"

definition page_fault_cause :: "u64 \<Rightarrow> string list" where
  "page_fault_cause ec =
     [if ec AND 0b00000100 \<noteq> 0 then ''user'' else ''supervisor'',
      if ec AND 0b00010000 \<noteq> 0 then ''data write'' else ''data read'',
      if ec AND 0b0001 \<noteq> 0 then ''present'' else ''not present'',
      if ec AND 0b1000 \<noteq> 0 then ''invalid'' else ''valid'']"

text \<open>What is logged after the register dump, and the outcome. The bytes at \<^verbatim>\<open>rip\<close> and \<^verbatim>\<open>CR2\<close> are not shown.\<close>

definition inthandler :: "u64 \<Rightarrow> nat \<Rightarrow> string list \<times> unit res" where
  "inthandler error_code index =
     (let fatal = Panic ''fatal exception'' in
      if index = 3 then ([''Breakpoint''], Ok ())
      else if index = 6 then ([''Invalid Opcode''], fatal)
      else if index = 8 then ([''Double Fault''], fatal)
      else if index = 13 then ([''General Protection Fault''], fatal)
      else if index = 14 then (''Page Fault'' # page_fault_cause error_code, fatal)
      else ([''Not handled''], fatal))"

definition int_handler_unimplemented :: "unit res" where
  "int_handler_unimplemented = Panic ''unexpected interrupt!''"

section \<open>Lemmas on the stack\<close>

text \<open>\<open>holds_at f a vs\<close>: the words \<open>vs\<close> lie in memory \<open>f\<close> from address \<open>a\<close> upwards.\<close>

definition holds_at :: "(u64 \<Rightarrow> u64) \<Rightarrow> u64 \<Rightarrow> u64 list \<Rightarrow> bool" where
  "holds_at f a vs \<longleftrightarrow> (\<forall>i < length vs. f (a + 8 * word_of_nat i) = vs ! i)"

lemma holds_at_Nil [simp]: "holds_at f a []"
  by (simp add: holds_at_def)

lemma holds_at_Cons: "holds_at f a (v # vs) \<longleftrightarrow> f a = v \<and> holds_at f (a + 8) vs"
proof
  assume h: "holds_at f a (v # vs)"
  have "f (a + 8 + 8 * word_of_nat i) = vs ! i" if "i < length vs" for i
    using h that by (auto simp: holds_at_def algebra_simps dest!: spec [of _ "Suc i"])
  moreover have "f a = v" using h by (auto simp: holds_at_def dest!: spec [of _ 0])
  ultimately show "f a = v \<and> holds_at f (a + 8) vs" by (simp add: holds_at_def)
next
  assume h: "f a = v \<and> holds_at f (a + 8) vs"
  show "holds_at f a (v # vs)" unfolding holds_at_def
  proof (intro allI impI)
    fix i assume "i < length (v # vs)"
    then show "f (a + 8 * word_of_nat i) = (v # vs) ! i"
      using h by (cases i) (auto simp: holds_at_def algebra_simps)
  qed
qed

lemma holds_at_append:
  "holds_at f a (us @ vs) \<longleftrightarrow> holds_at f a us \<and> holds_at f (a + 8 * word_of_nat (length us)) vs"
  by (induction us arbitrary: a) (auto simp: holds_at_Cons algebra_simps)

lemma below_distinct:
  assumes "i < 2 ^ 32"
  shows "(a :: u64) - 8 \<noteq> a + 8 * word_of_nat i"
proof
  assume "a - 8 = a + 8 * word_of_nat i"
  then have "a + 8 * word_of_nat i + 8 = a" by (metis diff_add_cancel)
  then have "word_of_nat (8 * i + 8) = (0 :: u64)" by (simp add: algebra_simps)
  then have "unat (word_of_nat (8 * i + 8) :: u64) = 0" by simp
  then have "(8 * i + 8) mod 2 ^ 64 = 0" unfolding unat_of_nat by simp
  moreover have "8 * i + 8 < 2 ^ 64" using assms by simp
  ultimately show False by simp
qed

lemma push_val_holds:
  assumes "holds_at (mem m) (gpr m RSP) vs" "length vs < 2 ^ 32"
  shows "holds_at (mem (push_val v m)) (gpr (push_val v m) RSP) (v # vs)"
  using assms below_distinct [of _ "gpr m RSP"]
  by (auto simp: holds_at_Cons push_val_def Let_def) (auto simp: holds_at_def)

lemma push_val_simps [simp]:
  "gpr (push_val v m) = (gpr m)(RSP := gpr m RSP - 8)" "fpu (push_val v m) = fpu m"
  "fpu_area (push_val v m) = fpu_area m" "rip (push_val v m) = rip m" "cs (push_val v m) = cs m"
  "rflags (push_val v m) = rflags m" "ss (push_val v m) = ss m"
  by (simp_all add: push_val_def Let_def)

lemma exec_append: "exec h (xs @ ys) m = Option.bind (exec h xs m) (exec h ys)"
proof (induction xs arbitrary: m)
  case (Cons x xs)
  then show ?case by (cases "exec_instr h x m") simp_all
qed simp

text \<open>Two machines that differ in memory only, with given words on the stack.\<close>

definition stacked :: "'f machine \<Rightarrow> u64 \<Rightarrow> u64 list \<Rightarrow> 'f machine \<Rightarrow> bool" where
  "stacked m a vs m' \<longleftrightarrow> (\<exists>f. m' = m\<lparr>gpr := (gpr m)(RSP := a), mem := f\<rparr>) \<and> holds_at (mem m') a vs"

lemma stacked_push:
  assumes "stacked m a vs m'" "length vs < 2 ^ 32"
  shows "stacked m (a - 8) (v # vs) (push_val v m')"
proof -
  obtain f where f: "m' = m\<lparr>gpr := (gpr m)(RSP := a), mem := f\<rparr>" using assms(1) by (auto simp: stacked_def)
  then have "holds_at (mem (push_val v m')) (a - 8) (v # vs)"
    using push_val_holds [of m' vs v] assms by (simp add: stacked_def)
  moreover have "push_val v m' = m\<lparr>gpr := (gpr m)(RSP := a - 8), mem := (mem m')(a - 8 := v)\<rparr>"
    by (simp add: push_val_def f Let_def)
  ultimately show ?thesis unfolding stacked_def by blast
qed

lemma stacked_set_reg:
  assumes "stacked m a vs m'" "r \<noteq> RSP"
  shows "stacked (set_reg r v m) a vs (set_reg r v m')"
proof -
  obtain f where "m' = m\<lparr>gpr := (gpr m)(RSP := a), mem := f\<rparr>" "holds_at (mem m') a vs"
    using assms(1) by (auto simp: stacked_def)
  then show ?thesis using assms(2) unfolding stacked_def
    by (intro conjI exI [of _ f]) (simp_all add: set_reg_def fun_upd_twist)
qed

lemma stacked_pushes:
  assumes "stacked m a vs m'" "RSP \<notin> set rs" "length vs + length rs < 2 ^ 32"
  shows "\<exists>m''. exec h (map PUSH rs) m' = Some m'' \<and>
    stacked m (a - 8 * word_of_nat (length rs)) (rev (map (gpr m) rs) @ vs) m''"
  using assms
proof (induction rs arbitrary: a vs m')
  case (Cons r rs)
  have r: "gpr m' r = gpr m r" using Cons.prems(1,2) by (auto simp: stacked_def)
  have "stacked m (a - 8) (gpr m r # vs) (push_val (gpr m r) m')"
    using Cons.prems by (intro stacked_push) auto
  then obtain m'' where "exec h (map PUSH rs) (push_val (gpr m r) m') = Some m''"
      "stacked m (a - 8 - 8 * word_of_nat (length rs)) (rev (map (gpr m) rs) @ gpr m r # vs) m''"
    using Cons.IH [of "a - 8" "gpr m r # vs"] Cons.prems(2,3) by auto
  then show ?case by (auto simp: r algebra_simps)
qed auto

lemma exec_pops:
  assumes "holds_at (mem m) (gpr m RSP) (map g rs)" "RSP \<notin> set rs" "distinct rs"
  shows "exec h (map POP rs) m = Some (m\<lparr>gpr :=
    (\<lambda>r. if r \<in> set rs then g r else if r = RSP then gpr m RSP + 8 * word_of_nat (length rs) else gpr m r)\<rparr>)"
  using assms
proof (induction rs arbitrary: m)
  case (Cons r rs)
  let ?m = "set_reg r (stack_word m 0) (set_reg RSP (gpr m RSP + 8) m)"
  have r: "r \<noteq> RSP" "stack_word m 0 = g r" using Cons.prems by (auto simp: holds_at_Cons stack_word_def)
  have "holds_at (mem ?m) (gpr ?m RSP) (map g rs)" using Cons.prems r by (simp add: holds_at_Cons set_reg_def)
  then have "exec h (map POP rs) ?m = Some (?m\<lparr>gpr :=
      (\<lambda>q. if q \<in> set rs then g q else if q = RSP then gpr ?m RSP + 8 * word_of_nat (length rs) else gpr ?m q)\<rparr>)"
    using Cons by simp
  moreover have "(\<lambda>q. if q \<in> set rs then g q else if q = RSP then gpr ?m RSP + 8 * word_of_nat (length rs) else gpr ?m q) =
      (\<lambda>q. if q \<in> set (r # rs) then g q else if q = RSP then gpr m RSP + 8 * word_of_nat (length (r # rs)) else gpr m q)"
    using Cons.prems r by (auto simp: set_reg_def algebra_simps fun_eq_iff)
  ultimately show ?case by (simp add: set_reg_def)
qed (simp add: fun_eq_iff)

section \<open>The entry code\<close>

text \<open>
  What the code relies on of the compiled \<open>inthandler\<close>: the System V ABI (\<^verbatim>\<open>rbp\<close> and \<^verbatim>\<open>rsp\<close> come back) and
  that the \<^verbatim>\<open>InterruptInfo\<close>, which it gets by shared reference, is unchanged.
\<close>

definition respects_abi :: "('f machine \<Rightarrow> 'f machine option) \<Rightarrow> bool" where
  "respects_abi h \<longleftrightarrow> (\<forall>m m'. h m = Some m' \<longrightarrow>
     gpr m' RBP = gpr m RBP \<and> gpr m' RSP = gpr m RSP \<and>
     fpu_area m' (gpr m RDI) = fpu_area m (gpr m RDI) \<and>
     (\<forall>i < 86. mem m' (gpr m RDI + 8 * word_of_nat i) = mem m (gpr m RDI + 8 * word_of_nat i)))"

definition frame_words :: "'f machine \<Rightarrow> u64 \<Rightarrow> u64 list" where
  "frame_words m ec = [gpr m RCX, ec, rip m, cs m, rflags m, gpr m RSP, ss m]"

definition reported_error_code :: "nat \<Rightarrow> u64 \<Rightarrow> u64" where
  "reported_error_code v ecode = (if has_error_code v then ecode else 0)"

definition entry_rsp :: "u64 \<Rightarrow> u64" where
  "entry_rsp stack = (stack AND NOT 15) - 56"

text \<open>The state after the stub: the return frame, the error code and \<^verbatim>\<open>rcx\<close> on the interrupt stack.\<close>

lemma cpu_frame:
  "stacked m ((stack AND NOT 15) - 40) [rip m, cs m, rflags m, gpr m RSP, ss m]
     (push_val (rip m) (push_val (cs m) (push_val (rflags m) (push_val (gpr m RSP) (push_val (ss m)
       (set_reg RSP (stack AND NOT 15) m))))))"
proof -
  let ?b = "stack AND NOT 15"
  have "stacked m ?b [] (set_reg RSP ?b m)" unfolding stacked_def set_reg_def by (intro conjI exI [of _ "mem m"]) simp_all
  note stacked_push [OF stacked_push [OF stacked_push [OF stacked_push [OF stacked_push [OF this]]]]]
  from this [of "ss m" "gpr m RSP" "rflags m" "cs m" "rip m"] show ?thesis by (simp add: algebra_simps)
qed

lemma has_error_code_exceptions: "v = 13 \<or> v = 14 \<Longrightarrow> has_error_code v"
  by (auto simp: has_error_code_def)

lemma stub_frame:
  assumes "v \<in> {3, 6, 13, 14, 32}"
  shows "\<exists>m1 stub. entry_code v = Some (stub @ inthandler_common) \<and>
    exec h stub (cpu_interrupt stack v ecode m) = Some m1 \<and>
    stacked (set_reg RCX (word_of_nat v) m) (entry_rsp stack) (frame_words m (reported_error_code v ecode)) m1"
proof -
  let ?m2 = "push_val (rip m) (push_val (cs m) (push_val (rflags m) (push_val (gpr m RSP) (push_val (ss m)
       (set_reg RSP (stack AND NOT 15) m)))))"
  let ?ec = "reported_error_code v ecode"
  let ?m4 = "push_val (gpr m RCX) (push_val ?ec ?m2)"
  have "stacked m (entry_rsp stack) (frame_words m ?ec) ?m4"
    using stacked_push [OF stacked_push [OF cpu_frame]] by (simp add: entry_rsp_def frame_words_def algebra_simps)
  then have st: "stacked (set_reg RCX (word_of_nat v) m) (entry_rsp stack) (frame_words m ?ec) (set_reg RCX (word_of_nat v) ?m4)"
    by (rule stacked_set_reg) simp
  have rcx: "gpr ?m2 RCX = gpr m RCX" by (simp add: set_reg_def)
  show ?thesis
  proof (cases "v \<in> {13, 14}")
    case True
    then have "exec h (interrupt_entrypoint_with_ecode (word_of_nat v)) (cpu_interrupt stack v ecode m) =
        Some (set_reg RCX (word_of_nat v) ?m4)"
      using rcx by (simp add: interrupt_entrypoint_with_ecode_def cpu_interrupt_def reported_error_code_def Let_def
          has_error_code_exceptions)
    then show ?thesis using True st by (auto simp: entry_code_def)
  next
    case False
    then have v: "v \<in> {3, 6, 32}" using assms by auto
    then have "\<not> has_error_code v" by (auto simp: has_error_code_def)
    then have "exec h (interrupt_entrypoint (word_of_nat v)) (cpu_interrupt stack v ecode m) =
        Some (set_reg RCX (word_of_nat v) ?m4)"
      using rcx by (simp add: interrupt_entrypoint_def cpu_interrupt_def reported_error_code_def Let_def)
    then show ?thesis using v st by (auto simp: entry_code_def)
  qed
qed

definition entry_part :: "instr list" where
  "entry_part = map PUSH saved_regs @
     [SUB_RSP (512 + 8), FXSAVE64, MOV RDI RSP, MOV RBP RSP, AND_RSP (- 16), MOV RSI RCX]"

definition exit_part :: "instr list" where
  "exit_part = [MOV RSP RBP, FXRSTOR64, ADD_RSP (512 + 8)] @ map POP (rev saved_regs) @ [POP RCX, ADD_RSP 8, IRETQ]"

lemma common_parts: "inthandler_common = entry_part @ CALL_HANDLER # exit_part"
  by (simp add: inthandler_common_def entry_part_def exit_part_def)

definition info_address :: "u64 \<Rightarrow> u64" where
  "info_address stack = (stack AND NOT 15) - 688"

lemma info_aligned: "info_address stack AND 15 = 0" "info_address stack AND - 16 = info_address stack"
proof -
  have m: "(15 :: u64) = mask 4" "(- 16 :: u64) = NOT (mask 4)" by (simp_all add: mask_eq_exp_minus_1)
  have "stack AND NOT 15 = push_bit 4 (drop_bit 4 stack)"
    unfolding m by (intro bit_word_eqI) (auto simp: bit_simps)
  then have "info_address stack = push_bit 4 (drop_bit 4 stack - 43)"
    by (simp add: info_address_def push_bit_eq_mult algebra_simps)
  moreover have "push_bit 4 x AND 15 = (0 :: u64)" "push_bit 4 x AND - 16 = (push_bit 4 x :: u64)" for x
    unfolding m by (rule bit_word_eqI, auto simp: bit_simps)+
  ultimately show "info_address stack AND 15 = 0" "info_address stack AND - 16 = info_address stack" by simp_all
qed

text \<open>The machine at the call: \<open>m\<close> is the interrupted one, \<open>rest\<close> the words above the saved registers.\<close>

definition at_call :: "'f machine \<Rightarrow> u64 \<Rightarrow> nat \<Rightarrow> u64 list \<Rightarrow> 'f machine \<Rightarrow> bool" where
  "at_call m p v rest mc \<longleftrightarrow>
     gpr mc RSP = p \<and> gpr mc RBP = p \<and> gpr mc RDI = p \<and> gpr mc RSI = word_of_nat v \<and>
     fpu_area mc p = fpu m \<and> holds_at (mem mc) (p + 520) (map (gpr m) (rev saved_regs) @ rest)"

lemma entry_part_run:
  assumes "stacked (set_reg RCX (word_of_nat v) m) (entry_rsp stack) rest m1" "length rest < 2 ^ 16"
  shows "\<exists>mc. exec h entry_part m1 = Some mc \<and> at_call m (info_address stack) v rest mc"
proof -
  let ?m = "set_reg RCX (word_of_nat v) m"
  have "RSP \<notin> set saved_regs" "length saved_regs = 14" by (simp_all add: saved_regs_def)
  then obtain m2 where m2: "exec h (map PUSH saved_regs) m1 = Some m2"
      "stacked ?m (entry_rsp stack - 112) (rev (map (gpr ?m) saved_regs) @ rest) m2"
    using stacked_pushes [OF assms(1), of saved_regs h] assms(2) by auto
  obtain f where f: "m2 = ?m\<lparr>gpr := (gpr ?m)(RSP := entry_rsp stack - 112), mem := f\<rparr>"
    using m2(2) by (auto simp: stacked_def)
  have p: "entry_rsp stack - 112 - 520 = info_address stack" by (simp add: entry_rsp_def info_address_def)
  then have q: "entry_rsp stack - 112 = info_address stack + 520" by (simp add: algebra_simps)
  have regs: "map (gpr ?m) saved_regs = map (gpr m) saved_regs" by (simp add: saved_regs_def set_reg_def)
  have h: "holds_at f (info_address stack + 520) (map (gpr m) (rev saved_regs) @ rest)"
    using m2(2) unfolding stacked_def regs q rev_map by (simp add: f)
  let ?mc = "m2\<lparr>gpr := (gpr m2)(RSP := info_address stack, RDI := info_address stack, RBP := info_address stack,
      RSI := word_of_nat v), fpu_area := (fpu_area m2)(info_address stack := fpu m)\<rparr>"
  have "exec h entry_part m1 = Some ?mc"
    unfolding entry_part_def exec_append m2(1)
    by (simp add: f q info_aligned set_reg_def fun_eq_iff)
  moreover have "at_call m (info_address stack) v rest ?mc" using h by (simp add: at_call_def f)
  ultimately show ?thesis by blast
qed

lemma holds_at_frame:
  assumes "holds_at f (p + 520) vs" "length vs \<le> 21"
    and "\<And>i. i < 86 \<Longrightarrow> g (p + 8 * word_of_nat i) = f (p + 8 * word_of_nat i)"
  shows "holds_at g (p + 520) vs"
  unfolding holds_at_def
proof (intro allI impI)
  fix i assume i: "i < length vs"
  have "p + 520 + 8 * word_of_nat i = p + 8 * word_of_nat (65 + i)" by (simp add: algebra_simps)
  then have "g (p + 520 + 8 * word_of_nat i) = f (p + 520 + 8 * word_of_nat i)"
    using assms(2) assms(3) [of "65 + i"] i by (simp only:)
  then show "g (p + 520 + 8 * word_of_nat i) = vs ! i" using assms(1) i by (simp add: holds_at_def)
qed

lemma saved_regs_length: "length saved_regs = 14"
  by (simp add: saved_regs_def)

lemma all_regs: "r \<in> set saved_regs \<or> r = RCX \<or> r = RSP"
  by (cases r) (simp_all add: saved_regs_def)

lemma exit_part_run:
  assumes "at_call m p v (frame_words m ec) mc" "p AND 15 = 0" "h mc = Some mh" "respects_abi h"
  shows "exec h exit_part mh = Some (m\<lparr>mem := mem mh, fpu_area := fpu_area mh\<rparr>)"
proof -
  have abi: "gpr mh RBP = p" "fpu_area mh p = fpu m"
      "\<And>i. i < 86 \<Longrightarrow> mem mh (p + 8 * word_of_nat i) = mem mc (p + 8 * word_of_nat i)"
    using assms(4) [unfolded respects_abi_def, rule_format, OF assms(3)] assms(1) by (auto simp: at_call_def)
  have "holds_at (mem mh) (p + 520) (map (gpr m) (rev saved_regs) @ frame_words m ec)"
    by (rule holds_at_frame [where f = "mem mc"])
      (use assms(1) abi(3) in \<open>simp_all add: at_call_def saved_regs_def frame_words_def\<close>)
  then have w: "holds_at (mem mh) (p + 520) (map (gpr m) (rev saved_regs))" "holds_at (mem mh) (p + 632) (frame_words m ec)"
    unfolding holds_at_append by (simp_all add: saved_regs_length add.assoc)
  let ?m1 = "mh\<lparr>gpr := (gpr mh)(RSP := p + 520), fpu := fpu m\<rparr>"
  have 1: "exec h [MOV RSP RBP, FXRSTOR64, ADD_RSP (512 + 8)] mh = Some ?m1"
    using abi(1,2) assms(2) by (simp add: set_reg_def)
  let ?g = "\<lambda>r. if r \<in> set (rev saved_regs) then gpr m r else if r = RSP then gpr ?m1 RSP + 8 * word_of_nat (length (rev saved_regs)) else gpr ?m1 r"
  have "RSP \<notin> set (rev saved_regs)" "distinct (rev saved_regs)" "length saved_regs = 14" by (simp_all add: saved_regs_def)
  have 2: "exec h (map POP (rev saved_regs)) ?m1 = Some (?m1\<lparr>gpr := ?g\<rparr>)"
    by (rule exec_pops) (use w(1) \<open>RSP \<notin> _\<close> \<open>distinct _\<close> in simp_all)
  have rsp: "?g RSP = p + 632" using \<open>RSP \<notin> _\<close> \<open>length _ = _\<close> by (simp add: algebra_simps)
  let ?m2 = "?m1\<lparr>gpr := ?g\<rparr>"
  have t: "mem mh (p + 632) = gpr m RCX" "mem mh (p + 648) = rip m" "mem mh (p + 656) = cs m"
      "mem mh (p + 664) = rflags m" "mem mh (p + 672) = gpr m RSP" "mem mh (p + 680) = ss m"
    using w(2) by (simp_all add: frame_words_def holds_at_Cons algebra_simps)
  have 3: "exec h [POP RCX, ADD_RSP 8, IRETQ] x = Some (m\<lparr>mem := mem mh, fpu_area := fpu_area mh\<rparr>)"
    if x: "x = mh\<lparr>gpr := g, fpu := fpu m\<rparr>" "g RSP = p + 632" "\<And>r. r \<in> set saved_regs \<Longrightarrow> g r = gpr m r" for x g
  proof -
    have "g(RCX := gpr m RCX, RSP := gpr m RSP) = gpr m" using x(3) all_regs by (auto simp: fun_eq_iff)
    then show ?thesis using t x(2) by (simp add: x(1) set_reg_def stack_word_def algebra_simps fun_upd_twist)
  qed
  have "exec h [POP RCX, ADD_RSP 8, IRETQ] ?m2 = Some (m\<lparr>mem := mem mh, fpu_area := fpu_area mh\<rparr>)"
    by (rule 3 [of _ ?g]) (use rsp in simp_all)
  then show ?thesis using 1 2 by (simp only: exit_part_def exec_append Option.bind.simps)
qed

lemma interrupt_round:
  assumes "v \<in> {3, 6, 13, 14, 32}" "respects_abi h"
  shows "\<exists>code mc. entry_code v = Some code \<and>
    exec h code (cpu_interrupt stack v ecode m) =
      map_option (\<lambda>mh. m\<lparr>mem := mem mh, fpu_area := fpu_area mh\<rparr>) (h mc) \<and>
    at_call m (info_address stack) v (frame_words m (reported_error_code v ecode)) mc"
proof -
  obtain m1 stub where m1: "entry_code v = Some (stub @ inthandler_common)"
      "exec h stub (cpu_interrupt stack v ecode m) = Some m1"
      "stacked (set_reg RCX (word_of_nat v) m) (entry_rsp stack) (frame_words m (reported_error_code v ecode)) m1"
    using stub_frame [OF assms(1)] by blast
  obtain mc where mc: "exec h entry_part m1 = Some mc"
      "at_call m (info_address stack) v (frame_words m (reported_error_code v ecode)) mc"
    using entry_part_run [OF m1(3)] by (auto simp: frame_words_def)
  have "exec h (stub @ inthandler_common) (cpu_interrupt stack v ecode m) =
      map_option (\<lambda>mh. m\<lparr>mem := mem mh, fpu_area := fpu_area mh\<rparr>) (h mc)"
    using exit_part_run [OF mc(2) info_aligned(1) _ assms(2)]
    by (cases "h mc") (simp_all add: common_parts exec_append m1(2) mc(1))
  then show ?thesis using m1(1) mc(2) by blast
qed

text \<open>What the handler finds in the \<^verbatim>\<open>InterruptInfo\<close>.\<close>

lemma at_call_info:
  assumes "at_call m p v (frame_words m ec) mc"
  shows "info_error_code mc p = ec" "info_rip mc p = rip m"
proof -
  have "holds_at (mem mc) (p + 520) (map (gpr m) (rev saved_regs)) \<and> holds_at (mem mc) (p + 632) (frame_words m ec)"
    using assms unfolding at_call_def holds_at_append by (simp add: saved_regs_length add.assoc)
  then show "info_error_code mc p = ec" "info_rip mc p = rip m"
    by (simp_all add: info_error_code_def info_rip_def frame_words_def holds_at_Cons algebra_simps)
qed

text \<open>The stub of vector 8 pushes a second error code, which leaves the stack misaligned for \<^verbatim>\<open>fxsave64\<close>.\<close>

lemma double_fault_stack: "(stack AND NOT 15) - 64 - 112 - 520 AND 15 \<noteq> (0 :: u64)"
proof -
  have m: "(15 :: u64) = mask 4" by (simp add: mask_eq_exp_minus_1)
  have "stack AND NOT 15 = push_bit 4 (drop_bit 4 stack)"
    unfolding m by (intro bit_word_eqI) (auto simp: bit_simps)
  then have s: "(stack AND NOT 15) - 64 - 112 - 520 = push_bit 4 (drop_bit 4 stack - 44) + 8"
    by (simp add: push_bit_eq_mult algebra_simps)
  have "(8 :: u64) = 2 ^ 3" by simp
  then have e: "bit (8 :: u64) n \<longleftrightarrow> n = 3" for n
    by (simp only: bit_exp_iff) auto
  have "push_bit 4 x + 8 = push_bit 4 x OR (8 :: u64)" for x
    by (rule disjunctive_add) (auto simp: bit_push_bit_iff e simp del: bit_numeral_word_iff)
  then have "bit ((push_bit 4 (drop_bit 4 stack - 44) + 8) AND mask 4) 3"
    by (simp add: bit_push_bit_iff bit_and_iff bit_or_iff e bit_mask_iff)
  then have "bit ((stack AND NOT 15) - 64 - 112 - 520 AND 15) 3" unfolding s unfolding m .
  then show ?thesis by auto
qed

lemma double_fault_run:
  "\<exists>code. entry_code 8 = Some code \<and> exec h code (cpu_interrupt stack 8 ecode m) = None"
proof -
  let ?m2 = "push_val (rip m) (push_val (cs m) (push_val (rflags m) (push_val (gpr m RSP) (push_val (ss m)
       (set_reg RSP (stack AND NOT 15) m)))))"
  let ?m5 = "push_val (gpr m RCX) (push_val 0 (push_val ecode ?m2))"
  have rcx: "gpr ?m2 RCX = gpr m RCX" by (simp add: set_reg_def)
  have "stacked m ((stack AND NOT 15) - 64) [gpr m RCX, 0, ecode, rip m, cs m, rflags m, gpr m RSP, ss m] ?m5"
    using stacked_push [OF stacked_push [OF stacked_push [OF cpu_frame]]] by (simp add: algebra_simps)
  then have st: "stacked (set_reg RCX 8 m) ((stack AND NOT 15) - 64)
      [gpr m RCX, 0, ecode, rip m, cs m, rflags m, gpr m RSP, ss m] (set_reg RCX 8 ?m5)"
    by (rule stacked_set_reg) simp
  have "RSP \<notin> set saved_regs" by (simp add: saved_regs_def)
  from stacked_pushes [OF st this, of h] obtain m6 vs where
      "exec h (map PUSH saved_regs) (set_reg RCX 8 ?m5) = Some m6"
      "stacked (set_reg RCX 8 m) ((stack AND NOT 15) - 64 - 8 * word_of_nat (length saved_regs)) vs m6"
    unfolding saved_regs_length by auto
  then have m6: "exec h (map PUSH saved_regs) (set_reg RCX 8 ?m5) = Some m6"
      "gpr m6 RSP = (stack AND NOT 15) - 64 - 112"
    by (auto simp: stacked_def saved_regs_length)
  have "exec h (interrupt_entrypoint 8) (cpu_interrupt stack 8 ecode m) = Some (set_reg RCX 8 ?m5)"
    using rcx by (simp add: interrupt_entrypoint_def cpu_interrupt_def has_error_code_def Let_def)
  then have "exec h (interrupt_entrypoint 8 @ inthandler_common) (cpu_interrupt stack 8 ecode m) =
      exec h inthandler_common (set_reg RCX 8 ?m5)"
    by (simp add: exec_append)
  also have "\<dots> = None"
    using double_fault_stack [of stack] m6
    by (simp add: inthandler_common_def exec_append set_reg_def)
  finally show ?thesis by (simp add: entry_code_def)
qed

end
