(* ===== verification/X86_Tables.thy ===== *)
theory X86_Tables
  imports Bit_Fields First_Fit
begin

text \<open>
  The descriptor tables of \<^verbatim>\<open>x86.rs\<close>: interrupt gates and the IDT, the task state segment with its
  interrupt stacks, the GDT, and \<^verbatim>\<open>init_exceptions\<close>, which loads them. The addresses of the assembly
  entry points are parameters; boxed tables and stacks come from the kernel's allocator.
\<close>

section \<open>Interrupt gates\<close>

definition BIT_FLAGS_INTGATE :: u8 where "BIT_FLAGS_INTGATE = 0b00001110"
definition BIT_FLAGS_PRESENT :: u8 where "BIT_FLAGS_PRESENT = 0b10000000"
definition BIT_FLAGS_DPL0 :: u8 where "BIT_FLAGS_DPL0 = push_bit 5 0"
definition BIT_FLAGS_DPL3 :: u8 where "BIT_FLAGS_DPL3 = push_bit 5 3"

datatype IdtAttr = NotPresentGate | IntGateDPL0 | IntGateDPL3

fun idt_attr_code :: "IdtAttr \<Rightarrow> u8" where
  "idt_attr_code NotPresentGate = 0"
| "idt_attr_code IntGateDPL0 = BIT_FLAGS_INTGATE OR BIT_FLAGS_PRESENT OR BIT_FLAGS_DPL0"
| "idt_attr_code IntGateDPL3 = BIT_FLAGS_INTGATE OR BIT_FLAGS_PRESENT OR BIT_FLAGS_DPL3"

record IdtDescriptor =
  offset_low :: u16
  segment_selector :: u16
  ist_index :: u8
  idt_attr :: IdtAttr
  offset_mid :: u16
  offset_high :: u32

definition IdtDescriptor_new :: "u16 \<Rightarrow> u8 \<Rightarrow> IdtAttr \<Rightarrow> u64 \<Rightarrow> IdtDescriptor" where
  "IdtDescriptor_new selector ist attr f =
     \<lparr>offset_low = ucast f, segment_selector = selector, ist_index = ist, idt_attr = attr,
      offset_mid = ucast (drop_bit 16 f), offset_high = ucast (drop_bit 32 f)\<rparr>"

record IdtrParameters =
  idtr_limit :: u16
  idtr_base :: u64

text \<open>\<open>entry v\<close> is the address of \<^verbatim>\<open>interrupt_entrypoint<v>\<close>, \<open>unimpl\<close> that of \<^verbatim>\<open>int_handler_unimplemented\<close>.\<close>

definition idt_entries :: "u16 \<Rightarrow> (nat \<Rightarrow> u64) \<Rightarrow> u64 \<Rightarrow> IdtDescriptor list" where
  "idt_entries selector entry unimpl =
     (replicate 0x100 (IdtDescriptor_new selector 1 IntGateDPL0 unimpl))
       [3 := IdtDescriptor_new selector 1 IntGateDPL3 (entry 3),
        6 := IdtDescriptor_new selector 1 IntGateDPL0 (entry 6),
        8 := IdtDescriptor_new selector 2 IntGateDPL0 (entry 8),
        13 := IdtDescriptor_new selector 1 IntGateDPL0 (entry 13),
        14 := IdtDescriptor_new selector 1 IntGateDPL0 (entry 14),
        32 := IdtDescriptor_new selector 1 IntGateDPL0 (entry 32)]"

definition Idt_new :: "u16 \<Rightarrow> (nat \<Rightarrow> u64) \<Rightarrow> u64 \<Rightarrow> heap_state \<Rightarrow>
    ((IdtDescriptor list \<times> IdtrParameters) \<times> heap_state) res option" where
  "Idt_new selector entry unimpl s =
     (let entries = idt_entries selector entry unimpl;
          limit = word_of_nat (length entries * 16) in
      and_then_opt (box_alloc s (length entries * 16) 1) (\<lambda>(a, s').
      Some (Ok ((entries, \<lparr>idtr_limit = limit, idtr_base = word_of_nat a\<rparr>), s'))))"

section \<open>Task state segment\<close>

record TaskStateSegment64 =
  tss_addr :: usize
  tss_rsp :: "u64 list"
  tss_ist :: "u64 list"
  io_map_base_addr :: u16

definition HANDLER_STACK_SIZE :: usize where
  "HANDLER_STACK_SIZE = 64 * 1024"

definition alloc_interrupt_stack :: "heap_state \<Rightarrow> (u64 \<times> heap_state) res option" where
  "alloc_interrupt_stack s =
     and_then_opt (box_alloc s HANDLER_STACK_SIZE 1) (\<lambda>(p, s').
     Some (Ok (word_of_nat (p + HANDLER_STACK_SIZE), s')))"

fun alloc_stacks :: "heap_state \<Rightarrow> nat \<Rightarrow> (u64 list \<times> heap_state) res option" where
  "alloc_stacks s 0 = Some (Ok ([], s))"
| "alloc_stacks s (Suc n) =
     and_then_opt (alloc_interrupt_stack s) (\<lambda>(r, s1).
     and_then_opt (alloc_stacks s1 n) (\<lambda>(rs, s2). Some (Ok (r # rs, s2))))"

definition TaskStateSegment64_new :: "heap_state \<Rightarrow> (TaskStateSegment64 \<times> heap_state) res option" where
  "TaskStateSegment64_new s =
     and_then_opt (alloc_interrupt_stack s) (\<lambda>(rsp0, s1).
     and_then_opt (alloc_stacks s1 7) (\<lambda>(ists, s2).
     and_then_opt (box_alloc s2 104 1) (\<lambda>(a, s3).
     Some (Ok (\<lparr>tss_addr = a, tss_rsp = [rsp0, 0, 0], tss_ist = 0 # ists, io_map_base_addr = 0\<rparr>, s3)))))"

definition TaskStateSegment64_drop :: "TaskStateSegment64 \<Rightarrow> unit res" where
  "TaskStateSegment64_drop t = Panic ''TSS64 dropped, this is not allowed!''"

section \<open>Segments\<close>

definition BIT_TYPE_DATA :: u64 where "BIT_TYPE_DATA = push_bit 43 0b10"
definition BIT_TYPE_CODE :: u64 where "BIT_TYPE_CODE = push_bit 43 0b11"
definition BIT_PRESENT :: u64 where "BIT_PRESENT = push_bit 47 1"
definition BIT_CS_LONG_MODE :: u64 where "BIT_CS_LONG_MODE = push_bit 53 1"
definition BIT_CS_READABLE :: u64 where "BIT_CS_READABLE = push_bit 41 1"
definition BIT_CS_WRITABLE :: u64 where "BIT_CS_WRITABLE = push_bit 41 1"
definition BIT_DPL0 :: u64 where "BIT_DPL0 = push_bit 45 0x64"
definition BIT_DPL3 :: u64 where "BIT_DPL3 = push_bit 45 0x67"

datatype GdtAttr = KernelCode | KernelData

fun gdt_attr_code :: "GdtAttr \<Rightarrow> u64" where
  "gdt_attr_code KernelCode = BIT_TYPE_CODE OR BIT_PRESENT OR BIT_CS_LONG_MODE OR BIT_CS_READABLE"
| "gdt_attr_code KernelData = BIT_TYPE_DATA OR BIT_PRESENT OR BIT_CS_WRITABLE"

definition KERNEL_CS :: u16 where "KERNEL_CS = push_bit 3 1"
definition KERNEL_DS :: u16 where "KERNEL_DS = push_bit 3 2"
definition TSS64_SEL :: u16 where "TSS64_SEL = push_bit 3 3"

record TaskStateSegment64Descriptor =
  limit_low :: u16
  base_low :: u16
  base_mid_low :: u8
  tss_attr :: u16
  base_mid_hight :: u8
  base_high :: u32

definition TaskStateSegment64Descriptor_new :: "u64 \<Rightarrow> TaskStateSegment64Descriptor" where
  "TaskStateSegment64Descriptor_new base_addr =
     \<lparr>limit_low = 104,
      base_low = ucast (base_addr AND 0xffff),
      base_mid_low = ucast (drop_bit 16 base_addr AND 0xff),
      tss_attr = 0b1000000010001001,
      base_mid_hight = ucast (drop_bit 24 base_addr AND 0xff),
      base_high = ucast (drop_bit 32 base_addr AND 0xffffffff)\<rparr>"

record Gdt =
  null_segment :: u64
  kernel_code_segment :: u64
  kernel_data_segment :: u64
  task_state_segment :: TaskStateSegment64Descriptor

record GdtWrapper =
  gdt_addr :: usize
  gdt_inner :: Gdt
  gdt_tss64 :: TaskStateSegment64

definition GdtSegmentDescriptor_null :: u64 where
  "GdtSegmentDescriptor_null = 0"

definition GdtSegmentDescriptor_new :: "GdtAttr \<Rightarrow> u64" where
  "GdtSegmentDescriptor_new attr = gdt_attr_code attr"

definition GdtWrapper_default :: "heap_state \<Rightarrow> (GdtWrapper \<times> heap_state) res option" where
  "GdtWrapper_default s =
     and_then_opt (TaskStateSegment64_new s) (\<lambda>(tss, s1).
     and_then_opt (box_alloc s1 40 1) (\<lambda>(a, s2).
     Some (Ok (\<lparr>gdt_addr = a,
       gdt_inner = \<lparr>null_segment = GdtSegmentDescriptor_null,
         kernel_code_segment = GdtSegmentDescriptor_new KernelCode,
         kernel_data_segment = GdtSegmentDescriptor_new KernelData,
         task_state_segment = TaskStateSegment64Descriptor_new (word_of_nat (tss_addr tss))\<rparr>,
       gdt_tss64 = tss\<rparr>, s2))))"

section \<open>Loading\<close>

text \<open>The processor's table and segment registers.\<close>

record cpu_tables =
  gdtr :: "u16 \<times> u64"
  idtr :: "u16 \<times> u64"
  tr :: u16
  seg_cs :: u16
  seg_ss :: u16
  seg_ds :: u16
  seg_es :: u16
  seg_fs :: u16
  seg_gs :: u16

definition GdtWrapper_load :: "GdtWrapper \<Rightarrow> cpu_tables \<Rightarrow> cpu_tables" where
  "GdtWrapper_load g c = c\<lparr>gdtr := (40 - 1, word_of_nat (gdt_addr g)), tr := TSS64_SEL\<rparr>"

definition write_cs where "write_cs v c = c\<lparr>seg_cs := v\<rparr>"
definition write_ss where "write_ss v c = c\<lparr>seg_ss := v\<rparr>"
definition write_ds where "write_ds v c = c\<lparr>seg_ds := v\<rparr>"
definition write_es where "write_es v c = c\<lparr>seg_es := v\<rparr>"
definition write_fs where "write_fs v c = c\<lparr>seg_fs := v\<rparr>"
definition write_gs where "write_gs v c = c\<lparr>seg_gs := v\<rparr>"

definition init_exceptions :: "(nat \<Rightarrow> u64) \<Rightarrow> u64 \<Rightarrow> cpu_tables \<Rightarrow> heap_state \<Rightarrow>
    ((GdtWrapper \<times> IdtDescriptor list) \<times> cpu_tables \<times> heap_state) res option" where
  "init_exceptions entry unimpl c s =
     and_then_opt (GdtWrapper_default s) (\<lambda>(gdt, s1).
     let c1 = write_gs KERNEL_DS (write_fs KERNEL_DS (write_ds KERNEL_DS (write_es KERNEL_DS
                (write_ss KERNEL_DS (write_cs KERNEL_CS (GdtWrapper_load gdt c)))))) in
     and_then_opt (Idt_new KERNEL_CS entry unimpl s1) (\<lambda>((idt, params), s2).
     Some (Ok ((gdt, idt), c1\<lparr>idtr := (idtr_limit params, idtr_base params)\<rparr>, s2))))"

section \<open>Reading the tables as the processor does\<close>

definition gate_offset :: "IdtDescriptor \<Rightarrow> u64" where
  "gate_offset g = ucast (offset_low g) OR push_bit 16 (ucast (offset_mid g)) OR push_bit 32 (ucast (offset_high g))"

definition gate_dpl :: "IdtDescriptor \<Rightarrow> nat" where
  "gate_dpl g = unat (drop_bit 5 (idt_attr_code (idt_attr g)) AND 0b11)"

definition gate_present :: "IdtDescriptor \<Rightarrow> bool" where
  "gate_present g \<longleftrightarrow> bit (idt_attr_code (idt_attr g)) 7"

definition tss_base :: "TaskStateSegment64Descriptor \<Rightarrow> u64" where
  "tss_base t = ucast (base_low t) OR push_bit 16 (ucast (base_mid_low t)) OR
     push_bit 24 (ucast (base_mid_hight t)) OR push_bit 32 (ucast (base_high t))"

lemma gate_offset_new: "gate_offset (IdtDescriptor_new sel ist attr f) = f"
proof (rule bit_word_eqI)
  fix n assume "n < LENGTH(64)"
  consider "n < 16" | "16 \<le> n" "n < 32" | "32 \<le> n" by linarith
  then show "bit (gate_offset (IdtDescriptor_new sel ist attr f)) n = bit f n"
    using \<open>n < LENGTH(64)\<close> by cases (auto simp: gate_offset_def IdtDescriptor_new_def bit_simps)
qed

lemma tss_base_new: "tss_base (TaskStateSegment64Descriptor_new a) = a"
proof -
  have m: "(0xffff :: u64) = mask 16" "(0xff :: u64) = mask 8" "(0xffffffff :: u64) = mask 32"
    by (simp_all add: mask_eq_exp_minus_1)
  show ?thesis
  proof (rule bit_word_eqI)
    fix n assume n: "n < LENGTH(64)"
    consider "n < 16" | "16 \<le> n" "n < 24" | "24 \<le> n" "n < 32" | "32 \<le> n" by linarith
    then show "bit (tss_base (TaskStateSegment64Descriptor_new a)) n = bit a n"
      using n unfolding tss_base_def TaskStateSegment64Descriptor_new_def m by cases (auto simp: bit_simps)
  qed
qed

lemma idt_entries_nth:
  assumes "v < 256"
  shows "idt_entries sel entry unimpl ! v =
    IdtDescriptor_new sel (if v = 8 then 2 else 1) (if v = 3 then IntGateDPL3 else IntGateDPL0)
      (if v \<in> {3, 6, 8, 13, 14, 32} then entry v else unimpl)"
  using assms by (simp add: idt_entries_def nth_list_update)

lemma idt_gate:
  assumes "v < 256"
  shows "gate_offset (idt_entries sel entry unimpl ! v) = (if v \<in> {3, 6, 8, 13, 14, 32} then entry v else unimpl) \<and>
    gate_present (idt_entries sel entry unimpl ! v) \<and>
    gate_dpl (idt_entries sel entry unimpl ! v) = (if v = 3 then 3 else 0) \<and>
    segment_selector (idt_entries sel entry unimpl ! v) = sel \<and>
    ist_index (idt_entries sel entry unimpl ! v) = (if v = 8 then 2 else 1)"
  unfolding idt_entries_nth [OF assms] gate_offset_new
  by (simp add: gate_present_def gate_dpl_def IdtDescriptor_new_def BIT_FLAGS_INTGATE_def BIT_FLAGS_PRESENT_def
      BIT_FLAGS_DPL0_def BIT_FLAGS_DPL3_def)

section \<open>Interrupt stacks\<close>

definition stack_of :: "u64 \<Rightarrow> usize \<times> usize" where
  "stack_of rsp = (unat rsp - HANDLER_STACK_SIZE, HANDLER_STACK_SIZE)"

lemma stack_layout: "layout_ok HANDLER_STACK_SIZE 1" "layout_ok 104 1" "layout_ok 40 1" "layout_ok 4096 1"
  by (simp_all add: layout_ok_def is_pow2_def bit_len.simps HANDLER_STACK_SIZE_def)

lemma alloc_interrupt_stack_spec:
  assumes "live_inv s L"
  shows "alloc_interrupt_stack s = Some (Panic ''memory allocation failed'') \<or>
    (\<exists>r s'. alloc_interrupt_stack s = Some (Ok (r, s')) \<and> live_inv s' (insert (stack_of r) L) \<and>
       stack_of r \<notin> L \<and> HANDLER_STACK_SIZE \<le> unat r)"
  using box_alloc_spec [OF assms stack_layout(1)]
proof (elim disjE exE conjE)
  fix p s' assume b: "box_alloc s HANDLER_STACK_SIZE 1 = Some (Ok (p, s'))"
    "live_inv s' (insert (p, HANDLER_STACK_SIZE) L)" "p \<notin> fst ` L" "p + HANDLER_STACK_SIZE < 2 ^ 64"
  have "unat (word_of_nat (p + HANDLER_STACK_SIZE) :: u64) = p + HANDLER_STACK_SIZE" using b(4) by (rule unat_u64)
  then have "stack_of (word_of_nat (p + HANDLER_STACK_SIZE)) = (p, HANDLER_STACK_SIZE)"
      "HANDLER_STACK_SIZE \<le> unat (word_of_nat (p + HANDLER_STACK_SIZE) :: u64)"
    by (simp_all add: stack_of_def del: of_nat_add)
  moreover have "(p, HANDLER_STACK_SIZE) \<notin> L" using b(3) by force
  ultimately show ?thesis using b(1,2) by (auto simp: alloc_interrupt_stack_def simp del: of_nat_add)
qed (simp add: alloc_interrupt_stack_def)

lemma alloc_stacks_spec:
  assumes "live_inv s L"
  shows "alloc_stacks s n = Some (Panic ''memory allocation failed'') \<or>
    (\<exists>rs s'. alloc_stacks s n = Some (Ok (rs, s')) \<and> length rs = n \<and> live_inv s' (stack_of ` set rs \<union> L) \<and>
       distinct (map stack_of rs) \<and> stack_of ` set rs \<inter> L = {} \<and> (\<forall>r \<in> set rs. HANDLER_STACK_SIZE \<le> unat r))"
  using assms
proof (induction n arbitrary: s L)
  case (Suc n)
  from alloc_interrupt_stack_spec [OF Suc.prems] show ?case
  proof (elim disjE exE conjE)
    fix r s1 assume r: "alloc_interrupt_stack s = Some (Ok (r, s1))" "live_inv s1 (insert (stack_of r) L)"
      "stack_of r \<notin> L" "HANDLER_STACK_SIZE \<le> unat r"
    from Suc.IH [OF r(2)] show ?thesis
    proof (elim disjE exE conjE)
      fix rs s' assume q: "alloc_stacks s1 n = Some (Ok (rs, s'))" "length rs = n"
        "live_inv s' (stack_of ` set rs \<union> insert (stack_of r) L)" "distinct (map stack_of rs)"
        "stack_of ` set rs \<inter> insert (stack_of r) L = {}" "\<forall>r \<in> set rs. HANDLER_STACK_SIZE \<le> unat r"
      then have "alloc_stacks s (Suc n) = Some (Ok (r # rs, s'))" "distinct (map stack_of (r # rs))"
          "stack_of ` set (r # rs) \<inter> L = {}" "live_inv s' (stack_of ` set (r # rs) \<union> L)"
        using r by auto
      then show ?thesis using q(2,6) r(4) by auto
    qed (simp add: r(1))
  qed simp
qed auto

lemma TSS_new_spec:
  assumes "live_inv s L"
  shows "TaskStateSegment64_new s = Some (Panic ''memory allocation failed'') \<or>
    (\<exists>t s'. TaskStateSegment64_new s = Some (Ok (t, s')) \<and> length (tss_ist t) = 8 \<and> tss_ist t ! 0 = 0 \<and>
       (let rs = hd (tss_rsp t) # tl (tss_ist t) in
         live_inv s' (insert (tss_addr t, 104) (stack_of ` set rs \<union> L)) \<and> distinct (map stack_of rs) \<and>
         (\<forall>r \<in> set rs. HANDLER_STACK_SIZE \<le> unat r)))"
proof -
  have "alloc_stacks s 8 = and_then_opt (alloc_interrupt_stack s) (\<lambda>(r, s1).
     and_then_opt (alloc_stacks s1 7) (\<lambda>(rs, s2). Some (Ok (r # rs, s2))))"
    by (simp add: eval_nat_numeral)
  then have new: "TaskStateSegment64_new s = and_then_opt (alloc_stacks s 8) (\<lambda>(rs, s2).
      and_then_opt (box_alloc s2 104 1) (\<lambda>(a, s3).
      Some (Ok (\<lparr>tss_addr = a, tss_rsp = [hd rs, 0, 0], tss_ist = 0 # tl rs, io_map_base_addr = 0\<rparr>, s3))))"
    by (auto simp: TaskStateSegment64_new_def and_then_opt_def split: option.splits res.splits prod.splits)
  from alloc_stacks_spec [OF assms, of 8] show ?thesis
  proof (elim disjE exE conjE)
    fix rs s2 assume a: "alloc_stacks s 8 = Some (Ok (rs, s2))" "length rs = 8" "live_inv s2 (stack_of ` set rs \<union> L)"
      "distinct (map stack_of rs)" "\<forall>r \<in> set rs. HANDLER_STACK_SIZE \<le> unat r"
    then obtain x xs where "rs = x # xs" by (cases rs) auto
    then show ?thesis using box_alloc_spec [OF a(3) stack_layout(2)] a by (auto simp: new Let_def)
  qed (simp add: new)
qed

end
