(* ===== verification/X86_Theorems.thy ===== *)
theory X86_Theorems
  imports X86_Interrupts X86_Tables Heap_Theorems
begin

text \<open>The properties of the interrupt entry code and of the descriptor tables.\<close>

section \<open>Interrupt entry\<close>

text \<open>
  Property C34 (safety). Interrupts are transparent: for every vector with an entry point but the double fault,
  the code calls the handler with the stack aligned, the vector in \<^verbatim>\<open>rsi\<close> and in \<^verbatim>\<open>rdi\<close> an
  \<^verbatim>\<open>InterruptInfo\<close> that holds the interrupted \<^verbatim>\<open>rip\<close> and the error code (0 when the processor pushes none);
  and when the handler returns, every register, the FPU state, the flags, the stack pointer and the
  place of execution are those of the interrupted program.
\<close>

theorem interrupt_transparent:
  assumes "v \<in> {3, 6, 13, 14, 32}" "respects_abi h"
  shows "\<exists>code mc. entry_code v = Some code \<and>
    exec h code (cpu_interrupt stack v ecode m) =
      map_option (\<lambda>mh. m\<lparr>mem := mem mh, fpu_area := fpu_area mh\<rparr>) (h mc) \<and>
    gpr mc RSP AND 15 = 0 \<and> gpr mc RSI = word_of_nat v \<and> gpr mc RDI = info_address stack \<and>
    info_rip mc (gpr mc RDI) = rip m \<and>
    info_error_code mc (gpr mc RDI) = (if has_error_code v then ecode else 0)"
proof -
  obtain code mc where c: "entry_code v = Some code"
      "exec h code (cpu_interrupt stack v ecode m) =
        map_option (\<lambda>mh. m\<lparr>mem := mem mh, fpu_area := fpu_area mh\<rparr>) (h mc)"
      "at_call m (info_address stack) v (frame_words m (reported_error_code v ecode)) mc"
    using interrupt_round [OF assms] by blast
  then show ?thesis using at_call_info [OF c(3)] info_aligned(1) [of stack]
    by (intro exI [of _ code] exI [of _ mc]) (simp add: at_call_def reported_error_code_def)
qed

text \<open>A handler that clobbers \<^verbatim>\<open>rax\<close> and the FPU state, interrupted at a breakpoint.\<close>

definition demo_handler :: "nat machine \<Rightarrow> nat machine option" where
  "demo_handler m = Some (m\<lparr>gpr := (gpr m)(RAX := 77), fpu := 0\<rparr>)"

definition demo_machine :: "nat machine" where
  "demo_machine = \<lparr>gpr = (\<lambda>r. if r = RSP then 0x7FF0 else if r = RAX then 5 else 1), mem = (\<lambda>_. 0), fpu = 9,
     fpu_area = (\<lambda>_. 0), rip = 0x1000, cs = 8, rflags = 0x202, ss = 16\<rparr>"

theorem interrupt_transparent_witness:
  "\<exists>code m'. entry_code 3 = Some code \<and> exec demo_handler code (cpu_interrupt 0x20008 3 0 demo_machine) = Some m' \<and>
    gpr m' = gpr demo_machine \<and> fpu m' = 9 \<and> rip m' = 0x1000"
proof -
  have "respects_abi demo_handler" by (auto simp: respects_abi_def demo_handler_def)
  then show ?thesis using interrupt_transparent [where v = 3 and h = demo_handler and stack = "0x20008" and ecode = 0 and m = demo_machine]
    by (auto simp: demo_handler_def demo_machine_def)
qed

text \<open>
  Property C36 (error). The double fault never reaches its handler: the processor pushes an error code for vector
  8, its entry point pushes a second one, and \<^verbatim>\<open>fxsave64\<close> faults on the misaligned stack, whatever the
  handler and the state.
\<close>

theorem double_fault_entry_faults:
  "\<exists>code. entry_code 8 = Some code \<and> exec h code (cpu_interrupt stack 8 ecode m) = None"
  by (rule double_fault_run)

text \<open>Only a breakpoint returns; a write is reported as a read, because the wrong bit of the error code is tested.\<close>

lemma inthandler_outcomes:
  "snd (inthandler ec idx) = (if idx = 3 then Ok () else Panic ''fatal exception'')"
  "fst (inthandler 0b00010 14) ! 2 = ''data read''"
  by (simp_all add: inthandler_def page_fault_cause_def Let_def)

section \<open>Tables\<close>

text \<open>
  For every vector the gate in the IDT, read as the processor reads it, is present, names the
  kernel code segment and leads to the entry point of that vector where there is one and to
  \<^verbatim>\<open>int_handler_unimplemented\<close> otherwise; only the breakpoint can be raised by user code, and only the
  double fault has its own stack. The descriptor of the task state segment gives back its address.
\<close>

theorem idt_gates:
  assumes "v < 256"
  shows "let g = idt_entries KERNEL_CS entry unimpl ! v in
    gate_offset g = (if v \<in> {3, 6, 8, 13, 14, 32} then entry v else unimpl) \<and> gate_present g \<and>
    gate_dpl g = (if v = 3 then 3 else 0) \<and> segment_selector g = KERNEL_CS \<and>
    ist_index g = (if v = 8 then 2 else 1) \<and>
    tss_base (TaskStateSegment64Descriptor_new base) = base"
  using idt_gate [OF assms, of KERNEL_CS entry unimpl] tss_base_new by (simp add: Let_def)

theorem idt_gates_witness:
  "gate_offset (idt_entries KERNEL_CS (\<lambda>v. word_of_nat (0xFFFF800000001000 + 16 * v)) 0xABC ! 14) = 0xFFFF8000000010E0 \<and>
    gate_offset (idt_entries KERNEL_CS (\<lambda>v. word_of_nat (0xFFFF800000001000 + 16 * v)) 0xABC ! 255) = 0xABC"
  using idt_gates [of 14 "\<lambda>v. word_of_nat (0xFFFF800000001000 + 16 * v)" "0xABC"]
    idt_gates [of 255 "\<lambda>v. word_of_nat (0xFFFF800000001000 + 16 * v)" "0xABC"] by (simp add: Let_def)

text \<open>
  The eight interrupt stacks of the task state segment are distinct live heap objects of 64 KiB below
  the stack pointers stored in it, apart from each other and from every object that was live before;
  otherwise the heap is exhausted.
\<close>

theorem interrupt_stacks_apart:
  assumes "live_inv s L"
  shows "TaskStateSegment64_new s = Some (Panic ''memory allocation failed'') \<or>
    (\<exists>t s' L'. TaskStateSegment64_new s = Some (Ok (t, s')) \<and> live_inv s' L' \<and> L \<subseteq> L' \<and>
       (let rs = hd (tss_rsp t) # tl (tss_ist t) in length rs = 8 \<and>
         (\<forall>i < 8. (unat (rs ! i) - 65536, 65536) \<in> L') \<and>
         (\<forall>i < 8. \<forall>j < 8. i \<noteq> j \<longrightarrow> unat (rs ! i) \<le> unat (rs ! j) - 65536 \<or> unat (rs ! j) \<le> unat (rs ! i) - 65536)))"
  using TSS_new_spec [OF assms]
proof (elim disjE exE conjE)
  fix t s' assume new: "TaskStateSegment64_new s = Some (Ok (t, s'))" and ist: "length (tss_ist t) = 8"
    and spec: "let rs = hd (tss_rsp t) # tl (tss_ist t) in
         live_inv s' (insert (tss_addr t, 104) (stack_of ` set rs \<union> L)) \<and> distinct (map stack_of rs) \<and>
         (\<forall>r \<in> set rs. HANDLER_STACK_SIZE \<le> unat r)"
  define rs where "rs = hd (tss_rsp t) # tl (tss_ist t)"
  define L' where "L' = insert (tss_addr t, 104) (stack_of ` set rs \<union> L)"
  have l: "live_inv s' L'" "distinct (map stack_of rs)" "\<forall>r \<in> set rs. HANDLER_STACK_SIZE \<le> unat r" "length rs = 8"
    using spec ist by (simp_all add: rs_def L'_def Let_def)
  have mem: "stack_of (rs ! i) \<in> L'" "65536 \<le> unat (rs ! i)" if "i < 8" for i
    using that l(3,4) by (auto simp: L'_def HANDLER_STACK_SIZE_def)
  have "unat (rs ! i) \<le> unat (rs ! j) - 65536 \<or> unat (rs ! j) \<le> unat (rs ! i) - 65536" if "i < 8" "j < 8" "i \<noteq> j" for i j
  proof -
    have "stack_of (rs ! i) \<noteq> stack_of (rs ! j)" using l(2,4) that by (simp add: distinct_conv_nth)
    then show ?thesis
      using live_disjoint [OF l(1), of "unat (rs ! i) - 65536" 65536 "unat (rs ! j) - 65536" 65536]
        mem [OF that(1)] mem [OF that(2)] by (simp add: stack_of_def HANDLER_STACK_SIZE_def)
  qed
  then have "length rs = 8 \<and> (\<forall>i < 8. (unat (rs ! i) - 65536, 65536) \<in> L') \<and>
      (\<forall>i < 8. \<forall>j < 8. i \<noteq> j \<longrightarrow> unat (rs ! i) \<le> unat (rs ! j) - 65536 \<or> unat (rs ! j) \<le> unat (rs ! i) - 65536)"
    using mem l(4) by (simp add: stack_of_def HANDLER_STACK_SIZE_def)
  then show ?thesis using new l(1) unfolding rs_def L'_def Let_def by blast
qed simp

theorem interrupt_stacks_apart_witness:
  "\<exists>s. live_inv s {} \<and> (TaskStateSegment64_new s = Some (Panic ''memory allocation failed'') \<or>
    (\<exists>t s' L'. TaskStateSegment64_new s = Some (Ok (t, s')) \<and> live_inv s' L' \<and> length (tl (tss_ist t)) = 7))"
proof -
  obtain s where s: "live_inv s {}" using demo_boot kernel_heap_live_inv by blast
  from interrupt_stacks_apart [OF s] show ?thesis using s by (fastforce simp: Let_def)
qed

end
