(* ===== verification/Graphics.thy ===== *)
theory Graphics
  imports Prelude
begin

text \<open>
  Drawing (\<^verbatim>\<open>graphics.rs\<close>). A bitmap is what the trait's methods return, with the pixels that back it,
  by their byte offset from the start of the buffer; a write to an offset that is not backed is
  undefined. Coordinates are 64-bit signed integers with overflow checks. Text is a list of code points.
\<close>

section \<open>Bitmaps\<close>

record bitmap =
  bytes_per_pixel :: int
  pixels_per_line :: int
  bm_width :: int
  bm_height :: int
  fb :: "int \<Rightarrow> u32 option"

definition is_in_x_range :: "bitmap \<Rightarrow> int \<Rightarrow> bool" where
  "is_in_x_range bm px \<longleftrightarrow> 0 \<le> px \<and> px < min (bm_width bm) (pixels_per_line bm)"

definition is_in_y_range :: "bitmap \<Rightarrow> int \<Rightarrow> bool" where
  "is_in_y_range bm py \<longleftrightarrow> 0 \<le> py \<and> py < bm_height bm"

definition unchecked_pixel_at :: "bitmap \<Rightarrow> int \<Rightarrow> int \<Rightarrow> int res" where
  "unchecked_pixel_at bm x y =
     and_then (chk_i64 (y * pixels_per_line bm)) (\<lambda>a.
     and_then (chk_i64 (a + x)) (\<lambda>b. chk_i64 (b * bytes_per_pixel bm)))"

definition unchecked_draw_point :: "u32 \<Rightarrow> bitmap \<Rightarrow> int \<Rightarrow> int \<Rightarrow> bitmap res" where
  "unchecked_draw_point color bm x y =
     and_then (unchecked_pixel_at bm x y) (\<lambda>off.
     if fb bm off = None then UB else Ok (bm\<lparr>fb := (fb bm)(off := Some color)\<rparr>))"

definition draw_point :: "u32 \<Rightarrow> bitmap \<Rightarrow> int \<Rightarrow> int \<Rightarrow> bitmap res" where
  "draw_point color bm x y =
     (if is_in_x_range bm x \<and> is_in_y_range bm y then unchecked_draw_point color bm x y else Err ''Out of Range'')"

section \<open>Rectangles and lines\<close>

text \<open>The guard evaluates the sums only when the corner is in range.\<close>

definition rect_in_range :: "bitmap \<Rightarrow> int \<Rightarrow> int \<Rightarrow> int \<Rightarrow> int \<Rightarrow> bool res" where
  "rect_in_range bm px py w h =
     (if \<not> is_in_x_range bm px \<or> \<not> is_in_y_range bm py then Ok False
      else and_then (chk_i64 (px + w)) (\<lambda>a. and_then (chk_i64 (a - 1)) (\<lambda>xe.
           if \<not> is_in_x_range bm xe then Ok False
           else and_then (chk_i64 (py + h)) (\<lambda>b. and_then (chk_i64 (b - 1)) (\<lambda>ye. Ok (is_in_y_range bm ye))))))"

definition fill_rect :: "u32 \<Rightarrow> bitmap \<Rightarrow> int \<Rightarrow> int \<Rightarrow> int \<Rightarrow> int \<Rightarrow> bitmap res" where
  "fill_rect color bm px py w h =
     and_then (rect_in_range bm px py w h) (\<lambda>ok.
     if \<not> ok then Err ''Out of Range''
     else fold_res (\<lambda>bm y. fold_res (\<lambda>bm x. unchecked_draw_point color bm x y) bm [px..px + w - 1])
            bm [py..py + h - 1])"

definition calc_slope_point :: "int \<Rightarrow> int \<Rightarrow> int \<Rightarrow> int option res" where
  "calc_slope_point da db ia =
     (if da < db then Ok None else if da = 0 then Ok (Some 0)
      else if 0 \<le> ia \<and> ia \<le> da
      then and_then (chk_i64 (2 * db)) (\<lambda>a. and_then (chk_i64 (a * ia)) (\<lambda>b. and_then (chk_i64 (b + da)) (\<lambda>c.
           Ok (Some (c div da div 2)))))
      else Ok None)"

text \<open>
  The loop over the longer axis, drawing at \<open>at a b\<close> for the step \<open>a\<close> and the offset \<open>b\<close> on the other axis. The
  differences and the coordinates drawn lie between the end points, which are in range, so they cannot overflow.
\<close>

definition draw_slope :: "u32 \<Rightarrow> int \<Rightarrow> int \<Rightarrow> (int \<Rightarrow> int \<Rightarrow> int \<times> int) \<Rightarrow> bitmap \<Rightarrow> bitmap res" where
  "draw_slope color da db at bm =
     fold_res (\<lambda>bm a. and_then (calc_slope_point da db a) (\<lambda>r.
       case r of None \<Rightarrow> Ok bm | Some b \<Rightarrow> draw_point color bm (fst (at a b)) (snd (at a b)))) bm [0..da - 1]"

definition draw_line :: "u32 \<Rightarrow> bitmap \<Rightarrow> int \<Rightarrow> int \<Rightarrow> int \<Rightarrow> int \<Rightarrow> bitmap res" where
  "draw_line color bm x0 y0 x1 y1 =
     (if \<not> is_in_x_range bm x0 \<or> \<not> is_in_x_range bm x1 \<or> \<not> is_in_y_range bm y0 \<or> \<not> is_in_y_range bm y1
      then Err ''Out of Range''
      else (let dx = \<bar>x1 - x0\<bar>; sx = sgn (x1 - x0); dy = \<bar>y1 - y0\<bar>; sy = sgn (y1 - y0) in
        if dx \<ge> dy then draw_slope color dx dy (\<lambda>rx ry. (x0 + rx * sx, y0 + ry * sy)) bm
        else draw_slope color dy dx (\<lambda>ry rx. (x0 + rx * sx, y0 + ry * sy)) bm))"

section \<open>The font\<close>

type_synonym glyph = "string list"

definition blank_glyph :: glyph where
  "blank_glyph = replicate 16 (replicate 8 CHR ''*'')"

fun split_lines :: "string \<Rightarrow> string list" where
  "split_lines [] = [[]]"
| "split_lines (c # cs) =
     (if c = CHR 0x0A then [] # split_lines cs
      else (case split_lines cs of [] \<Rightarrow> [[c]] | l # ls \<Rightarrow> (c # l) # ls))"

definition hex_digit :: "char \<Rightarrow> int option" where
  "hex_digit c =
     (let v = (of_char c :: int) in
      if 48 \<le> v \<and> v \<le> 57 then Some (v - 48)
      else if 65 \<le> v \<and> v \<le> 70 then Some (v - 55)
      else if 97 \<le> v \<and> v \<le> 102 then Some (v - 87) else None)"

fun hex_value :: "int \<Rightarrow> string \<Rightarrow> int option" where
  "hex_value acc [] = Some acc"
| "hex_value acc (c # cs) = (case hex_digit c of None \<Rightarrow> None | Some d \<Rightarrow> hex_value (16 * acc + d) cs)"

text \<open>\<^verbatim>\<open>i8::from_str_radix(line, 16)\<close>: an optional sign, at least one digit, and a value that fits.\<close>

definition i8_from_hex :: "string \<Rightarrow> int option" where
  "i8_from_hex s =
     (let (neg, digits) = (case s of [] \<Rightarrow> (False, []) | c # cs \<Rightarrow>
            if c = CHR ''-'' then (True, cs) else if c = CHR ''+'' then (False, cs) else (False, s)) in
      if digits = [] then None
      else (case hex_value 0 digits of None \<Rightarrow> None
            | Some v \<Rightarrow> (let i = (if neg then - v else v) in if - 128 \<le> i \<and> i \<le> 127 then Some i else None)))"

definition glyph_row :: "string \<Rightarrow> string" where
  "glyph_row line = take 8 (line @ drop (length line) (replicate 8 CHR ''*''))"

definition read_glyph :: "string list \<Rightarrow> glyph" where
  "read_glyph ls = map glyph_row (take 16 ls) @ drop (length ls) blank_glyph"

fun load_font :: "string list \<Rightarrow> glyph list \<Rightarrow> glyph list res" where
  "load_font [] font = Ok font"
| "load_font (line # rest) font =
     (if take 2 line = ''0x'' then
        (case i8_from_hex (drop 2 line) of
           None \<Rightarrow> load_font rest font
         | Some idx \<Rightarrow>
             if idx < 0 then Panic ''index out of bounds''
             else load_font rest (font[nat idx := read_glyph rest]))
      else load_font rest font)"

definition lookup_font :: "string \<Rightarrow> nat \<Rightarrow> glyph option res" where
  "lookup_font source c =
     (if c < 256 then and_then (load_font (split_lines source) (replicate 256 blank_glyph)) (\<lambda>font. Ok (Some (font ! c)))
      else Ok None)"

section \<open>Text\<close>

text \<open>\<^verbatim>\<open>let _ = draw_point(...)\<close>: an error is dropped.\<close>

definition try_draw_point :: "u32 \<Rightarrow> bitmap \<Rightarrow> int \<Rightarrow> int \<Rightarrow> bitmap res" where
  "try_draw_point color bm x y = (case draw_point color bm x y of Err e \<Rightarrow> Ok bm | r \<Rightarrow> r)"

definition glyph_pixels :: "glyph \<Rightarrow> (int \<times> int) list" where
  "glyph_pixels g =
     concat (map (\<lambda>(dy, row). concat (map (\<lambda>(dx, p). if p = CHR ''*'' then [(dx, dy)] else [])
       (zip [0..int (length row) - 1] row))) (zip [0..int (length g) - 1] g))"

definition draw_font_fg :: "string \<Rightarrow> bitmap \<Rightarrow> int \<Rightarrow> int \<Rightarrow> u32 \<Rightarrow> nat \<Rightarrow> bitmap res" where
  "draw_font_fg source bm x y color c =
     and_then (lookup_font source c) (\<lambda>g.
     case g of None \<Rightarrow> Ok bm
     | Some glyph \<Rightarrow>
         fold_res (\<lambda>bm (dx, dy). and_then (chk_i64 (x + dx)) (\<lambda>px. and_then (chk_i64 (y + dy)) (\<lambda>py.
           try_draw_point color bm px py))) bm (glyph_pixels glyph))"

fun draw_str_from :: "string \<Rightarrow> bitmap \<Rightarrow> int \<Rightarrow> int \<Rightarrow> u32 \<Rightarrow> int \<Rightarrow> nat list \<Rightarrow> bitmap res" where
  "draw_str_from source bm x y color i [] = Ok bm"
| "draw_str_from source bm x y color i (c # cs) =
     and_then (chk_i64 (i * 8)) (\<lambda>o8. and_then (chk_i64 (x + o8)) (\<lambda>px.
     and_then (draw_font_fg source bm px y color c) (\<lambda>bm'. draw_str_from source bm' x y color (i + 1) cs)))"

definition draw_str_fg where
  "draw_str_fg source bm x y color s = draw_str_from source bm x y color 0 s"

definition ignore_err :: "'a \<Rightarrow> 'a res \<Rightarrow> 'a res" where
  "ignore_err a r = (case r of Err e \<Rightarrow> Ok a | _ \<Rightarrow> r)"

definition draw_test_pattern :: "string \<Rightarrow> bitmap \<Rightarrow> bitmap res" where
  "draw_test_pattern source bm =
     (let w = 128; h = 64; colors = [0x000000, 0xff0000, 0x00ff00, 0x0000ff];
          points = [(0, 0), (0, w), (w, 0), (w, w)] in
      and_then (chk_i64 (bm_width bm - w)) (\<lambda>a. and_then (chk_i64 (a - 1)) (\<lambda>left.
      and_then (fold_res (\<lambda>bm (i, c).
         and_then (expect (fill_rect c bm left (i * h) h h) ''fill_rect failed'') (\<lambda>bm.
         and_then (chk_i64 (left + h)) (\<lambda>l. expect (fill_rect (NOT c) bm l (i * h) h h) ''fill_rect failed'')))
         bm (zip [0, 1, 2, 3] colors)) (\<lambda>bm.
      and_then (fold_res (\<lambda>bm ((x0, y0), (x1, y1)).
         and_then (chk_i64 (left + x0)) (\<lambda>a0. and_then (chk_i64 (left + x1)) (\<lambda>a1.
         ignore_err bm (draw_line 0xffffff bm a0 y0 a1 y1))))
         bm (List.product points points)) (\<lambda>bm.
      and_then (draw_str_fg source bm left (h * 4) 0x00ff00 [48, 49, 50, 51, 52, 53, 54, 55, 56, 57]) (\<lambda>bm.
      draw_str_fg source bm left (h * 4 + 16) 0x00ff00 [65, 66, 67, 68, 69, 70]))))))"

record text_writer =
  tw_buf :: bitmap
  cursor_x :: int
  cursor_y :: int

definition BitmapTextWriter_new :: "bitmap \<Rightarrow> text_writer" where
  "BitmapTextWriter_new buf = \<lparr>tw_buf = buf, cursor_x = 0, cursor_y = 0\<rparr>"

definition write_char :: "string \<Rightarrow> text_writer \<Rightarrow> nat \<Rightarrow> text_writer res" where
  "write_char source w c =
     (if c = 10
      then and_then (chk_i64 (cursor_y w + 16)) (\<lambda>y. Ok (w\<lparr>cursor_y := y, cursor_x := 0\<rparr>))
      else and_then (draw_font_fg source (tw_buf w) (cursor_x w) (cursor_y w) 0xffffff c) (\<lambda>bm.
           and_then (chk_i64 (cursor_x w + 8)) (\<lambda>x. Ok (w\<lparr>tw_buf := bm, cursor_x := x\<rparr>))))"

definition write_str :: "string \<Rightarrow> text_writer \<Rightarrow> nat list \<Rightarrow> text_writer res" where
  "write_str source w s = fold_res (write_char source) w s"

section \<open>Lemmas\<close>

definition visible :: "bitmap \<Rightarrow> int \<times> int \<Rightarrow> bool" where
  "visible bm p \<longleftrightarrow> is_in_x_range bm (fst p) \<and> is_in_y_range bm (snd p)"

definition offset :: "bitmap \<Rightarrow> int \<times> int \<Rightarrow> int" where
  "offset bm p = (snd p * pixels_per_line bm + fst p) * bytes_per_pixel bm"

text \<open>A bitmap whose visible pixels are backed and whose size fits into 64-bit arithmetic.\<close>

definition bitmap_ok :: "bitmap \<Rightarrow> bool" where
  "bitmap_ok bm \<longleftrightarrow> 0 < bytes_per_pixel bm \<and> 0 < pixels_per_line bm \<and> bm_width bm < 2 ^ 30 \<and>
     bm_height bm * pixels_per_line bm * bytes_per_pixel bm < 2 ^ 62 \<and> bm_height bm < 2 ^ 30 \<and>
     (\<forall>p. visible bm p \<longrightarrow> fb bm (offset bm p) \<noteq> None)"

definition paint :: "u32 \<Rightarrow> (int \<times> int) set \<Rightarrow> bitmap \<Rightarrow> bitmap" where
  "paint color P bm = bm\<lparr>fb := (\<lambda>i. if i \<in> offset bm ` P then Some color else fb bm i)\<rparr>"

lemma paint_simps [simp]:
  "is_in_x_range (paint c P bm) = is_in_x_range bm" "is_in_y_range (paint c P bm) = is_in_y_range bm"
  "visible (paint c P bm) = visible bm" "offset (paint c P bm) = offset bm"
  "paint c {} bm = bm" "paint c P (paint c Q bm) = paint c (P \<union> Q) bm"
  by (cases bm; auto simp: paint_def is_in_x_range_def is_in_y_range_def visible_def offset_def fun_eq_iff)+

lemma bitmap_ok_paint: "bitmap_ok bm \<Longrightarrow> bitmap_ok (paint c P bm)"
  unfolding bitmap_ok_def paint_simps by (simp add: paint_def)

lemma visible_offset:
  assumes "bitmap_ok bm" "visible bm (x, y)"
  shows "0 \<le> y * pixels_per_line bm" "0 \<le> y * pixels_per_line bm + x" "0 \<le> offset bm (x, y)"
    and "y * pixels_per_line bm + x < 2 ^ 62" "y * pixels_per_line bm < 2 ^ 62" "offset bm (x, y) < 2 ^ 62"
proof -
  let ?p = "pixels_per_line bm" and ?b = "bytes_per_pixel bm"
  have v: "0 \<le> x" "x < ?p" "0 \<le> y" "y < bm_height bm" "0 < ?p" "0 < ?b"
    using assms by (auto simp: bitmap_ok_def visible_def is_in_x_range_def is_in_y_range_def)
  show 1: "0 \<le> y * ?p" "0 \<le> y * ?p + x" using v by simp_all
  then show "0 \<le> offset bm (x, y)" using v by (simp add: offset_def)
  have "(y + 1) * ?p \<le> bm_height bm * ?p" using v by (intro mult_right_mono) simp_all
  then have lt: "y * ?p + x < bm_height bm * ?p" using v by (simp add: algebra_simps)
  then have "(y * ?p + x) * ?b < bm_height bm * ?p * ?b" using v by (intro mult_strict_right_mono) simp_all
  then show o: "offset bm (x, y) < 2 ^ 62" 
    using assms(1) unfolding bitmap_ok_def offset_def fst_conv snd_conv by linarith
  have "y * ?p + x \<le> (y * ?p + x) * ?b" 
    using mult_left_mono [of 1 ?b "y * ?p + x"] 1(2) v by simp
  then show 2: "y * ?p + x < 2 ^ 62" using o by (simp add: offset_def)
  then show "y * ?p < 2 ^ 62" using v(1) by linarith
qed

lemma unchecked_draw_point_eq:
  assumes "bitmap_ok bm" "visible bm (x, y)"
  shows "unchecked_draw_point color bm x y = Ok (paint color {(x, y)} bm)"
proof -
  note v = visible_offset [OF assms]
  have "unchecked_pixel_at bm x y = Ok (offset bm (x, y))"
    using v by (simp add: unchecked_pixel_at_def chk_i64_def offset_def)
  moreover have "fb bm (offset bm (x, y)) \<noteq> None" using assms by (auto simp: bitmap_ok_def)
  ultimately show ?thesis
    by (auto simp: unchecked_draw_point_def paint_def fun_eq_iff intro!: arg_cong [where f = "\<lambda>f. bm\<lparr>fb := f\<rparr>"])
qed

lemma draw_point_eq:
  assumes "bitmap_ok bm"
  shows "draw_point color bm x y = (if visible bm (x, y) then Ok (paint color {(x, y)} bm) else Err ''Out of Range'')"
  using unchecked_draw_point_eq [OF assms] by (simp add: draw_point_def visible_def)

text \<open>Drawing a list of points paints their set.\<close>

lemma fold_paint:
  assumes "bitmap_ok bm" "\<And>p bm. p \<in> set ps \<Longrightarrow> bitmap_ok bm \<Longrightarrow> visible bm = V \<Longrightarrow> f bm p = Ok (paint c (S p) bm)"
    and "visible bm = V"
  shows "fold_res f bm ps = Ok (paint c (\<Union>p \<in> set ps. S p) bm)"
  using assms
proof (induction ps arbitrary: bm)
  case (Cons p ps)
  have "f bm p = Ok (paint c (S p) bm)" using Cons.prems by simp
  moreover have "fold_res f (paint c (S p) bm) ps = Ok (paint c (\<Union>p \<in> set ps. S p) (paint c (S p) bm))"
    using Cons.prems by (intro Cons.IH) (simp_all add: bitmap_ok_paint)
  ultimately show ?case by (simp add: Un_commute)
qed simp

lemma chk_i64_Ok: "\<bar>x\<bar> < 2 ^ 63 \<Longrightarrow> chk_i64 x = Ok x"
  by (simp add: chk_i64_def abs_less_iff)

lemma in_range_bounds:
  assumes "bitmap_ok bm"
  shows "is_in_x_range bm x \<Longrightarrow> 0 \<le> x \<and> x < 2 ^ 30" "is_in_y_range bm y \<Longrightarrow> 0 \<le> y \<and> y < 2 ^ 30"
  using assms by (auto simp: bitmap_ok_def is_in_x_range_def is_in_y_range_def)

subsection \<open>Rectangles\<close>

lemma fill_rect_spec:
  assumes "bitmap_ok bm" "\<bar>w\<bar> < 2 ^ 62" "\<bar>h\<bar> < 2 ^ 62"
  shows "fill_rect color bm px py w h =
    (if is_in_x_range bm px \<and> is_in_y_range bm py \<and> is_in_x_range bm (px + w - 1) \<and> is_in_y_range bm (py + h - 1)
     then Ok (paint color ({px..<px + w} \<times> {py..<py + h}) bm) else Err ''Out of Range'')"
proof (cases "is_in_x_range bm px \<and> is_in_y_range bm py")
  case True
  note b = in_range_bounds(1) [OF assms(1), of px] in_range_bounds(2) [OF assms(1), of py]
  have chk: "chk_i64 (px + w) = Ok (px + w)" "chk_i64 (px + w - 1) = Ok (px + w - 1)"
      "chk_i64 (py + h) = Ok (py + h)" "chk_i64 (py + h - 1) = Ok (py + h - 1)"
    using b True assms(2,3) by (intro chk_i64_Ok; simp add: abs_less_iff; linarith)+
  have ok: "rect_in_range bm px py w h = Ok (is_in_x_range bm (px + w - 1) \<and> is_in_y_range bm (py + h - 1))"
    using True by (simp add: rect_in_range_def chk)
  show ?thesis
  proof (cases "is_in_x_range bm (px + w - 1) \<and> is_in_y_range bm (py + h - 1)")
    case in_range: True
    have v: "visible bm (x, y)" if "x \<in> set [px..px + w - 1]" "y \<in> set [py..py + h - 1]" for x y
      using that True in_range by (auto simp: visible_def is_in_x_range_def is_in_y_range_def)
    have row: "fold_res (\<lambda>bm x. unchecked_draw_point color bm x y) bm' [px..px + w - 1] =
        Ok (paint color (\<Union>x \<in> set [px..px + w - 1]. {(x, y)}) bm')"
      if "y \<in> set [py..py + h - 1]" "bitmap_ok bm'" "visible bm' = visible bm" for y bm'
      by (rule fold_paint [where V = "visible bm"]) (use that v unchecked_draw_point_eq in simp_all)
    have "fold_res (\<lambda>bm y. fold_res (\<lambda>bm x. unchecked_draw_point color bm x y) bm [px..px + w - 1]) bm [py..py + h - 1] =
        Ok (paint color (\<Union>y \<in> set [py..py + h - 1]. \<Union>x \<in> set [px..px + w - 1]. {(x, y)}) bm)"
      by (rule fold_paint [where V = "visible bm"]) (use assms(1) row in simp_all)
    moreover have "(\<Union>y \<in> set [py..py + h - 1]. \<Union>x \<in> set [px..px + w - 1]. {(x, y)}) = {px..<px + w} \<times> {py..<py + h}"
      by auto
    ultimately show ?thesis using True in_range by (simp add: fill_rect_def ok)
  qed (use True in \<open>simp add: fill_rect_def ok\<close>)
qed (auto simp: fill_rect_def rect_in_range_def)

subsection \<open>Lines\<close>

definition slope :: "int \<Rightarrow> int \<Rightarrow> int \<Rightarrow> int" where
  "slope da db ia = (if da = 0 then 0 else (2 * db * ia + da) div da div 2)"

lemma slope_bounds:
  assumes "0 \<le> db" "db \<le> da" "0 \<le> ia" "ia \<le> da"
  shows "0 \<le> slope da db ia" "slope da db ia \<le> db" "\<bar>2 * (slope da db ia * da - db * ia)\<bar> \<le> da"
proof -
  show "0 \<le> slope da db ia" using assms by (simp add: slope_def pos_imp_zdiv_nonneg_iff)
  have "slope da db ia \<le> db \<and> \<bar>2 * (slope da db ia * da - db * ia)\<bar> \<le> da"
  proof (cases "da = 0")
    case False
    then have da: "0 < da" using assms by simp
    let ?n = "2 * db * ia + da"
    let ?q = "?n div (2 * da)"
    have s: "slope da db ia = ?q" using da by (simp add: slope_def zdiv_zmult2_eq mult.commute [of 2])
    have q: "?q * (2 * da) \<le> ?n" "?n < (?q + 1) * (2 * da)"
      using div_mult_mod_eq [of ?n "2 * da"] pos_mod_bound [of "2 * da" ?n] pos_mod_sign [of "2 * da" ?n] da
      by (simp_all add: algebra_simps del: pos_mod_bound pos_mod_sign)
    have "\<bar>2 * (?q * da - db * ia)\<bar> \<le> da" using q by (simp add: abs_le_iff algebra_simps)
    moreover have "?q \<le> db"
    proof -
      have "db * ia \<le> db * da" using assms by (intro mult_left_mono) simp_all
      then have "?n < (db + 1) * (2 * da)" using da by (simp add: algebra_simps)
      then have "?q * (2 * da) < (db + 1) * (2 * da)" using q(1) by linarith
      then have "?q < db + 1" using da by (simp only: mult_less_cancel_right)
      then show ?thesis by simp
    qed
    ultimately show ?thesis by (simp add: s)
  qed (use assms in \<open>simp add: slope_def\<close>)
  then show "slope da db ia \<le> db" "\<bar>2 * (slope da db ia * da - db * ia)\<bar> \<le> da" by simp_all
qed

lemma calc_slope_point_eq:
  assumes "0 \<le> db" "db \<le> da" "da < 2 ^ 30" "0 \<le> ia" "ia \<le> da"
  shows "calc_slope_point da db ia = Ok (Some (slope da db ia))"
proof -
  have "db * ia \<le> 2 ^ 30 * 2 ^ 30" using assms by (intro mult_mono) simp_all
  moreover have "0 \<le> db * ia" using assms by simp
  ultimately have "chk_i64 (2 * db) = Ok (2 * db)" "chk_i64 (2 * db * ia) = Ok (2 * db * ia)"
      "chk_i64 (2 * db * ia + da) = Ok (2 * db * ia + da)"
    using assms by (intro chk_i64_Ok; simp add: abs_less_iff algebra_simps)+
  then show ?thesis using assms by (simp add: calc_slope_point_def slope_def)
qed

lemma draw_slope_spec:
  assumes "bitmap_ok bm" "0 \<le> db" "db \<le> da" "da < 2 ^ 30"
    and "\<And>a b. 0 \<le> a \<Longrightarrow> a < da \<Longrightarrow> 0 \<le> b \<Longrightarrow> b \<le> db \<Longrightarrow> visible bm (at a b)"
  shows "draw_slope color da db at bm = Ok (paint color ((\<lambda>a. at a (slope da db a)) ` {0..<da}) bm)"
proof -
  have "draw_slope color da db at bm = Ok (paint color (\<Union>a \<in> set [0..da - 1]. {at a (slope da db a)}) bm)"
    unfolding draw_slope_def
  proof (rule fold_paint [where V = "visible bm"])
    fix a bm' assume a: "a \<in> set [0..da - 1]" and bm': "bitmap_ok bm'" "visible bm' = visible bm"
    then have "visible bm' (at a (slope da db a))"
      using assms(5) slope_bounds [of db da a] assms(2,3) by simp
    then show "and_then (calc_slope_point da db a) (\<lambda>r. case r of None \<Rightarrow> Ok bm'
          | Some b \<Rightarrow> draw_point color bm' (fst (at a b)) (snd (at a b))) = Ok (paint color {at a (slope da db a)} bm')"
      using a assms(2-4) calc_slope_point_eq [of db da a] draw_point_eq [OF bm'(1)] by simp
  qed (use assms(1) in simp_all)
  moreover have "(\<Union>a \<in> set [0..da - 1]. {at a (slope da db a)}) = (\<lambda>a. at a (slope da db a)) ` {0..<da}" by auto
  ultimately show ?thesis by simp
qed

text \<open>The pixels of a line: one per step of the longer axis, without the end point.\<close>

definition line_pixels :: "int \<Rightarrow> int \<Rightarrow> int \<Rightarrow> int \<Rightarrow> (int \<times> int) set" where
  "line_pixels x0 y0 x1 y1 =
     (let dx = \<bar>x1 - x0\<bar>; sx = sgn (x1 - x0); dy = \<bar>y1 - y0\<bar>; sy = sgn (y1 - y0) in
      if dx \<ge> dy then (\<lambda>a. (x0 + a * sx, y0 + slope dx dy a * sy)) ` {0..<dx}
      else (\<lambda>a. (x0 + slope dy dx a * sx, y0 + a * sy)) ` {0..<dy})"

lemma between_range:
  assumes "0 \<le> a" "a \<le> \<bar>z1 - z0\<bar>"
  shows "min z0 z1 \<le> z0 + a * sgn (z1 - z0) \<and> z0 + a * sgn (z1 - z0) \<le> max z0 (z1 :: int)"
  using assms by (auto simp: sgn_if)

lemma draw_line_spec:
  assumes "bitmap_ok bm"
  shows "draw_line color bm x0 y0 x1 y1 =
    (if visible bm (x0, y0) \<and> visible bm (x1, y1) then Ok (paint color (line_pixels x0 y0 x1 y1) bm)
     else Err ''Out of Range'')"
proof (cases "visible bm (x0, y0) \<and> visible bm (x1, y1)")
  case True
  have r: "is_in_x_range bm x0" "is_in_x_range bm x1" "is_in_y_range bm y0" "is_in_y_range bm y1"
    using True by (simp_all add: visible_def)
  have vis: "visible bm (x0 + a * sgn (x1 - x0), y0 + b * sgn (y1 - y0))"
    if "0 \<le> a" "a \<le> \<bar>x1 - x0\<bar>" "0 \<le> b" "b \<le> \<bar>y1 - y0\<bar>" for a b
    using between_range [OF that(1,2)] between_range [OF that(3,4)] r
    by (auto simp: visible_def is_in_x_range_def is_in_y_range_def)
  have lt: "\<bar>x1 - x0\<bar> < 2 ^ 30" "\<bar>y1 - y0\<bar> < 2 ^ 30"
    using in_range_bounds(1) [OF assms, of x0] in_range_bounds(1) [OF assms, of x1]
      in_range_bounds(2) [OF assms, of y0] in_range_bounds(2) [OF assms, of y1] r by linarith+
  show ?thesis
    using r True lt vis draw_slope_spec [OF assms, of "\<bar>y1 - y0\<bar>" "\<bar>x1 - x0\<bar>" "\<lambda>rx ry. (x0 + rx * sgn (x1 - x0), y0 + ry * sgn (y1 - y0))" color]
      draw_slope_spec [OF assms, of "\<bar>x1 - x0\<bar>" "\<bar>y1 - y0\<bar>" "\<lambda>ry rx. (x0 + rx * sgn (x1 - x0), y0 + ry * sgn (y1 - y0))" color]
    by (simp add: draw_line_def line_pixels_def Let_def)
qed (auto simp: draw_line_def visible_def)

lemma line_pixels_near:
  "\<forall>(x, y) \<in> line_pixels x0 y0 x1 y1.
     2 * \<bar>(y - y0) * (x1 - x0) - (x - x0) * (y1 - y0)\<bar> \<le> max \<bar>x1 - x0\<bar> \<bar>y1 - y0\<bar>"
proof -
  have sx: "x1 - x0 = sgn (x1 - x0) * \<bar>x1 - x0\<bar>" and sy: "y1 - y0 = sgn (y1 - y0) * \<bar>y1 - y0\<bar>"
    by (simp_all add: sgn_mult_abs)
  have key: "2 * \<bar>b * t * (s * da) - a * s * (t * db)\<bar> \<le> da"
    if "\<bar>2 * (b * da - db * a)\<bar> \<le> da" "\<bar>s\<bar> \<le> 1" "\<bar>t\<bar> \<le> 1" for a b da db s t :: int
  proof -
    have "b * t * (s * da) - a * s * (t * db) = (s * t) * (b * da - db * a)" by (simp add: algebra_simps)
    then have "\<bar>b * t * (s * da) - a * s * (t * db)\<bar> = \<bar>s\<bar> * \<bar>t\<bar> * \<bar>b * da - db * a\<bar>" by (simp add: abs_mult)
    also have "\<dots> \<le> 1 * 1 * \<bar>b * da - db * a\<bar>" using that(2,3) by (intro mult_right_mono mult_mono) simp_all
    finally have "\<bar>b * t * (s * da) - a * s * (t * db)\<bar> \<le> \<bar>b * da - db * a\<bar>" by simp
    then have "2 * \<bar>b * t * (s * da) - a * s * (t * db)\<bar> \<le> 2 * \<bar>b * da - db * a\<bar>" by (rule mult_left_mono) simp
    then show ?thesis using that(1) by (simp only: abs_mult)
  qed
  have s1: "\<bar>sgn z\<bar> \<le> 1" for z :: int by (simp add: abs_sgn_eq)
  define dx dy where d: "dx = \<bar>x1 - x0\<bar>" "dy = \<bar>y1 - y0\<bar>"
  define u v where uv: "u = sgn (x1 - x0)" "v = sgn (y1 - y0)"
  have e: "x1 - x0 = u * dx" "y1 - y0 = v * dy" using sx sy by (simp_all only: d uv)
  have 1: "2 * \<bar>slope dx dy a * v * (u * dx) - a * u * (v * dy)\<bar> \<le> max dx dy" if "dy \<le> dx" "0 \<le> a" "a < dx" for a
  proof -
    have "0 \<le> dy" by (simp add: d)
    then have "\<bar>2 * (slope dx dy a * dx - dy * a)\<bar> \<le> dx" using slope_bounds(3) [of dy dx a] that by simp
    then have "2 * \<bar>slope dx dy a * v * (u * dx) - a * u * (v * dy)\<bar> \<le> dx" using s1 by (intro key) (simp_all add: uv)
    then show ?thesis by simp
  qed
  have 2: "2 * \<bar>a * v * (u * dx) - slope dy dx a * u * (v * dy)\<bar> \<le> max dx dy" if "dx < dy" "0 \<le> a" "a < dy" for a
  proof -
    have "0 \<le> dx" by (simp add: d)
    then have "\<bar>2 * (slope dy dx a * dy - dx * a)\<bar> \<le> dy" using slope_bounds(3) [of dx dy a] that by simp
    then have "2 * \<bar>slope dy dx a * u * (v * dy) - a * v * (u * dx)\<bar> \<le> dy" using s1 by (intro key) (simp_all add: uv)
    then show ?thesis by (simp add: abs_minus_commute)
  qed
  show ?thesis
    unfolding line_pixels_def Let_def d [symmetric] uv [symmetric] unfolding e using 1 2 by auto
qed

lemma line_pixels_end: "(x1, y1) \<notin> line_pixels x0 y0 x1 y1"
proof -
  have ne: "x0 + a * sgn (x1 - x0) \<noteq> x1" if "0 \<le> a" "a < \<bar>x1 - x0\<bar>" for a x0 x1 :: int
    using that by (auto simp: sgn_if split: if_splits)
  show ?thesis
  proof
    assume "(x1, y1) \<in> line_pixels x0 y0 x1 y1"
    then obtain a where "0 \<le> a" "a < \<bar>x1 - x0\<bar> \<and> x1 = x0 + a * sgn (x1 - x0) \<or> a < \<bar>y1 - y0\<bar> \<and> y1 = y0 + a * sgn (y1 - y0)"
      unfolding line_pixels_def Let_def by (fastforce split: if_splits)
    then show False using ne [of a x1 x0] ne [of a y1 y0] by metis
  qed
qed

subsection \<open>Text\<close>

definition font_of :: "string \<Rightarrow> glyph list res" where
  "font_of source = load_font (split_lines source) (replicate 256 blank_glyph)"

definition glyph_ok :: "glyph \<Rightarrow> bool" where
  "glyph_ok g \<longleftrightarrow> length g = 16 \<and> (\<forall>row \<in> set g. length row = 8)"

lemma glyph_ok_blank: "glyph_ok blank_glyph"
  by (simp add: glyph_ok_def blank_glyph_def)

lemma glyph_ok_read: "glyph_ok (read_glyph ls)"
proof -
  have "length (glyph_row l) = 8" for l by (simp add: glyph_row_def)
  then show ?thesis
    by (auto simp: glyph_ok_def read_glyph_def blank_glyph_def dest!: in_set_dropD)
qed

lemma load_font_inv:
  assumes "load_font ls font = Ok font'" "length font = 256" "\<forall>g \<in> set font. glyph_ok g"
    and "\<forall>n \<ge> 128. n < 256 \<longrightarrow> font ! n = blank_glyph"
  shows "length font' = 256 \<and> (\<forall>g \<in> set font'. glyph_ok g) \<and> (\<forall>n \<ge> 128. n < 256 \<longrightarrow> font' ! n = blank_glyph)"
  using assms
proof (induction ls arbitrary: font)
  case (Cons l ls)
  show ?case
  proof (cases "take 2 l = ''0x'' \<and> i8_from_hex (drop 2 l) \<noteq> None")
    case True
    then obtain i where i: "take 2 l = ''0x''" "i8_from_hex (drop 2 l) = Some i" by blast
    then have "0 \<le> i" using Cons.prems(1) by (auto split: if_splits)
    moreover have "i \<le> 127" using i(2) by (auto simp: i8_from_hex_def Let_def split: if_splits option.splits list.splits)
    ultimately have idx: "load_font ls (font[nat i := read_glyph ls]) = Ok font'" "nat i < 128"
      using Cons.prems(1) i by auto
    have "\<forall>g \<in> set (font[nat i := read_glyph ls]). glyph_ok g"
      using Cons.prems(3) glyph_ok_read set_update_subset_insert [of font "nat i" "read_glyph ls"] by blast
    then show ?thesis using Cons.IH [OF idx(1)] Cons.prems(2,4) idx(2) by simp
  next
    case False
    then have "load_font ls font = Ok font'" using Cons.prems(1) by (auto split: option.splits if_splits)
    then show ?thesis using Cons by blast
  qed
qed simp

lemma font_of_ok:
  assumes "font_of source = Ok font"
  shows "length font = 256" "n < 256 \<Longrightarrow> glyph_ok (font ! n)" "128 \<le> n \<Longrightarrow> n < 256 \<Longrightarrow> font ! n = blank_glyph"
  using load_font_inv [OF assms [unfolded font_of_def]] glyph_ok_blank by auto

lemma glyph_pixels_bound:
  assumes "glyph_ok g" "(dx, dy) \<in> set (glyph_pixels g)"
  shows "0 \<le> dx" "dx < 8" "0 \<le> dy" "dy < 16"
proof -
  from assms(2) obtain row p where z: "(dy, row) \<in> set (zip [0..int (length g) - 1] g)"
      "(dx, p) \<in> set (zip [0..int (length row) - 1] row)"
    by (auto simp: glyph_pixels_def split: if_splits)
  then have "row \<in> set g" "dy \<in> set [0..int (length g) - 1]" "dx \<in> set [0..int (length row) - 1]"
    by (auto dest: set_zip_leftD set_zip_rightD)
  then show "0 \<le> dx" "dx < 8" "0 \<le> dy" "dy < 16" using assms(1) by (auto simp: glyph_ok_def)
qed

text \<open>The visible pixels of a glyph at a position.\<close>

definition glyph_at :: "bitmap \<Rightarrow> glyph \<Rightarrow> int \<Rightarrow> int \<Rightarrow> (int \<times> int) set" where
  "glyph_at bm g x y = {p. visible bm p} \<inter> (\<lambda>(dx, dy). (x + dx, y + dy)) ` set (glyph_pixels g)"

lemma draw_font_fg_spec:
  assumes "bitmap_ok bm" "font_of source = Ok font" "\<bar>x\<bar> < 2 ^ 62" "\<bar>y\<bar> < 2 ^ 62"
  shows "draw_font_fg source bm x y color c =
    Ok (if c < 256 then paint color (glyph_at bm (font ! c) x y) bm else bm)"
proof (cases "c < 256")
  case True
  let ?ps = "glyph_pixels (font ! c)"
  let ?S = "\<lambda>p. {q. visible bm q} \<inter> {(x + fst p, y + snd p)}"
  have look: "lookup_font source c = Ok (Some (font ! c))"
    using True assms(2) by (simp add: lookup_font_def font_of_def)
  have step: "and_then (chk_i64 (x + fst p)) (\<lambda>px. and_then (chk_i64 (y + snd p)) (\<lambda>py. try_draw_point color bm' px py)) =
      Ok (paint color (?S p) bm')" if "p \<in> set ?ps" "bitmap_ok bm'" "visible bm' = visible bm" for p bm'
  proof -
    obtain dx dy where p: "p = (dx, dy)" by (cases p)
    have "0 \<le> dx" "dx < 8" "0 \<le> dy" "dy < 16"
      using glyph_pixels_bound [OF font_of_ok(2) [OF assms(2) True]] that(1) p by auto
    then have "chk_i64 (x + dx) = Ok (x + dx)" "chk_i64 (y + dy) = Ok (y + dy)"
      using assms(3,4) by (intro chk_i64_Ok; simp add: abs_less_iff; linarith)+
    then show ?thesis using that(2,3) by (simp add: p try_draw_point_def draw_point_eq)
  qed
  have "fold_res (\<lambda>bm (dx, dy). and_then (chk_i64 (x + dx)) (\<lambda>px. and_then (chk_i64 (y + dy)) (\<lambda>py.
           try_draw_point color bm px py))) bm ?ps = Ok (paint color (\<Union>p \<in> set ?ps. ?S p) bm)"
    by (rule fold_paint [where V = "visible bm"]) (use assms(1) step in \<open>simp_all add: case_prod_beta\<close>)
  moreover have "(\<Union>p \<in> set ?ps. ?S p) = glyph_at bm (font ! c) x y" by (auto simp: glyph_at_def)
  ultimately show ?thesis using True by (simp add: draw_font_fg_def look)
next
  case False
  then show ?thesis by (simp add: draw_font_fg_def lookup_font_def)
qed

lemma write_str_spec:
  assumes "bitmap_ok (tw_buf w)" "font_of source = Ok font"
    and "0 \<le> cursor_x w" "0 \<le> cursor_y w" "cursor_x w + 16 * int (length s) < 2 ^ 62" "cursor_y w + 16 * int (length s) < 2 ^ 62"
  shows "\<exists>w' P. write_str source w s = Ok w' \<and> tw_buf w' = paint 0xffffff P (tw_buf w) \<and> P \<subseteq> {p. visible (tw_buf w) p} \<and>
    0 \<le> cursor_x w' \<and> cursor_x w' \<le> cursor_x w + 8 * int (length s) \<and>
    cursor_y w' = cursor_y w + 16 * int (length (filter (\<lambda>c. c = 10) s))"
  using assms
proof (induction s arbitrary: w)
  case Nil
  then show ?case by (intro exI [of _ w] exI [of _ "{}"]) (simp add: write_str_def)
next
  case (Cons c s)
  obtain w1 P1 where w1: "write_char source w c = Ok w1" "tw_buf w1 = paint 0xffffff P1 (tw_buf w)"
      "P1 \<subseteq> {p. visible (tw_buf w) p}" "0 \<le> cursor_x w1" "cursor_x w1 \<le> cursor_x w + 8"
      "cursor_y w1 = cursor_y w + (if c = 10 then 16 else 0)"
  proof (cases "c = 10")
    case True
    have "chk_i64 (cursor_y w + 16) = Ok (cursor_y w + 16)" using Cons.prems by (intro chk_i64_Ok) simp
    then have "write_char source w c = Ok (w\<lparr>cursor_y := cursor_y w + 16, cursor_x := 0\<rparr>)"
      using True by (simp add: write_char_def)
    then show ?thesis using that [of "w\<lparr>cursor_y := cursor_y w + 16, cursor_x := 0\<rparr>" "{}"] True Cons.prems by simp
  next
    case False
    let ?P = "if c < 256 then glyph_at (tw_buf w) (font ! c) (cursor_x w) (cursor_y w) else {}"
    have "\<bar>cursor_x w\<bar> < 2 ^ 62" "\<bar>cursor_y w\<bar> < 2 ^ 62" using Cons.prems by simp_all
    then have d: "draw_font_fg source (tw_buf w) (cursor_x w) (cursor_y w) 0xffffff c = Ok (paint 0xffffff ?P (tw_buf w))"
      using draw_font_fg_spec [OF Cons.prems(1,2)] by simp
    have "chk_i64 (cursor_x w + 8) = Ok (cursor_x w + 8)" using Cons.prems by (intro chk_i64_Ok) simp
    then have "write_char source w c = Ok (w\<lparr>tw_buf := paint 0xffffff ?P (tw_buf w), cursor_x := cursor_x w + 8\<rparr>)"
      using False d by (simp add: write_char_def)
    then show ?thesis
      using that [of "w\<lparr>tw_buf := paint 0xffffff ?P (tw_buf w), cursor_x := cursor_x w + 8\<rparr>" ?P] False Cons.prems
      by (simp add: glyph_at_def)
  qed
  have "\<exists>w' P. write_str source w1 s = Ok w' \<and> tw_buf w' = paint 0xffffff P (tw_buf w1) \<and> P \<subseteq> {p. visible (tw_buf w1) p} \<and>
      0 \<le> cursor_x w' \<and> cursor_x w' \<le> cursor_x w1 + 8 * int (length s) \<and>
      cursor_y w' = cursor_y w1 + 16 * int (length (filter (\<lambda>c. c = 10) s))"
    using Cons.prems w1 by (intro Cons.IH) (auto simp: bitmap_ok_paint)
  then obtain w' P where w': "write_str source w1 s = Ok w'" "tw_buf w' = paint 0xffffff P (tw_buf w1)"
      "P \<subseteq> {p. visible (tw_buf w1) p}" "0 \<le> cursor_x w'" "cursor_x w' \<le> cursor_x w1 + 8 * int (length s)"
      "cursor_y w' = cursor_y w1 + 16 * int (length (filter (\<lambda>c. c = 10) s))" by blast
  then show ?case using w1 by (intro exI [of _ w'] exI [of _ "P \<union> P1"]) (auto simp: write_str_def)
qed

end
