(* ===== verification/Boot.thy ===== *)
theory Boot
  imports Paging Uefi_Memory Pci Hpet Graphics
begin

text \<open>
  Booting: the firmware services that \<^verbatim>\<open>uefi.rs\<close> calls, and the initialisation steps of \<^verbatim>\<open>init.rs\<close>, which
  compose the memory map, the allocator, the page tables, the timer, the display and PCI. The firmware
  is a parameter: functions on a state of any type.
\<close>

section \<open>Firmware\<close>

text \<open>
  A status other than success is kept as a value; in Rust \<^verbatim>\<open>EfiStatus\<close> has only one variant, so that
  already receiving another status is undefined.
\<close>

datatype EfiStatus = Success | OtherStatus nat

record EfiGuid =
  data0 :: u32
  data1 :: u16
  data2 :: u16
  data3 :: "u8 list"

definition EFI_ACPI_TABLE_GUID :: EfiGuid where
  "EFI_ACPI_TABLE_GUID = \<lparr>data0 = 0x8868e871, data1 = 0xe4f1, data2 = 0x11d3,
     data3 = [0xbc, 0x22, 0x00, 0x80, 0xc7, 0x3c, 0x88, 0x81]\<rparr>"

definition EFI_GRAPHICS_OUTPUT_PROTOCOL_GUID :: EfiGuid where
  "EFI_GRAPHICS_OUTPUT_PROTOCOL_GUID = \<lparr>data0 = 0x9042a9de, data1 = 0x23dc, data2 = 0x4a38,
     data3 = [0x96, 0xfb, 0x7a, 0xde, 0xd0, 0x80, 0x51, 0x6a]\<rparr>"

definition EFI_LOADED_IMAGE_PROTOCOL_GUID :: EfiGuid where
  "EFI_LOADED_IMAGE_PROTOCOL_GUID = \<lparr>data0 = 0x5B1B31A1, data1 = 0x9562, data2 = 0x11d2,
     data3 = [0x8E, 0x3F, 0x00, 0xA0, 0xC9, 0x69, 0x72, 0x3B]\<rparr>"

record EfiConfigurationTable =
  vendor_guid :: EfiGuid
  vendor_table :: usize

record EfiGraphicsOutputProtocol =
  horizontal_resolution :: u32
  vertical_resolution :: u32
  pixels_per_scan_line :: u32
  frame_buffer_base :: usize

record EfiLoadedImageProtocol =
  image_base :: u64
  image_size :: u64

record 'fw EfiBootServicesTable =
  get_memory_map_service :: "MemoryMapHolder \<Rightarrow> 'fw \<Rightarrow> EfiStatus \<times> MemoryMapHolder \<times> 'fw"
  exit_boot_services :: "u64 \<Rightarrow> usize \<Rightarrow> 'fw \<Rightarrow> EfiStatus \<times> 'fw"
  locate_protocol :: "EfiGuid \<Rightarrow> 'fw \<Rightarrow> EfiStatus \<times> EfiGraphicsOutputProtocol \<times> 'fw"
  handle_protocol :: "u64 \<Rightarrow> EfiGuid \<Rightarrow> 'fw \<Rightarrow> EfiStatus \<times> EfiLoadedImageProtocol \<times> 'fw"

fun lookup_config_table :: "EfiConfigurationTable list \<Rightarrow> EfiGuid \<Rightarrow> EfiConfigurationTable option" where
  "lookup_config_table [] guid = None"
| "lookup_config_table (ct # cts) guid = (if vendor_guid ct = guid then Some ct else lookup_config_table cts guid)"

definition acpi_table :: "EfiConfigurationTable list \<Rightarrow> usize option" where
  "acpi_table cts = map_option vendor_table (lookup_config_table cts EFI_ACPI_TABLE_GUID)"

definition locate_graphic_protocol :: "'fw EfiBootServicesTable \<Rightarrow> 'fw \<Rightarrow> (EfiGraphicsOutputProtocol \<times> 'fw) res" where
  "locate_graphic_protocol bs fw =
     (case locate_protocol bs EFI_GRAPHICS_OUTPUT_PROTOCOL_GUID fw of (status, gp, fw') \<Rightarrow>
      if status \<noteq> Success then Err ''Failed to locate graphics output protocol'' else Ok (gp, fw'))"

definition locate_loaded_image_protocol ::
  "u64 \<Rightarrow> 'fw EfiBootServicesTable \<Rightarrow> 'fw \<Rightarrow> (EfiLoadedImageProtocol \<times> 'fw) res" where
  "locate_loaded_image_protocol image_handle bs fw =
     (case handle_protocol bs image_handle EFI_LOADED_IMAGE_PROTOCOL_GUID fw of (status, lp, fw') \<Rightarrow>
      if status \<noteq> Success then Err ''Failed to locate loaded image protocol'' else Ok (lp, fw'))"

text \<open>
  \<^verbatim>\<open>VramBufferInfo\<close> is a bitmap with four bytes per pixel; \<open>pixels_at\<close> is the memory at the frame buffer.
\<close>

definition init_vram :: "'fw EfiBootServicesTable \<Rightarrow> (usize \<Rightarrow> int \<Rightarrow> u32 option) \<Rightarrow> 'fw \<Rightarrow> (bitmap \<times> 'fw) res" where
  "init_vram bs pixels_at fw =
     and_then (locate_graphic_protocol bs fw) (\<lambda>(gp, fw').
     Ok (\<lparr>bytes_per_pixel = 4, pixels_per_line = uint (pixels_per_scan_line gp),
          bm_width = uint (horizontal_resolution gp), bm_height = uint (vertical_resolution gp),
          fb = pixels_at (frame_buffer_base gp)\<rparr>, fw'))"

text \<open>The loop hands the same holder to the firmware again: \<open>memory_map_size\<close> is not reset.\<close>

partial_function (option) exit_from_efi_boot_services ::
  "u64 \<Rightarrow> 'fw EfiBootServicesTable \<Rightarrow> MemoryMapHolder \<Rightarrow> 'fw \<Rightarrow> (MemoryMapHolder \<times> 'fw) res option" where
  "exit_from_efi_boot_services image_handle bs mm fw =
     (case get_memory_map_service bs mm fw of (status, mm', fw1) \<Rightarrow>
      if status \<noteq> Success then Some (Panic ''assertion `left == right` failed'')
      else (case exit_boot_services bs image_handle (map_key mm') fw1 of (status2, fw2) \<Rightarrow>
        if status2 = Success then Some (Ok (mm', fw2))
        else exit_from_efi_boot_services image_handle bs mm' fw2))"

section \<open>Initialisation\<close>

definition init_basic_runtime ::
  "u64 \<Rightarrow> 'fw EfiBootServicesTable \<Rightarrow> 'fw \<Rightarrow> (MemoryMapHolder \<times> heap_state \<times> 'fw) res option" where
  "init_basic_runtime image_handle bs fw =
     and_then_opt (exit_from_efi_boot_services image_handle bs MemoryMapHolder_new fw) (\<lambda>(mm, fw').
     and_then_opt (init_with_mmap ALLOCATOR mm) (\<lambda>s. Some (Ok (mm, s, fw'))))"

definition end_of_mem_step :: "nat \<Rightarrow> EfiMemoryDescriptor \<Rightarrow> nat res" where
  "end_of_mem_step end_of_mem e =
     (if memory_type e \<in> {CONVENTIONAL_MEMORY, LOADER_CODE, LOADER_DATA}
      then and_then (mul64 (number_of_pages e) PAGE_SIZE) (\<lambda>sz.
           and_then (add64 (physical_start e) sz) (\<lambda>last. Ok (max end_of_mem last)))
      else Ok end_of_mem)"

text \<open>The result is the table that is written to \<^verbatim>\<open>CR3\<close>.\<close>

definition init_paging :: "'s page_box \<Rightarrow> MemoryMapHolder \<Rightarrow> 's vm \<Rightarrow> (usize \<times> 's vm) res option" where
  "init_paging box_page memory_map vm =
     and_then_opt (PML4_new box_page vm) (\<lambda>(table, vm1).
     and_then_opt (for_mmap memory_map end_of_mem_step 0x100000000 0) (\<lambda>end_of_mem.
     and_then_opt (map_option (\<lambda>r. expect r ''Failed to create initial page mapping'')
       (create_mapping box_page vm1 table
         \<lparr>virt_start = 0, virt_end = end_of_mem, phys_base = 0, page_attr = ReadWriteKernel\<rparr>)) (\<lambda>vm2.
     and_then_opt (map_option (\<lambda>r. expect r ''Failed to unmap page 0'')
       (create_mapping box_page vm2 table
         \<lparr>virt_start = 0, virt_end = 4096, phys_base = 0, page_attr = NotPresent\<rparr>)) (\<lambda>vm3.
     Some (Ok (table, vm3))))))"

definition init_allocator :: "MemoryMapHolder \<Rightarrow> nat res option" where
  "init_allocator memory_map =
     and_then_opt (for_mmap memory_map (\<lambda>total e.
       if memory_type e \<noteq> CONVENTIONAL_MEMORY then Ok total else add64 total (number_of_pages e)) 0 0) (\<lambda>pages.
     Some (and_then (mul64 pages 4096) (\<lambda>x. Ok (x div 1024 div 1024))))"

definition init_hpet :: "'d bus \<Rightarrow> memory \<Rightarrow> usize \<Rightarrow> Hpet option \<Rightarrow> 'd \<Rightarrow> (Hpet option \<times> 'd) res option" where
  "init_hpet bus m rsdp g d =
     and_then_opt (hpet m rsdp) (\<lambda>t.
     and_then_opt (Some (expect_some t ''Failed to get HPET from ACPI'')) (\<lambda>p.
     and_then_opt (Some (expect (hpet_base_address m p) ''failed to get HPET base address'')) (\<lambda>base.
     and_then_opt (Some (Hpet_new bus (word_of_nat base) d)) (\<lambda>(h, d').
     Some (and_then (set_global_hpet h g) (\<lambda>g'. Ok (g', d')))))))"

definition init_display :: "string \<Rightarrow> bitmap \<Rightarrow> bitmap res" where
  "init_display source vram =
     and_then (expect (fill_rect 0x000000 vram 0 0 (bm_width vram) (bm_height vram)) ''fill_rect failed'')
       (draw_test_pattern source)"

text \<open>The loop that logs the ECAM entries reads each of them; its only effect is a possible fault.\<close>

definition init_pci ::
  "'d pci_bus \<Rightarrow> memory \<Rightarrow> usize \<Rightarrow> (BusDeviceFunction \<Rightarrow> 'd \<Rightarrow> (unit res \<times> 'd) option) \<Rightarrow> 'd \<Rightarrow> 'd res option" where
  "init_pci bus m rsdp attach d =
     and_then_opt (mcfg m rsdp) (\<lambda>t.
     case t of None \<Rightarrow> Some (Ok d)
     | Some p \<Rightarrow>
         and_then_opt (Some (mcfg_num_of_entries m p)) (\<lambda>n.
         and_then_opt (Some (fold_res (\<lambda>_ i. and_then (mcfg_entry m p i) (\<lambda>e. case e of None \<Rightarrow> Ok ()
            | Some a \<Rightarrow> and_then (mem_bytes m a 16) (\<lambda>_. Ok ()))) () [0..<n])) (\<lambda>_.
         and_then_opt (Some (Pci_new m p)) (\<lambda>pci. probe_devices bus pci attach d))))"

section \<open>Lemmas\<close>

text \<open>The end of memory that \<^verbatim>\<open>init_paging\<close> computes.\<close>

definition mapped_end :: "EfiMemoryDescriptor list \<Rightarrow> nat" where
  "mapped_end ds = foldl (\<lambda>m e. if memory_type e \<in> {CONVENTIONAL_MEMORY, LOADER_CODE, LOADER_DATA}
     then max m (physical_start e + number_of_pages e * 4096) else m) 0x100000000 ds"

lemma end_of_mem_fold:
  assumes "\<forall>e \<in> set ds. physical_start e + number_of_pages e * 4096 < 2 ^ 64"
  shows "fold_res end_of_mem_step m ds = Ok (foldl (\<lambda>m e.
    if memory_type e \<in> {CONVENTIONAL_MEMORY, LOADER_CODE, LOADER_DATA}
    then max m (physical_start e + number_of_pages e * 4096) else m) m ds)"
  using assms
proof (induction ds arbitrary: m)
  case (Cons e ds)
  have "number_of_pages e * 4096 < 2 ^ 64" using Cons.prems by auto
  then have "end_of_mem_step m e = Ok (if memory_type e \<in> {CONVENTIONAL_MEMORY, LOADER_CODE, LOADER_DATA}
      then max m (physical_start e + number_of_pages e * 4096) else m)"
    using Cons.prems by (simp add: end_of_mem_step_def mul_u_def add_u_def PAGE_SIZE_def)
  then show ?case using Cons by simp
qed simp

lemma mapped_end_ge: "0x100000000 \<le> mapped_end ds"
proof -
  have "m \<le> foldl (\<lambda>m e. if memory_type e \<in> {CONVENTIONAL_MEMORY, LOADER_CODE, LOADER_DATA}
     then max m (physical_start e + number_of_pages e * 4096) else m) m ds" for m
  proof (induction ds arbitrary: m)
    case (Cons e ds)
    have "m \<le> (if memory_type e \<in> {CONVENTIONAL_MEMORY, LOADER_CODE, LOADER_DATA}
        then max m (physical_start e + number_of_pages e * 4096) else m)" by simp
    then show ?case unfolding foldl.simps by (rule le_trans) (rule Cons.IH)
  qed simp
  then show ?thesis by (simp add: mapped_end_def)
qed

lemma PML4_new_fresh:
  assumes "owned_pages L (vheap vm) (dom (tables vm))"
  shows "PML4_new box_new_page vm = Some (Panic ''memory allocation failed'') \<and> \<not> page_budget box_new_page 1 (vheap vm) \<or>
    (\<exists>p vm'. PML4_new box_new_page vm = Some (Ok (p, vm')) \<and> owned_pages L (vheap vm') (dom (tables vm')) \<and>
       tree (tables vm') 3 p \<and> (\<forall>a. walk (tables vm') 3 p a = 0) \<and>
       (\<forall>b. page_budget box_new_page (Suc b) (vheap vm) \<longrightarrow> page_budget box_new_page b (vheap vm')))"
  using box_new_page_fresh [OF assms]
proof (elim disjE exE conjE)
  fix p s' assume b: "box_new_page (vheap vm) = Some (Ok (p, s'))" "owned_pages L s' (insert p (dom (tables vm)))"
  let ?vm = "vm\<lparr>vheap := s', tables := (tables vm)(p := Some (\<lambda>_. 0))\<rparr>"
  have "tree (tables ?vm) 3 p \<and> (\<forall>a. walk (tables ?vm) 3 p a = 0)"
    using empty_table [of "tables ?vm" p] by auto
  then show ?thesis using b by (auto simp: PML4_new_def)
qed (simp add: PML4_new_def)

end
