(* ===== verification/Boot_Theorems.thy ===== *)
theory Boot_Theorems
  imports Boot Paging_Theorems
begin

text \<open>
  The composition at boot: the memory map, the allocator and the page tables together give the
  identity mapping, and the firmware loop hands over a memory map.
\<close>

text \<open>The number of tables that the boot mapping may take: the root, the identity mapping, and page 0.\<close>

definition boot_tables :: "EfiMemoryDescriptor list \<Rightarrow> nat" where
  "boot_tables ds = 1 + (tables_for 3 0 (region_pages (mapped_end ds)) + 3)"

definition boot_mappings :: "usize \<Rightarrow> heap_state vm \<Rightarrow> usize \<Rightarrow> heap_state vm res option" where
  "boot_mappings table vm n =
     and_then_opt (map_option (\<lambda>r. expect r ''Failed to create initial page mapping'')
       (create_mapping box_new_page vm table (identity_req 0 n ReadWriteKernel))) (\<lambda>vm2.
     map_option (\<lambda>r. expect r ''Failed to unmap page 0'')
       (create_mapping box_new_page vm2 table (identity_req 0 4096 NotPresent)))"

lemma init_paging_mappings:
  "init_paging box_new_page mm vm =
     and_then_opt (PML4_new box_new_page vm) (\<lambda>(table, vm1).
     and_then_opt (for_mmap mm end_of_mem_step 0x100000000 0) (\<lambda>n.
     and_then_opt (boot_mappings table vm1 n) (\<lambda>vm3. Some (Ok (table, vm3)))))"
  unfolding init_paging_def boot_mappings_def identity_req_def add_0
  by (auto simp: and_then_opt_def intro!: arg_cong [where f = "and_then_opt _"] split: option.split res.split)

lemma boot_mappings_spec:
  assumes vm: "owned_pages L (vheap vm) (dom (tables vm))" "tree (tables vm) 3 root" "\<forall>a. walk (tables vm) 3 root a = 0"
    and n: "0 < n" "n \<le> 2 ^ 48"
  shows "boot_mappings root vm n = Some (Panic ''memory allocation failed'') \<and>
      \<not> page_budget box_new_page (tables_for 3 0 (region_pages n) + 3) (vheap vm) \<or>
    (\<exists>vm'. boot_mappings root vm n = Some (Ok vm') \<and> owned_pages L (vheap vm') (dom (tables vm')) \<and>
      tree (tables vm') 3 root \<and> (\<forall>a < 2 ^ 48. walk (tables vm') 3 root a =
        (if 4096 \<le> a \<and> page a < region_pages n then word_of_nat (page a * 4096) OR attr_bits ReadWriteKernel else 0)))"
proof -
  have p0: "page 0 = 0" "4096 dvd (0::nat)" by (simp_all add: page_def)
  have four: "0 < (4096 :: nat)" by simp
  have r4: "region_pages 4096 = 1" "tables_for 3 0 1 = 3" by (simp_all add: region_pages_def tables_for_3)
  have end_bound: "0 + region_pages n * 4096 \<le> 2 ^ 48" "0 + region_pages 4096 * 4096 \<le> 2 ^ 48"
    using n(2) by (simp_all add: region_pages_def)
  have fst: "page_budget box_new_page (tables_for 3 0 (region_pages n) + 3) s \<Longrightarrow>
      page_budget box_new_page (tables_for 3 0 (region_pages n)) s" for s
    by (erule page_budget_mono) (rule le_add1)
  have pg: "a < k * 4096 \<longleftrightarrow> page a < k" for a k by (simp add: page_def div_less_iff_less_mult)
  from identity_mapping [OF vm(1,2) p0(2) n(1) end_bound(1), where attr = ReadWriteKernel] show ?thesis
  proof (elim disjE exE conjE)
    fix vm2
    assume m: "create_mapping box_new_page vm root (identity_req 0 n ReadWriteKernel) = Some (Ok vm2)"
      and 2: "\<forall>b. page_budget box_new_page (tables_for 3 (page 0) (page 0 + region_pages n) + b) (vheap vm) \<longrightarrow>
          page_budget box_new_page b (vheap vm2)"
        "owned_pages L (vheap vm2) (dom (tables vm2))" "tree (tables vm2) 3 root"
        "\<forall>a < 2 ^ 48. walk (tables vm2) 3 root a = (if 0 \<le> a \<and> a < 0 + region_pages n * 4096
           then word_of_nat (page a * 4096) OR attr_bits ReadWriteKernel else walk (tables vm) 3 root a)"
    from identity_mapping [OF 2(2,3) p0(2) four end_bound(2), where attr = NotPresent] show ?thesis
    proof (elim disjE exE conjE)
      fix vm3
      assume u: "create_mapping box_new_page vm2 root (identity_req 0 4096 NotPresent) = Some (Ok vm3)"
        and 3: "owned_pages L (vheap vm3) (dom (tables vm3))" "tree (tables vm3) 3 root"
          "\<forall>a < 2 ^ 48. walk (tables vm3) 3 root a = (if 0 \<le> a \<and> a < 0 + region_pages 4096 * 4096
             then word_of_nat (page a * 4096) OR attr_bits NotPresent else walk (tables vm2) 3 root a)"
      have "page a = 0" if "a < 4096" for a using that by (simp add: page_def)
      then show ?thesis
        using 3(1,2) by (auto simp: boot_mappings_def m u 3(3) 2(4) vm(3) r4(1) pg attr_bits_def not_le)
    qed (use 2(1) r4 p0(1) in \<open>auto simp: boot_mappings_def m\<close>)
  qed (use fst p0(1) in \<open>auto simp: boot_mappings_def\<close>)
qed

lemma init_paging_spec:
  assumes "owned_pages L (vheap vm) (dom (tables vm))" "valid_mmap mm ds"
    and "\<forall>e \<in> set ds. physical_start e + number_of_pages e * 4096 < 2 ^ 64"
    and "mapped_end ds \<le> 2 ^ 48"
  shows "init_paging box_new_page mm vm = Some (Panic ''memory allocation failed'') \<and>
      \<not> page_budget box_new_page (boot_tables ds) (vheap vm) \<or>
    (\<exists>root vm'. init_paging box_new_page mm vm = Some (Ok (root, vm')) \<and>
      owned_pages L (vheap vm') (dom (tables vm')) \<and> tree (tables vm') 3 root \<and>
      (\<forall>a < 2 ^ 48. walk (tables vm') 3 root a =
        (if 4096 \<le> a \<and> page a < region_pages (mapped_end ds)
         then word_of_nat (page a * 4096) OR attr_bits ReadWriteKernel else 0)))"
proof -
  have mm: "for_mmap mm end_of_mem_step 0x100000000 0 = Some (Ok (mapped_end ds))"
    by (simp add: for_mmap_valid [OF assms(2)] end_of_mem_fold [OF assms(3)] mapped_end_def)
  have pos: "0 < mapped_end ds" using mapped_end_ge [of ds] by simp
  have le1: "page_budget box_new_page 1 (vheap vm)" if "page_budget box_new_page (boot_tables ds) (vheap vm)"
    using page_budget_mono [OF that, of 1] by (simp add: boot_tables_def)
  from PML4_new_fresh [OF assms(1)] show ?thesis
  proof (elim disjE exE conjE)
    fix p vm1
    assume p: "PML4_new box_new_page vm = Some (Ok (p, vm1))"
      and 1: "owned_pages L (vheap vm1) (dom (tables vm1))" "tree (tables vm1) 3 p" "\<forall>a. walk (tables vm1) 3 p a = 0"
        "\<forall>b. page_budget box_new_page (Suc b) (vheap vm) \<longrightarrow> page_budget box_new_page b (vheap vm1)"
    from boot_mappings_spec [OF 1(1-3) pos assms(4)] show ?thesis
      using 1(4) by (auto simp: init_paging_mappings p mm boot_tables_def simp del: page_budget.simps)
  qed (use le1 in \<open>auto simp: init_paging_mappings simp del: page_budget.simps\<close>)
qed

text \<open>
  Property C8 (functional). \<^verbatim>\<open>init_paging\<close> on a memory map whose regions end below 2^48 either panics because the
  allocator cannot hand out a page for each table, or installs a fresh tree of tables, made of pages that the
  allocator has handed out, in which every address from 4096 up to the end of memory (at least 4 GiB) maps to
  itself, writable for the kernel, and page 0 and everything above the end are not mapped.
\<close>

theorem init_paging_identity:
  assumes "owned_pages L (vheap vm) (dom (tables vm))" "valid_mmap mm ds"
    and "\<forall>e \<in> set ds. physical_start e + number_of_pages e * 4096 < 2 ^ 64"
    and "mapped_end ds \<le> 2 ^ 48"
  shows "init_paging box_new_page mm vm = Some (Panic ''memory allocation failed'') \<and>
      \<not> page_budget box_new_page (boot_tables ds) (vheap vm) \<or>
    (\<exists>root vm'. init_paging box_new_page mm vm = Some (Ok (root, vm')) \<and>
      owned_pages L (vheap vm') (dom (tables vm')) \<and> tree (tables vm') 3 root \<and>
      (\<forall>a < 2 ^ 48. walk (tables vm') 3 root a =
        (if 4096 \<le> a \<and> page a < region_pages (mapped_end ds)
         then word_of_nat (page a * 4096) OR attr_bits ReadWriteKernel else 0)))"
  using init_paging_spec [OF assms] .

text \<open>
  The memory map of the witness: one region of conventional memory, 4201 pages at 1 MiB, enough for the 2057
  tables of the boot mapping.
\<close>

definition boot_descriptor :: EfiMemoryDescriptor where
  "boot_descriptor = \<lparr>memory_type = CONVENTIONAL_MEMORY, physical_start = 0x100000,
     virtual_start = 0, number_of_pages = 4201, attribute = 15\<rparr>"

definition boot_mmap :: MemoryMapHolder where
  "boot_mmap = \<lparr>memory_map_buffer =
       [7, 0, 0, 0, 0, 0, 0, 0,  0, 0, 16, 0, 0, 0, 0, 0,  0, 0, 0, 0, 0, 0, 0, 0,
        105, 16, 0, 0, 0, 0, 0, 0,  15, 0, 0, 0, 0, 0, 0, 0],
     memory_map_size = 40, map_key = 1, descriptor_size = 40, descriptor_version = 1\<rparr>"

lemma boot_valid: "valid_mmap boot_mmap [boot_descriptor]" "mmap_ok [boot_descriptor]"
  by (simp_all add: valid_mmap_def boot_mmap_def boot_descriptor_def read_descriptor_def read_le_def
      efi_memory_type_of_def efi_memory_types_def mmap_ok_def dvd_def)

lemma boot_tables_demo: "mapped_end [boot_descriptor] = 0x100000000" "boot_tables [boot_descriptor] = 2057"
  by (simp_all add: boot_tables_def region_pages_def mapped_end_def boot_descriptor_def tables_for_3)

lemma boot_heap:
  "\<exists>s. init_with_mmap ALLOCATOR boot_mmap = Some (Ok s) \<and> owned_pages {} s {} \<and> page_budget box_new_page 2057 s"
proof -
  have blocks: "boot_blocks [boot_descriptor] = [(0x100000, 0x1069000, False)]"
    by (simp add: boot_blocks_def region_blocks_def boot_descriptor_def)
  obtain s where s: "init_with_mmap ALLOCATOR boot_mmap = Some (Ok s)"
    "heap_inv s [(0x100000, 0x1069000, False)]"
    using init_fold_spec [OF boot_valid(2)] by (auto simp: init_with_mmap_def for_mmap_valid [OF boot_valid(1)] blocks)
  have "spec_alloc 4096 4096 [(0x100000, 0x1069000, False)] =
      (0x1168000, [(0x100000, Suc 2099 * 0x2000 - 32, False), (0x1167FE0, 0x1020, True)])"
    by (simp add: fits_def alloc_addr_def split_block_def eff_size_def eff_align_def bit_len.simps Let_def)
  then obtain s1 where "box_new_page s = Some (Ok (0x1168000, s1))"
      "heap_inv s1 [(0x100000, Suc 2099 * 0x2000 - 32, False), (0x1167FE0, 0x1020, True)]"
    using box_new_page_step [OF s(2)] by fastforce
  then have "page_budget box_new_page (Suc 2099) s"
    using demo_budget [of s1 2099 "[(0x1167FE0, 0x1020, True)]"] by (simp only: page_budget.simps option.case res.case prod.case)
  then have "page_budget box_new_page 2057 s" by (rule page_budget_mono) simp
  moreover have "live_inv s {}"
    using kernel_heap_live_inv [OF kernel_heap.boot [OF boot_valid s(1)]] .
  ultimately show ?thesis using s(1) by (auto simp: owned_pages_def)
qed

theorem init_paging_identity_witness:
  "\<exists>s root vm'. init_with_mmap ALLOCATOR boot_mmap = Some (Ok s) \<and>
    init_paging box_new_page boot_mmap \<lparr>vheap = s, tables = Map.empty\<rparr> = Some (Ok (root, vm')) \<and>
    walk (tables vm') 3 root 0xFFFFFFFF = 0xFFFFF003 \<and> walk (tables vm') 3 root 0xFFF = 0 \<and>
    walk (tables vm') 3 root 0x100000000 = 0"
proof -
  obtain s where s: "init_with_mmap ALLOCATOR boot_mmap = Some (Ok s)" "owned_pages {} s {}"
      "page_budget box_new_page 2057 s" using boot_heap by blast
  have "physical_start boot_descriptor + number_of_pages boot_descriptor * 4096 < 2 ^ 64"
    by (simp add: boot_descriptor_def)
  then obtain root vm' where r: "init_paging box_new_page boot_mmap \<lparr>vheap = s, tables = Map.empty\<rparr> = Some (Ok (root, vm'))"
    and w: "\<forall>a < 2 ^ 48. walk (tables vm') 3 root a =
        (if 4096 \<le> a \<and> page a < region_pages (mapped_end [boot_descriptor])
         then word_of_nat (page a * 4096) OR attr_bits ReadWriteKernel else 0)"
    using init_paging_identity [of "{}" "\<lparr>vheap = s, tables = Map.empty\<rparr>" boot_mmap "[boot_descriptor]"]
      s boot_valid(1) by (auto simp: boot_tables_demo)
  have "walk (tables vm') 3 root 0xFFFFFFFF = 0xFFFFF003" "walk (tables vm') 3 root 0xFFF = 0"
    "walk (tables vm') 3 root 0x100000000 = 0"
    using w by (simp_all add: boot_tables_demo region_pages_def page_def attr_bits_def)
  then show ?thesis using r s(1) by blast
qed

end
