(* ===== verification/Io_Box.thy ===== *)
theory Io_Box
  imports Paging_Theorems
begin

text \<open>
  \<^verbatim>\<open>mmio.rs\<close> and the current page table of \<^verbatim>\<open>x86.rs\<close>: page-aligned boxes for memory shared with devices, whose
  pages are mapped uncached when the box is made.
\<close>

section \<open>The current page table\<close>

text \<open>
  The table is the one that \<open>cr3\<close> points to; the callback changes it in place, so writing \<open>cr3\<close> back
  leaves the register as it was.
\<close>

definition with_current_page_table ::
  "(usize \<Rightarrow> 's vm \<Rightarrow> 's vm res option) \<Rightarrow> usize \<times> 's vm \<Rightarrow> (usize \<times> 's vm) res option" where
  "with_current_page_table callback cpu =
     (case cpu of (cr3, vm) \<Rightarrow> and_then_opt (callback cr3 vm) (\<lambda>vm'. Some (Ok (cr3, vm'))))"

text \<open>\<open>region\<close> is the address of the data of the box, \<open>n\<close> its size in bytes.\<close>

definition io_disable_cache ::
  "'s page_box \<Rightarrow> usize \<Rightarrow> usize \<Rightarrow> usize \<times> 's vm \<Rightarrow> (usize \<times> 's vm) res option" where
  "io_disable_cache box_page region n cpu =
     and_then_opt (Some (add64 region n)) (\<lambda>vend.
     with_current_page_table (\<lambda>pt vm.
       map_option (\<lambda>r. expect r ''Failed to create mapping'')
         (create_mapping box_page vm pt
           \<lparr>virt_start = region, virt_end = vend, phys_base = region, page_attr = ReadWriteIo\<rparr>)) cpu)"

section \<open>Boxes\<close>

text \<open>
  \<^verbatim>\<open>IoBoxInner\<close> is aligned to a page, so its size is that of the data rounded up to whole pages; the data
  is its first field. The box comes from the global allocator and is zeroed. Data of size 0 is not used.
\<close>

definition io_box_size :: "usize \<Rightarrow> usize" where
  "io_box_size n = (n + 4095) div 4096 * 4096"

definition IoBox_new :: "usize \<Rightarrow> usize \<times> heap_state vm \<Rightarrow> (usize \<times> usize \<times> heap_state vm) res option" where
  "IoBox_new n cpu =
     (case cpu of (cr3, vm) \<Rightarrow>
      and_then_opt (box_alloc (vheap vm) (io_box_size n) 4096) (\<lambda>(p, s).
      and_then_opt (io_disable_cache box_new_page p n (cr3, vm\<lparr>vheap := s\<rparr>)) (\<lambda>(cr3', vm').
      Some (Ok (p, cr3', vm')))))"

section \<open>Properties\<close>

lemma io_box_size_pages: "io_box_size n = region_pages n * 4096"
  by (simp add: io_box_size_def region_pages_def)

lemma io_box_size_bounds: "0 < n \<Longrightarrow> 4096 \<le> io_box_size n"
  using region_pages_cover [of n] unfolding io_box_size_pages by (cases "region_pages n") simp_all

lemma box_alloc_inside:
  assumes "heap_inv s bs" "layout_ok n align" "\<forall>(a, z, al) \<in> set bs. a + z \<le> limit"
    and "box_alloc s n align = Some (Ok (p, s'))"
  shows "p + n \<le> limit"
proof -
  obtain bs' where sp: "spec_alloc n align bs = (p, bs')" and "p \<noteq> 0"
    using alloc_with_options_spec [OF assms(1,2)] assms(4)
    by (cases "spec_alloc n align bs") (auto simp: box_alloc_def split: if_splits)
  moreover have "list_all wf_block bs" using assms(1) by (simp add: heap_inv_def)
  ultimately obtain b where "b \<in> set bs" "p + eff_size n \<le> fst b + fst (snd b)"
    using spec_alloc_result [OF _ assms(2) sp] by blast
  then show ?thesis using assms(3) eff_size_ge [of n] by fastforce
qed

lemma IoBox_new_mapped:
  assumes "box_alloc (vheap vm) (io_box_size n) 4096 = Some (Ok (p, s))" "p + n < 2 ^ 64"
  shows "IoBox_new n (cr3, vm) =
    and_then_opt (map_option (\<lambda>r. expect r ''Failed to create mapping'')
      (create_mapping box_new_page (vm\<lparr>vheap := s\<rparr>) cr3 (identity_req p n ReadWriteIo)))
      (\<lambda>vm'. Some (Ok (p, cr3, vm')))"
  using assms(2)
  by (simp add: IoBox_new_def assms(1) io_disable_cache_def with_current_page_table_def add_u_def
      identity_req_def and_then_opt_def split: option.split res.split)

text \<open>
  Property C12 (functional). \<^verbatim>\<open>IoBox::new\<close> on a heap below 2^48 either panics because the allocator runs dry, or
  returns a fresh, page-aligned live object, apart from all other live objects and page tables, whose every
  byte is mapped to itself with the cache disabled; the mapping of every other page is as before.
\<close>

theorem io_box_uncached:
  assumes "owned_pages L (vheap vm) (dom (tables vm))" "tree (tables vm) 3 cr3"
    and "heap_inv (vheap vm) bs" "\<forall>(a, z, al) \<in> set bs. a + z \<le> 2 ^ 48"
    and "0 < n" "n < 2 ^ 47"
  shows "IoBox_new n (cr3, vm) = Some (Panic ''memory allocation failed'') \<and>
      \<not> (\<exists>p s. box_alloc (vheap vm) (io_box_size n) 4096 = Some (Ok (p, s)) \<and>
         page_budget box_new_page (tables_for 3 (page p) (page p + io_box_size n div 4096)) s) \<or>
    (\<exists>p vm'. IoBox_new n (cr3, vm) = Some (Ok (p, cr3, vm')) \<and> 4096 dvd p \<and>
      owned_pages (insert (p, io_box_size n) L) (vheap vm') (dom (tables vm')) \<and> p \<notin> fst ` L \<and>
      tree (tables vm') 3 cr3 \<and>
      (\<forall>a. p \<le> a \<and> a < p + n \<longrightarrow> walk (tables vm') 3 cr3 a = word_of_nat (page a * 4096) OR attr_bits ReadWriteIo) \<and>
      (\<forall>a < 2 ^ 48. \<not> (p \<le> a \<and> a < p + io_box_size n) \<longrightarrow> walk (tables vm') 3 cr3 a = walk (tables vm) 3 cr3 a))"
proof -
  let ?P = "dom (tables vm)"
  have "io_box_size n < 2 ^ 48" using assms(6) by (simp add: io_box_size_def)
  then have lay: "layout_ok (io_box_size n) 4096"
    using io_box_size_bounds assms(5) by (simp add: layout_ok_def is_pow2_def bit_len.simps)
  have live: "live_inv (vheap vm) (L \<union> (\<lambda>p. (p, 4096)) ` ?P)" "fst ` L \<inter> ?P = {}"
    using assms(1) by (simp_all add: owned_pages_def)
  have fst_eq: "fst ` (L \<union> (\<lambda>p. (p, 4096)) ` ?P) = fst ` L \<union> ?P" by force
  from box_alloc_spec [OF live(1) lay] show ?thesis
  proof (elim disjE exE conjE)
    fix p s
    assume b: "box_alloc (vheap vm) (io_box_size n) 4096 = Some (Ok (p, s))"
      and l: "live_inv s (insert (p, io_box_size n) (L \<union> (\<lambda>p. (p, 4096)) ` ?P))"
        "p \<notin> fst ` (L \<union> (\<lambda>p. (p, 4096)) ` ?P)" "4096 dvd p"
    have top: "p + io_box_size n \<le> 2 ^ 48" by (rule box_alloc_inside [OF assms(3) lay assms(4) b])
    have inside: "p + n \<le> p + io_box_size n" using region_pages_cover by (simp add: io_box_size_pages)
    let ?vm = "vm\<lparr>vheap := s\<rparr>"
    have own: "owned_pages (insert (p, io_box_size n) L) (vheap ?vm) (dom (tables ?vm))"
      using l(1,2) live(2) fst_eq by (auto simp: owned_pages_def)
    have tr: "tree (tables ?vm) 3 cr3" using assms(2) by simp
    have new: "IoBox_new n (cr3, vm) = and_then_opt (map_option (\<lambda>r. expect r ''Failed to create mapping'')
        (create_mapping box_new_page ?vm cr3 (identity_req p n ReadWriteIo))) (\<lambda>vm'. Some (Ok (p, cr3, vm')))"
      using inside top by (intro IoBox_new_mapped [OF b]) simp
    from identity_mapping [OF own tr l(3) assms(5) top [unfolded io_box_size_pages], where attr = ReadWriteIo]
    show ?thesis
    proof (elim disjE exE conjE)
      fix vm'
      assume m: "create_mapping box_new_page ?vm cr3 (identity_req p n ReadWriteIo) = Some (Ok vm')"
        and 1: "owned_pages (insert (p, io_box_size n) L) (vheap vm') (dom (tables vm'))" "tree (tables vm') 3 cr3"
          "\<forall>a < 2 ^ 48. walk (tables vm') 3 cr3 a = (if p \<le> a \<and> a < p + region_pages n * 4096
             then word_of_nat (page a * 4096) OR attr_bits ReadWriteIo else walk (tables ?vm) 3 cr3 a)"
      have "a < p + io_box_size n \<and> a < 2 ^ 48" if "a < p + n" for a using that inside top by linarith
      then show ?thesis using 1 l(2,3) fst_eq by (auto simp: new m simp flip: io_box_size_pages)
    qed (use b in \<open>auto simp: new io_box_size_pages\<close>)
  qed (simp add: IoBox_new_def)
qed

theorem io_box_uncached_witness:
  "\<exists>s vm'. owned_pages {(0x11FF80, 100)} s (dom demo_tables) \<and>
    IoBox_new 64 (demo_root, \<lparr>vheap = s, tables = demo_tables\<rparr>) = Some (Ok (0x11C000, demo_root, vm')) \<and>
    walk (tables vm') 3 demo_root 0x11C03F = 0x11C01B \<and> walk (tables vm') 3 demo_root 0x11D000 = 0"
proof -
  obtain s bs where s: "owned_pages {(0x11FF80, 100)} s (dom demo_tables)" "bs = (0x100000, Suc 14 * 0x2000 - 32, False) #
      [(0x11DFE0, 0x1020, True), (0x11F000, 0xF60, False), (0x11FF60, 0xA0, True)]" "heap_inv s bs"
    using demo_owned_blocks by blast
  obtain s' bs' where s': "box_new_page s = Some (Ok (0x100000 + 14 * 0x2000, s'))"
      "heap_inv s' ((0x100000, Suc 13 * 0x2000 - 32, False) # bs')"
    using box_new_page_step [OF s(3) [unfolded s(2)] demo_carve] by auto
  then have b: "box_alloc s (io_box_size 64) 4096 = Some (Ok (0x11C000, s'))" "page_budget box_new_page 3 s'"
    using page_budget_mono [OF demo_budget [OF s'(2)], of 3]
    by (simp_all add: box_new_page_def PAGE_SIZE_def io_box_size_def)
  let ?vm = "\<lparr>vheap = s, tables = demo_tables\<rparr>"
  have "tables_for 3 (page 0x11C000) (page 0x11C000 + io_box_size 64 div 4096) = 3"
    by (simp add: tables_for_3 page_def io_box_size_def)
  then obtain p vm' where r: "IoBox_new 64 (demo_root, ?vm) = Some (Ok (p, demo_root, vm'))"
    and w: "\<forall>a. p \<le> a \<and> a < p + 64 \<longrightarrow> walk (tables vm') 3 demo_root a = word_of_nat (page a * 4096) OR attr_bits ReadWriteIo"
      "\<forall>a < 2 ^ 48. \<not> (p \<le> a \<and> a < p + io_box_size 64) \<longrightarrow> walk (tables vm') 3 demo_root a = walk demo_tables 3 demo_root a"
    using io_box_uncached [of "{(0x11FF80, 100)}" ?vm demo_root bs 64] s b demo_tree(1) by auto
  have p: "p = 0x11C000"
    using r b(1) by (auto simp: IoBox_new_def and_then_opt_def split: option.splits res.splits)
  have "walk (tables vm') 3 demo_root 0x11C03F = 0x11C01B" "walk (tables vm') 3 demo_root 0x11D000 = 0"
    using w by (simp_all add: p page_def attr_bits_def io_box_size_def demo_tree(2))
  then show ?thesis using r s(1) p by blast
qed

end
