(* ===== verification/Serial_Print.thy ===== *)
theory Serial_Print
  imports Graphics Spin_Mutex
begin

text \<open>
  The serial port of \<^verbatim>\<open>serial.rs\<close> and the output functions of \<^verbatim>\<open>print.rs\<close>. The I/O ports are a parameter: what
  reading and writing a port does to the state of the machine. Characters are their code points; formatted
  text is the list of pieces that \<^verbatim>\<open>fmt::write\<close> hands to a writer.
\<close>

section \<open>Serial port\<close>

record 'd io_ports =
  read_io_port_u8 :: "u16 \<Rightarrow> 'd \<Rightarrow> u8 \<times> 'd"
  write_io_port_u8 :: "u16 \<Rightarrow> u8 \<Rightarrow> 'd \<Rightarrow> 'd"

text \<open>\<^verbatim>\<open>self.base + k\<close>, checked at 16 bits.\<close>

definition port_at :: "u16 \<Rightarrow> nat \<Rightarrow> u16 res" where
  "port_at base k = and_then (add_u 16 (unat base) k) (\<lambda>p. Ok (word_of_nat p))"

definition COM1 :: u16 where
  "COM1 = 0x3f8"

primrec fold_opt :: "('s \<Rightarrow> 'a \<Rightarrow> 's res option) \<Rightarrow> 's \<Rightarrow> 'a list \<Rightarrow> 's res option" where
  "fold_opt f s [] = Some (Ok s)"
| "fold_opt f s (x # xs) = and_then_opt (f s x) (\<lambda>s'. fold_opt f s' xs)"

definition write_port :: "'d io_ports \<Rightarrow> u16 \<Rightarrow> 'd \<Rightarrow> nat \<times> u8 \<Rightarrow> 'd res" where
  "write_port io base d kv = and_then (port_at base (fst kv)) (\<lambda>p. Ok (write_io_port_u8 io p (snd kv) d))"

definition BAUD_DIVISOR :: u16 where
  "BAUD_DIVISOR = 1"

definition SerialPort_init :: "'d io_ports \<Rightarrow> u16 \<Rightarrow> 'd \<Rightarrow> 'd res" where
  "SerialPort_init io base d =
     fold_res (write_port io base) d
       [(1, 0x00), (3, 0x80), (0, ucast (BAUD_DIVISOR AND 0xff)), (1, ucast (drop_bit 8 BAUD_DIVISOR)),
        (3, 0x03), (2, 0xC7), (4, 0x0B)]"

text \<open>The loop that waits for the transmitter: it may not end.\<close>

partial_function (option) wait_transmitter :: "'d io_ports \<Rightarrow> u16 \<Rightarrow> 'd \<Rightarrow> 'd option" where
  "wait_transmitter io p d =
     (case read_io_port_u8 io p d of (status, d') \<Rightarrow>
      if status AND 0x20 = 0 then wait_transmitter io p d' else Some d')"

definition send_char :: "'d io_ports \<Rightarrow> u16 \<Rightarrow> 'd \<Rightarrow> nat \<Rightarrow> 'd res option" where
  "send_char io base d c =
     and_then_opt (Some (port_at base 5)) (\<lambda>p.
     case wait_transmitter io p d of None \<Rightarrow> None
     | Some d' \<Rightarrow> Some (Ok (write_io_port_u8 io base (word_of_nat c) d')))"

definition send_str :: "'d io_ports \<Rightarrow> u16 \<Rightarrow> 'd \<Rightarrow> nat list \<Rightarrow> 'd res option" where
  "send_str io base d s = fold_opt (send_char io base) d s"

definition try_read :: "'d io_ports \<Rightarrow> u16 \<Rightarrow> 'd \<Rightarrow> (u8 option \<times> 'd) res" where
  "try_read io base d =
     and_then (port_at base 5) (\<lambda>p.
     case read_io_port_u8 io p d of (status, d1) \<Rightarrow>
     if status AND 0x01 = 0 then Ok (None, d1)
     else (case read_io_port_u8 io base d1 of (c, d2) \<Rightarrow>
       and_then (write_port io base d2 (2, 0xC7)) (\<lambda>d3. Ok (Some c, d3))))"

text \<open>
  The result of the test is kept next to the state of the machine, which its early returns leave in
  loopback mode.
\<close>

definition loopback_test :: "'d io_ports \<Rightarrow> u16 \<Rightarrow> 'd \<Rightarrow> (unit res \<times> 'd) res option" where
  "loopback_test io base d =
     and_then_opt (Some (write_port io base d (4, 0x1e))) (\<lambda>d1.
     and_then_opt (send_char io base d1 84) (\<lambda>d2.
     and_then_opt (Some (try_read io base d2)) (\<lambda>(v, d3).
     case v of None \<Rightarrow> Some (Ok (Err ''loopback_test failed: No response'', d3))
     | Some c \<Rightarrow>
         if c \<noteq> 84 then Some (Ok (Err ''loopback_test failed wrong data received'', d3))
         else and_then_opt (Some (write_port io base d3 (4, 0x0f))) (\<lambda>d4. Some (Ok (Ok (), d4))))))"

text \<open>\<^verbatim>\<open>write_str\<close> of the port ignores \<^verbatim>\<open>self\<close> and uses COM1.\<close>

definition SerialPort_write_str :: "'d io_ports \<Rightarrow> 'd \<Rightarrow> nat list \<Rightarrow> 'd res option" where
  "SerialPort_write_str io d s = send_str io COM1 d s"

section \<open>Printing\<close>

definition set_global_vram :: "u32 \<Rightarrow> bitmap \<Rightarrow> text_writer option Mutex \<Rightarrow> text_writer option Mutex res" where
  "set_global_vram line vram m =
     and_then (lock line m) (\<lambda>m1.
     and_then (assert_that (mx_data m1 = None) ''assertion failed'') (\<lambda>_.
     and_then (lock line (MutexGuard_drop m1)) (\<lambda>m2.
     Ok (MutexGuard_drop (m2\<lparr>mx_data := Some (BitmapTextWriter_new vram)\<rparr>)))))"

text \<open>\<open>source\<close> is the text of the font file.\<close>

definition global_print ::
  "string \<Rightarrow> 'd io_ports \<Rightarrow> u32 \<Rightarrow> nat list list \<Rightarrow> text_writer option Mutex \<times> 'd \<Rightarrow>
    (text_writer option Mutex \<times> 'd) res option" where
  "global_print source io line args st =
     (case st of (m, d) \<Rightarrow>
      and_then_opt (fold_opt (SerialPort_write_str io) d args) (\<lambda>d'.
      Some (and_then (lock line m) (\<lambda>m1.
        case mx_data m1 of
          None \<Rightarrow> Ok (MutexGuard_drop m1, d')
        | Some w \<Rightarrow>
            and_then (expect (fold_res (write_str source) w args) ''Failed to write to GLOBAL_VRAM_WRITER'') (\<lambda>w'.
            Ok (MutexGuard_drop (m1\<lparr>mx_data := Some w'\<rparr>), d'))))))"

section \<open>Leaving the emulator\<close>

datatype QemuExitCode = QemuSuccess | QemuFail

definition qemu_exit_value :: "QemuExitCode \<Rightarrow> u8" where
  "qemu_exit_value c = (case c of QemuSuccess \<Rightarrow> 0x1 | QemuFail \<Rightarrow> 0x2)"

text \<open>The state in which the processor then halts for ever.\<close>

definition exit_qemu :: "'d io_ports \<Rightarrow> QemuExitCode \<Rightarrow> 'd \<Rightarrow> 'd" where
  "exit_qemu io c d = write_io_port_u8 io 0xf4 (qemu_exit_value c) d"

section \<open>Hexdump\<close>

text \<open>The formats \<^verbatim>\<open>{:0wX}\<close>.\<close>

fun hex_upper :: "nat \<Rightarrow> string" where
  "hex_upper n = (if n < 16 then [''0123456789ABCDEF'' ! n] else hex_upper (n div 16) @ [''0123456789ABCDEF'' ! (n mod 16)])"

declare hex_upper.simps [simp del]

definition fmt_hex :: "nat \<Rightarrow> nat \<Rightarrow> string" where
  "fmt_hex w n = replicate (w - length (hex_upper n)) CHR ''0'' @ hex_upper n"

text \<open>The last printable code differs between the full rows and the rest.\<close>

definition ascii_or_dot :: "u8 \<Rightarrow> u8 \<Rightarrow> char" where
  "ascii_or_dot limit c = (if 0x20 \<le> c \<and> c \<le> limit then char_of (unat c) else CHR ''.'')"

record hexdump_state =
  hd_i :: nat
  hd_ascii :: "u8 list"
  hd_offset :: nat
  hd_out :: string

text \<open>One byte; \<^verbatim>\<open>offset\<close> is an \<^verbatim>\<open>i32\<close>.\<close>

definition hexdump_byte :: "hexdump_state \<Rightarrow> u8 \<Rightarrow> hexdump_state res" where
  "hexdump_byte s v =
     (let out = hd_out s @ (if hd_i s = 0 then fmt_hex 8 (hd_offset s) @ '': '' else []) @ fmt_hex 2 (unat v) @ '' '';
          ascii = (hd_ascii s)[hd_i s := v]; i = hd_i s + 1 in
      if i = 16
      then and_then (add_u 31 (hd_offset s) 16) (\<lambda>ofs.
           Ok \<lparr>hd_i = 0, hd_ascii = ascii, hd_offset = ofs,
               hd_out = out @ ''|'' @ map (ascii_or_dot 0x7e) ascii @ ''|'' @ [CHR 0x0A]\<rparr>)
      else Ok (s\<lparr>hd_i := i, hd_ascii := ascii, hd_out := out\<rparr>))"

definition hexdump_bytes :: "u8 list \<Rightarrow> string res" where
  "hexdump_bytes bytes =
     and_then (fold_res hexdump_byte \<lparr>hd_i = 0, hd_ascii = replicate 16 0, hd_offset = 0, hd_out = []\<rparr> bytes) (\<lambda>s.
     if hd_i s \<noteq> 0
     then Ok (hd_out s @ concat (replicate (16 - hd_i s) ''   '') @ ''|'' @
            map (ascii_or_dot 0x7f) (take (hd_i s) (hd_ascii s)) @ ''|'' @ [CHR 0x0A])
     else Ok (hd_out s))"

section \<open>Lemmas: hexdump\<close>

text \<open>The dump as its rows.\<close>

definition hexdump_row :: "nat \<Rightarrow> u8 list \<Rightarrow> string" where
  "hexdump_row ofs row = fmt_hex 8 ofs @ '': '' @ concat (map (\<lambda>v. fmt_hex 2 (unat v) @ '' '') row) @
     concat (replicate (16 - length row) ''   '') @ ''|'' @
     map (ascii_or_dot (if length row = 16 then 0x7e else 0x7f)) row @ ''|'' @ [CHR 0x0A]"

fun hexdump_rows :: "nat \<Rightarrow> u8 list \<Rightarrow> string" where
  "hexdump_rows ofs bs =
     (if bs = [] then [] else hexdump_row ofs (take 16 bs) @ hexdump_rows (ofs + 16) (drop 16 bs))"

declare hexdump_rows.simps [simp del]

lemma hexdump_part:
  assumes "hd_i s = 0" "length (hd_ascii s) = 16" "length row < 16"
  shows "fold_res hexdump_byte s row = Ok (s\<lparr>hd_i := length row, hd_ascii := row @ drop (length row) (hd_ascii s),
     hd_out := hd_out s @ (if row = [] then [] else fmt_hex 8 (hd_offset s) @ '': '') @
       concat (map (\<lambda>v. fmt_hex 2 (unat v) @ '' '') row)\<rparr>)"
  using assms(3)
proof (induction row rule: rev_induct)
  case (snoc v row)
  have "drop (length row) (hd_ascii s) = hd_ascii s ! length row # drop (Suc (length row)) (hd_ascii s)"
    using snoc.prems assms(2) by (simp add: Cons_nth_drop_Suc)
  then show ?case
    using snoc assms by (simp add: fold_res_append hexdump_byte_def list_update_append)
qed (use assms in simp)

lemma hexdump_full:
  assumes "hd_i s = 0" "length (hd_ascii s) = 16" "length row = 16"
  shows "fold_res hexdump_byte s row = and_then (add_u 31 (hd_offset s) 16) (\<lambda>ofs.
     Ok \<lparr>hd_i = 0, hd_ascii = row, hd_offset = ofs, hd_out = hd_out s @ hexdump_row (hd_offset s) row\<rparr>)"
proof -
  obtain xs v where r: "row = xs @ [v]" using assms(3) by (cases row rule: rev_exhaust) auto
  have l: "length xs = 15" using assms(3) r by simp
  then have ne: "xs \<noteq> []" by auto
  have "drop 15 (hd_ascii s) = [hd_ascii s ! 15]"
    using assms(2) Cons_nth_drop_Suc [of 15 "hd_ascii s"] by simp
  then show ?thesis
    using hexdump_part [OF assms(1,2), of xs] l ne assms(1)
    by (simp add: r fold_res_append hexdump_byte_def list_update_append hexdump_row_def)
qed

lemma hexdump_fold:
  assumes "hd_i s = 0" "length (hd_ascii s) = 16" "16 dvd hd_offset s" "hd_offset s < 2 ^ 31"
  shows "and_then (fold_res hexdump_byte s bs) (\<lambda>s.
     if hd_i s \<noteq> 0
     then Ok (hd_out s @ concat (replicate (16 - hd_i s) ''   '') @ ''|'' @
            map (ascii_or_dot 0x7f) (take (hd_i s) (hd_ascii s)) @ ''|'' @ [CHR 0x0A])
     else Ok (hd_out s)) =
    (if hd_offset s + length bs < 2 ^ 31 then Ok (hd_out s @ hexdump_rows (hd_offset s) bs)
     else Panic ''attempt to add with overflow'')"
  using assms
proof (induction "length bs" arbitrary: bs s rule: less_induct)
  case less
  obtain q where q: "hd_offset s = 16 * q" using less.prems(3) by auto
  show ?case
  proof (cases "length bs < 16")
    case True
    moreover have "hd_offset s + 16 \<le> 2 ^ 31" using less.prems(4) q by simp
    ultimately show ?thesis
      using hexdump_part [OF less.prems(1,2) True] less.prems(1)
      by (simp add: hexdump_rows.simps [of _ bs] hexdump_rows.simps [of _ "[]"] hexdump_row_def)
  next
    case False
    have bs: "bs = take 16 bs @ drop 16 bs" by simp
    have l: "length (take 16 bs) = 16" "length (drop 16 bs) < length bs" using False by simp_all
    have rows: "hexdump_rows (hd_offset s) bs =
        hexdump_row (hd_offset s) (take 16 bs) @ hexdump_rows (hd_offset s + 16) (drop 16 bs)"
      using False by (subst hexdump_rows.simps) auto
    let ?s = "\<lparr>hd_i = 0, hd_ascii = take 16 bs, hd_offset = hd_offset s + 16,
      hd_out = hd_out s @ hexdump_row (hd_offset s) (take 16 bs)\<rparr>"
    show ?thesis
    proof (cases "hd_offset s + 16 < 2 ^ 31")
      case True
      have "fold_res hexdump_byte s bs = fold_res hexdump_byte ?s (drop 16 bs)"
        using hexdump_full [OF less.prems(1,2) l(1)] True
        by (subst bs, subst fold_res_append) (simp add: add_u_def)
      then show ?thesis
        using less.hyps [OF l(2), of ?s] l(1) less.prems(3) True False by (simp add: rows)
    next
      case no: False
      have "fold_res hexdump_byte s bs = Panic ''attempt to add with overflow''"
        using hexdump_full [OF less.prems(1,2) l(1)] no
        by (subst bs, subst fold_res_append) (simp add: add_u_def)
      then show ?thesis using no False by simp
    qed
  qed
qed

section \<open>Lemmas: serial output\<close>

text \<open>
  What the model relies on for the UART at COM1: \<open>sent\<close> is what it has transmitted, \<open>busy\<close> bounds the reads
  of the status register that still find the transmitter occupied. Reading the status transmits nothing;
  writing the data register transmits the byte.
\<close>

definition uart :: "'d io_ports \<Rightarrow> ('d \<Rightarrow> u8 list) \<Rightarrow> ('d \<Rightarrow> nat) \<Rightarrow> bool" where
  "uart io sent busy \<longleftrightarrow>
     (\<forall>d. case read_io_port_u8 io (COM1 + 5) d of (status, d') \<Rightarrow>
        sent d' = sent d \<and> (status AND 0x20 = 0 \<longrightarrow> busy d' < busy d)) \<and>
     (\<forall>d c. sent (write_io_port_u8 io COM1 c d) = sent d @ [c])"

lemma wait_transmitter_ends:
  assumes "uart io sent busy"
  shows "\<exists>d'. wait_transmitter io (COM1 + 5) d = Some d' \<and> sent d' = sent d"
proof (induction "busy d" arbitrary: d rule: less_induct)
  case less
  obtain status d' where r: "read_io_port_u8 io (COM1 + 5) d = (status, d')" by fastforce
  have "\<forall>d. case read_io_port_u8 io (COM1 + 5) d of (status, d') \<Rightarrow>
      sent d' = sent d \<and> (status AND 0x20 = 0 \<longrightarrow> busy d' < busy d)"
    using assms by (simp add: uart_def)
  from spec [OF this, of d] have "sent d' = sent d \<and> (status AND 0x20 = 0 \<longrightarrow> busy d' < busy d)"
    unfolding r prod.case .
  then have d': "sent d' = sent d" "status AND 0x20 = 0 \<longrightarrow> busy d' < busy d" by blast+
  show ?case
  proof (cases "status AND 0x20 = 0")
    case True
    then obtain d2 where "wait_transmitter io (COM1 + 5) d' = Some d2 \<and> sent d2 = sent d'" using less d'(2) by blast
    then show ?thesis
      by (intro exI [of _ d2], subst wait_transmitter.simps) (simp only: r prod.case True if_True simp_thms d'(1))
  next
    case False
    then show ?thesis
      by (intro exI [of _ d'], subst wait_transmitter.simps) (simp only: r prod.case False if_False simp_thms d'(1))
  qed
qed

lemma send_str_sends:
  assumes "uart io sent busy"
  shows "\<exists>d'. send_str io COM1 d s = Some (Ok d') \<and> sent d' = sent d @ map word_of_nat s"
proof (induction s arbitrary: d)
  case (Cons c s)
  obtain d1 where d1: "wait_transmitter io (COM1 + 5) d = Some d1" "sent d1 = sent d"
    using wait_transmitter_ends [OF assms] by blast
  have "port_at COM1 5 = Ok (COM1 + 5)" by (simp add: port_at_def COM1_def add_u_def)
  then have "send_char io COM1 d c = Some (Ok (write_io_port_u8 io COM1 (word_of_nat c) d1))"
    using d1(1) by (simp add: send_char_def)
  moreover have "sent (write_io_port_u8 io COM1 (word_of_nat c) d1) = sent d @ [word_of_nat c]"
    using assms d1(2) by (simp add: uart_def)
  ultimately show ?case using Cons by (fastforce simp: send_str_def)
qed (simp add: send_str_def)

lemma pieces_sent:
  assumes "uart io sent busy"
  shows "\<exists>d'. fold_opt (SerialPort_write_str io) d args = Some (Ok d') \<and> sent d' = sent d @ map word_of_nat (concat args)"
proof (induction args arbitrary: d)
  case (Cons s args)
  obtain d1 where d1: "send_str io COM1 d s = Some (Ok d1)" "sent d1 = sent d @ map word_of_nat s"
    using send_str_sends [OF assms] by blast
  obtain d' where "fold_opt (SerialPort_write_str io) d1 args = Some (Ok d')"
      "sent d' = sent d1 @ map word_of_nat (concat args)"
    using Cons by blast
  then show ?case using d1 unfolding fold_opt.simps SerialPort_write_str_def by simp
qed simp

lemma write_pieces: "fold_res (write_str source) w args = write_str source w (concat args)"
  by (induction args arbitrary: w) (simp_all add: write_str_def fold_res_append)

end
