(* ===== verification/Graphics_Theorems.thy ===== *)
theory Graphics_Theorems
  imports Graphics
begin

text \<open>The properties of the drawing functions.\<close>

definition demo_bitmap :: bitmap where
  "demo_bitmap = \<lparr>bytes_per_pixel = 4, pixels_per_line = 12, bm_width = 10, bm_height = 6,
     fb = (\<lambda>i. if 0 \<le> i \<and> i < 4 * 12 * 6 \<and> i mod 4 = 0 then Some 0 else None)\<rparr>"

lemma demo_bitmap_ok: "bitmap_ok demo_bitmap"
proof -
  have "fb demo_bitmap (offset demo_bitmap (x, y)) \<noteq> None" if "visible demo_bitmap (x, y)" for x y
  proof -
    have v: "0 \<le> x" "x < 10" "0 \<le> y" "y < 6"
      using that by (auto simp: visible_def is_in_x_range_def is_in_y_range_def demo_bitmap_def)
    then have "y * 12 + x < 72" "0 \<le> y * 12 + x" by linarith+
    then show ?thesis by (simp add: demo_bitmap_def offset_def)
  qed
  then show ?thesis by (simp add: bitmap_ok_def) (simp add: demo_bitmap_def)
qed

text \<open>
  \<^verbatim>\<open>fill_rect\<close> paints exactly the rectangle: when both corners are in range every pixel of the
  rectangle gets the color and no other byte of the buffer changes; otherwise it returns the error
  without drawing.
\<close>

theorem fill_rect_exact:
  assumes "bitmap_ok bm" "\<bar>w\<bar> < 2 ^ 62" "\<bar>h\<bar> < 2 ^ 62"
  shows "fill_rect color bm px py w h =
    (if visible bm (px, py) \<and> visible bm (px + w - 1, py + h - 1)
     then Ok (paint color {(x, y). px \<le> x \<and> x < px + w \<and> py \<le> y \<and> y < py + h} bm)
     else Err ''Out of Range'')"
proof -
  have "{(x, y). px \<le> x \<and> x < px + w \<and> py \<le> y \<and> y < py + h} = {px..<px + w} \<times> {py..<py + h}" by auto
  then show ?thesis using fill_rect_spec [OF assms, of color px py] by (simp add: visible_def)
qed

theorem fill_rect_exact_witness:
  "\<exists>bm. fill_rect 7 demo_bitmap 2 1 3 2 = Ok bm \<and> fb bm (4 * (2 * 12 + 4)) = Some 7 \<and> fb bm (4 * (2 * 12 + 5)) = Some 0 \<and>
    fill_rect 7 demo_bitmap 8 1 3 2 = Err ''Out of Range''"
proof -
  have o: "4 * (2 * 12 + 4) \<in> offset demo_bitmap ` {(x, y). 2 \<le> x \<and> x < 5 \<and> 1 \<le> y \<and> y < 3}"
    by (rule image_eqI [of _ _ "(4, 2)"]) (simp_all add: offset_def demo_bitmap_def)
  have n: "4 * (2 * 12 + 5) \<notin> offset demo_bitmap ` {(x, y). 2 \<le> x \<and> x < 5 \<and> 1 \<le> y \<and> y < 3}"
    by (auto simp: offset_def demo_bitmap_def)
  have v: "visible demo_bitmap (2, 1)" "visible demo_bitmap (4, 2)" "\<not> visible demo_bitmap (10, 2)"
    by (simp_all add: visible_def is_in_x_range_def is_in_y_range_def demo_bitmap_def)
  show ?thesis
    using fill_rect_exact [OF demo_bitmap_ok, of 3 2 7 2 1] fill_rect_exact [OF demo_bitmap_ok, of 3 2 7 8 1] o n v
    by (simp add: paint_def) (simp add: demo_bitmap_def)
qed

text \<open>
  Property C37 (functional). \<^verbatim>\<open>draw_line\<close> between two visible points never fails: it paints one pixel per step of the
  longer axis, each within half a pixel of the ideal line; the end point itself is never painted. With
  an end outside the bitmap it returns the error.
\<close>

theorem draw_line_exact:
  assumes "bitmap_ok bm"
  shows "draw_line color bm x0 y0 x1 y1 =
      (if visible bm (x0, y0) \<and> visible bm (x1, y1) then Ok (paint color (line_pixels x0 y0 x1 y1) bm)
       else Err ''Out of Range'') \<and>
    (\<forall>(x, y) \<in> line_pixels x0 y0 x1 y1.
       2 * \<bar>(y - y0) * (x1 - x0) - (x - x0) * (y1 - y0)\<bar> \<le> max \<bar>x1 - x0\<bar> \<bar>y1 - y0\<bar>) \<and>
    (x1, y1) \<notin> line_pixels x0 y0 x1 y1"
  using draw_line_spec [OF assms] line_pixels_near by (auto simp: line_pixels_end)

theorem draw_line_exact_witness:
  "draw_line 7 demo_bitmap 0 0 9 5 = Ok (paint 7 (line_pixels 0 0 9 5) demo_bitmap) \<and> (9, 5) \<notin> line_pixels 0 0 9 5"
  using draw_line_exact [OF demo_bitmap_ok, of 7 0 0 9 5]
  by (simp add: visible_def is_in_x_range_def is_in_y_range_def demo_bitmap_def)

text \<open>
  Printing never leaves the frame buffer: whatever the text, and wherever the cursor has run to,
  \<^verbatim>\<open>write_str\<close> returns, paints visible pixels only, and moves the cursor down by one text line per newline.
\<close>

theorem text_stays_visible:
  assumes "bitmap_ok (tw_buf w)" "font_of source = Ok font"
    and "0 \<le> cursor_x w" "0 \<le> cursor_y w" "cursor_x w + 16 * int (length s) < 2 ^ 62" "cursor_y w + 16 * int (length s) < 2 ^ 62"
  shows "\<exists>w' P. write_str source w s = Ok w' \<and> tw_buf w' = paint 0xffffff P (tw_buf w) \<and> P \<subseteq> {p. visible (tw_buf w) p} \<and>
    0 \<le> cursor_x w' \<and> cursor_x w' \<le> cursor_x w + 8 * int (length s) \<and>
    cursor_y w' = cursor_y w + 16 * int (length (filter (\<lambda>c. c = 10) s))"
  using assms by (rule write_str_spec)

theorem text_stays_visible_witness:
  "\<exists>w'. write_str ''0x41'' (BitmapTextWriter_new demo_bitmap) [65, 10, 300] = Ok w' \<and> cursor_y w' = 16"
proof -
  have "font_of ''0x41'' = Ok ((replicate 256 blank_glyph)[65 := read_glyph []])"
    by (simp add: font_of_def i8_from_hex_def hex_digit_def)
  then show ?thesis
    using text_stays_visible [of "BitmapTextWriter_new demo_bitmap" "''0x41''" _ "[65, 10, 300]"] demo_bitmap_ok
    by (fastforce simp: BitmapTextWriter_new_def)
qed

text \<open>Glyph indices are parsed as \<^verbatim>\<open>i8\<close>: glyphs from 0x80 on are never loaded and show as solid blocks.\<close>

lemma high_glyphs_blank:
  "lookup_font source c = Ok (Some g) \<Longrightarrow> 128 \<le> c \<Longrightarrow> g = blank_glyph"
  using font_of_ok(3) [of source _ c] by (auto simp: lookup_font_def font_of_def res_simps split: if_splits)

end
