(* ===== verification/Print_Theorems.thy ===== *)
theory Print_Theorems
  imports Serial_Print Graphics_Theorems
begin

text \<open>The properties of the output functions; the witnesses run on a small UART with a slow transmitter.\<close>

text \<open>A transmitter that is occupied for three reads of the status after each byte.\<close>

definition demo_io :: "(nat \<times> u8 list) io_ports" where
  "demo_io = \<lparr>read_io_port_u8 = (\<lambda>p (n, out). if n = 0 then (0x20, (n, out)) else (0, (n - 1, out))),
     write_io_port_u8 = (\<lambda>p c (n, out). if p = COM1 then (3, out @ [c]) else (n, out))\<rparr>"

lemma demo_uart: "uart demo_io snd fst"
  by (auto simp: uart_def demo_io_def)

text \<open>
  \<^verbatim>\<open>hexdump\<close> prints the rows of the reference definition: each row has the offset, the
  sixteen bytes in hexadecimal, padding and the printable characters; objects of 2^31 bytes and more overflow
  the offset and panic.
\<close>

theorem hexdump_prints_rows:
  "hexdump_bytes bs =
     (if length bs < 2 ^ 31 then Ok (hexdump_rows 0 bs) else Panic ''attempt to add with overflow'')"
  using hexdump_fold [of "\<lparr>hd_i = 0, hd_ascii = replicate 16 0, hd_offset = 0, hd_out = []\<rparr>" bs]
  by (simp add: hexdump_bytes_def)



text \<open>The early returns of the loopback test do not leave loopback mode.\<close>

definition dead_io :: "(u16 \<times> u8) list io_ports" where
  "dead_io = \<lparr>read_io_port_u8 = (\<lambda>p d. (0x20, d)), write_io_port_u8 = (\<lambda>p c d. d @ [(p, c)])\<rparr>"

lemma loopback_failure_keeps_loopback:
  "loopback_test dead_io COM1 [] =
     Some (Ok (Err ''loopback_test failed: No response'', [(COM1 + 4, 0x1e), (COM1, 84)]))"
proof -
  have "wait_transmitter dead_io p d = Some d" for p d
    by (subst wait_transmitter.simps) (simp add: dead_io_def)
  then show ?thesis
    by (simp add: loopback_test_def write_port_def send_char_def try_read_def port_at_def add_u_def COM1_def)
      (simp add: dead_io_def)
qed

text \<open>The last row prints the code 0x7f, full rows print a dot for it.\<close>

lemma hexdump_delete_char:
  "ascii_or_dot 0x7e 0x7f = CHR ''.''" "ascii_or_dot 0x7f 0x7f = char_of (0x7f :: nat)"
  by (simp_all add: ascii_or_dot_def)

end
