(* ===== verification/Xhci_Driver.thy ===== *)
theory Xhci_Driver
  imports Usb_Input
begin

text \<open>
  The asynchronous task of the USB driver, \<^verbatim>\<open>PciXhciDriver::run\<close>, as the state machine into which its awaits
  cut it: a control point for each \<^verbatim>\<open>.await\<close>, with the local variables that live across it, and one step for each
  poll of the task. Between two polls other tasks and the controller may change everything that the task
  shares: the controller object, the device and the memory of the buffers, which is read by \<open>mem\<close>. Log output
  is left out but for the key events.
\<close>

section \<open>Requests that keep the state on errors\<close>

text \<open>
  Where a request ends the task, the controller object is the one before the request: the only other task that
  has it reads the event ring alone, which no failing request has changed. The keyboard driver fails into the start of the tablet driver, which goes on with the same ring: so the ring is
  also kept where a request fails. A failing push is refused before it writes.
\<close>

fun push_stages :: "CommandRing \<Rightarrow> GenericTrbEntry list \<Rightarrow> u64 list res \<times> CommandRing" where
  "push_stages ring [] = (Ok [], ring)"
| "push_stages ring (t # ts) =
     (case push ring t of
        Ok (p, ring1) \<Rightarrow> (case push_stages ring1 ts of (r, ring2) \<Rightarrow> (and_then r (\<lambda>ps. Ok (p # ps)), ring2))
      | Err m \<Rightarrow> (Err m, ring) | Panic m \<Rightarrow> (Panic m, ring) | UB \<Rightarrow> (UB, ring))"

text \<open>All stages, the doorbell, and the future of the \<open>k\<close>th TRB.\<close>

definition submit :: "'d bus \<Rightarrow> 'd Controller \<Rightarrow> u8 \<Rightarrow> CommandRing \<Rightarrow> GenericTrbEntry list \<Rightarrow> nat \<Rightarrow>
    nat res \<times> CommandRing \<times> 'd Controller" where
  "submit bus xhc slot ring ts k =
     (case push_stages ring ts of (r, ring1) \<Rightarrow>
      case and_then r (\<lambda>ps. and_then (notify_ep bus xhc slot 1) (\<lambda>xhc1. Ok (await_trb xhc1 (ps ! k)))) of
        Ok (i, xhc2) \<Rightarrow> (Ok i, ring1, xhc2)
      | Err m \<Rightarrow> (Err m, ring1, xhc) | Panic m \<Rightarrow> (Panic m, ring1, xhc) | UB \<Rightarrow> (UB, ring1, xhc))"

definition set_protocol_stages :: "u8 \<Rightarrow> u8 \<Rightarrow> GenericTrbEntry list" where
  "set_protocol_stages ifc protocol =
     [trb_from_setup (SetupStageTrb_new REQ_TYPE_TO_INTERFACE REQ_SET_PROTOCOL (ucast protocol) (ucast ifc) 0),
      StatusStageTrb_new_in]"

definition report_stages :: "u64 \<Rightarrow> GenericTrbEntry list" where
  "report_stages buf =
     [trb_from_setup (SetupStageTrb_new (REQ_TYPE_DIR_DEVICE_TO_HOST OR REQ_TYPE_TYPE_CLASS OR REQ_TYPE_TO_INTERFACE)
        REQ_GET_REPORT 0x0200 0 (word_of_nat 8)),
      DataStageTrb_new_in buf 8, StatusStageTrb_new_out]"

section \<open>The state machine\<close>

text \<open>The first argument of a waiting state is the future, \<open>buf\<close> the buffer of the transfer.\<close>

datatype run_pc =
    PowerWait usize
  | ResetWait usize
  | SlotWait nat usize
  | AddressWait nat u8 CommandRing
  | DeviceWait nat u8 CommandRing
  | LangWait nat u8 CommandRing UsbDeviceDescriptor
  | StringWait nat u8 CommandRing UsbDeviceDescriptor u16 "u8 list"
  | ConfigWait nat u8 CommandRing UsbDeviceDescriptor
  | RestWait nat u8 CommandRing UsbDeviceDescriptor usize
  | ProtocolWait nat u8 CommandRing UsbDeviceDescriptor "UsbDescriptor list"
  | ReportWait nat u8 CommandRing UsbDeviceDescriptor "UsbDescriptor list" "u8 list"
  | TabletWait nat
  | Finished "unit res"

type_synonym key_log = "(bool \<times> u8 \<times> KeyEvent) list"

text \<open>The addresses of the boxes that the task allocates for its transfers.\<close>

record run_boxes =
  output_ctx :: u64
  input_ctx :: u64
  ctrl_ring :: u64
  device_buf :: u64
  lang_buf :: u64
  string_buf :: u64
  config_buf :: u64
  rest_buf :: u64
  report_buf :: u64
  report_desc_buf :: u64

text \<open>A \<^verbatim>\<open>?\<close> of \<^verbatim>\<open>run\<close> ends the task with the error.\<close>

definition or_fail :: "'d Controller \<Rightarrow> 'a res \<Rightarrow> ('a \<Rightarrow> (run_pc \<times> key_log \<times> 'd Controller) res option) \<Rightarrow>
    (run_pc \<times> key_log \<times> 'd Controller) res option" where
  "or_fail xhc r f =
     (case r of Ok a \<Rightarrow> f a | Err m \<Rightarrow> Some (Ok (Finished (Err m), [], xhc)) | Panic m \<Rightarrow> Some (Panic m) | UB \<Rightarrow> Some UB)"

definition stop_ok :: "'d Controller \<Rightarrow> key_log \<Rightarrow> (run_pc \<times> key_log \<times> 'd Controller) res option" where
  "stop_ok xhc evs = Some (Ok (Finished (Ok ()), evs, xhc))"

text \<open>\<^verbatim>\<open>start_usb_tablet\<close>: whether it succeeds or not, \<^verbatim>\<open>run\<close> returns.\<close>

definition begin_tablet where
  "begin_tablet bus bx xhc slot ring dev descs evs =
     (case start_usb_tablet bus xhc slot ring dev descs (report_desc_buf bx) of
        Ok (i, _, xhc1) \<Rightarrow> Some (Ok (TabletWait i, evs, xhc1))
      | Err m \<Rightarrow> stop_ok xhc evs | Panic m \<Rightarrow> Some (Panic m) | UB \<Rightarrow> Some UB)"

text \<open>One turn of the loop of \<^verbatim>\<open>start_usb_keyboard\<close>, up to its await.\<close>

definition ask_report where
  "ask_report bus bx xhc slot ring dev descs prev evs =
     (case submit bus xhc slot ring (report_stages (report_buf bx)) 1 of (r, ring1, xhc1) \<Rightarrow>
      case r of Ok i \<Rightarrow> Some (Ok (ReportWait i slot ring1 dev descs prev, evs, xhc1))
      | Err m \<Rightarrow> begin_tablet bus bx xhc1 slot ring1 dev descs evs | Panic m \<Rightarrow> Some (Panic m) | UB \<Rightarrow> Some UB)"

definition begin_keyboard where
  "begin_keyboard bus bx xhc slot ring dev descs =
     (case pick_interface_with_triple descs (3, 1, 1) of
        None \<Rightarrow> begin_tablet bus bx xhc slot ring dev descs []
      | Some (config_desc, _, _) \<Rightarrow>
          (case submit bus xhc slot ring (set_protocol_stages (config_value config_desc) BootProtocol) 1 of (r, ring1, xhc1) \<Rightarrow>
           case r of Ok i \<Rightarrow> Some (Ok (ProtocolWait i slot ring1 dev descs, [], xhc1))
           | Err m \<Rightarrow> begin_tablet bus bx xhc1 slot ring1 dev descs [] | Panic m \<Rightarrow> Some (Panic m) | UB \<Rightarrow> Some UB))"

text \<open>The strings whose index is not 0, then the configuration.\<close>

fun next_string where
  "next_string bus bx xhc slot ring dev lang [] =
     or_fail xhc (request_config_descriptor bus xhc slot ring (config_buf bx)) (\<lambda>(i, ring1, xhc1).
     Some (Ok (ConfigWait i slot ring1 dev, [], xhc1)))"
| "next_string bus bx xhc slot ring dev lang (idx # idxs) =
     (if idx = 0 then next_string bus bx xhc slot ring dev lang idxs
      else or_fail xhc (request_string_descriptor bus xhc slot ring lang idx (string_buf bx)) (\<lambda>(i, ring1, xhc1).
        Some (Ok (StringWait i slot ring1 dev lang idxs, [], xhc1))))"

text \<open>The checks of \<^verbatim>\<open>init_port\<close> after the reset; \<^verbatim>\<open>p\<close> is the port register.\<close>

definition port_enabled where
  "port_enabled bus p xhc port =
     (case is_enabled bus p (xdev xhc) of (en, d) \<Rightarrow>
      let xhc1 = xhc\<lparr>xdev := d\<rparr> in
      if \<not> en then Some (Ok (Finished (Err ''port is not enabled''), [], xhc1))
      else or_fail xhc1 (and_then cmd_enable_slot (send_command bus xhc1)) (\<lambda>(i, xhc2).
        Some (Ok (SlotWait i port, [], xhc2))))"

definition check_reset where
  "check_reset bus p xhc port =
     (case portsc_pr bus p (xdev xhc) of (pr, d) \<Rightarrow>
      let xhc1 = xhc\<lparr>xdev := d\<rparr> in
      if pr then Some (Ok (ResetWait port, [], xhc1)) else port_enabled bus p xhc1 port)"

definition check_power where
  "check_power bus p xhc port =
     (case portsc_pp bus p (xdev xhc) of (pp, d) \<Rightarrow>
      if \<not> pp then Some (Ok (PowerWait port, [], xhc\<lparr>xdev := d\<rparr>))
      else check_reset bus p (xhc\<lparr>xdev := portsc_assert_bit bus p 4 d\<rparr>) port)"

definition with_port where
  "with_port xhc port f =
     or_fail xhc (ok_or (portsc_get (portsc (xregs xhc)) port) ''invalid portsc'') (\<lambda>p. f p)"

text \<open>
  The first poll: two registers are read for the log, then the ports; the task that polls the event ring is
  spawned in any case.
\<close>

definition run_start where
  "run_start bus bx xhc =
     (let d1 = snd (rd32 bus (USBSTS (op_regs (xregs xhc))) (xdev xhc));
          d2 = snd (rd32 bus (rt_regs (xregs xhc)) d1);
          (connected_port, d3) = scan_ports bus (portsc (xregs xhc)) (port_range (portsc (xregs xhc))) None d2;
          xhc1 = xhc\<lparr>xdev := d3\<rparr> in
      case connected_port of
        None \<Rightarrow> stop_ok xhc1 []
      | Some port \<Rightarrow> with_port xhc1 port (\<lambda>p. check_power bus p (xhc1\<lparr>xdev := portsc_assert_bit bus p 9 d3\<rparr>) port))"

text \<open>
  One poll of the task that polls the event ring, spawned by the first poll: each turn of its loop handles at most
  one event and then yields. \<open>None\<close> is \<^verbatim>\<open>Poll::Pending\<close>; an error ends the task.
\<close>

definition event_task_poll :: "'d Controller \<Rightarrow> (unit res option \<times> 'd Controller) res" where
  "event_task_poll xhc =
     (case ev_poll (primary_event_ring xhc) of
        Ok er \<Rightarrow> Ok (None, xhc\<lparr>primary_event_ring := er\<rparr>)
      | Err m \<Rightarrow> Ok (Some (Err m), xhc) | Panic m \<Rightarrow> Panic m | UB \<Rightarrow> UB)"

text \<open>\<^verbatim>\<open>EventFuture::poll\<close>; when the future is ready it is dropped.\<close>

definition poll_future :: "nat \<Rightarrow> 'd Controller \<Rightarrow> GenericTrbEntry option \<times> 'd Controller" where
  "poll_future i xhc =
     (case EventFuture_poll i (primary_event_ring xhc) of (r, er) \<Rightarrow>
      (r, xhc\<lparr>primary_event_ring := (case r of None \<Rightarrow> er | Some _ \<Rightarrow> EventFuture_drop i er)\<rparr>))"

definition on_event where
  "on_event pc i xhc f =
     (case poll_future i xhc of (r, xhc1) \<Rightarrow>
      case r of None \<Rightarrow> Some (Ok (pc, [], xhc1)) | Some trb \<Rightarrow> f trb xhc1)"

text \<open>A transfer whose failure ends the task.\<close>

definition on_transfer where
  "on_transfer pc i xhc f =
     on_event pc i xhc (\<lambda>trb xhc1. or_fail xhc1 (transfer_result_ok trb) (\<lambda>_. f xhc1))"

text \<open>A transfer of the keyboard driver: its failure starts the tablet driver.\<close>

definition on_keyboard_transfer where
  "on_keyboard_transfer pc i xhc on_fail f =
     on_event pc i xhc (\<lambda>trb xhc1.
       case transfer_result_ok trb of Ok _ \<Rightarrow> f xhc1 | Err m \<Rightarrow> on_fail xhc1 | Panic m \<Rightarrow> Some (Panic m) | UB \<Rightarrow> Some UB)"

text \<open>One poll of the task.\<close>

fun run_poll :: "'d bus \<Rightarrow> ('d \<Rightarrow> u64 \<Rightarrow> nat \<Rightarrow> u8 list) \<Rightarrow> run_boxes \<Rightarrow> run_pc \<Rightarrow> 'd Controller \<Rightarrow>
    (run_pc \<times> key_log \<times> 'd Controller) res option" where
  "run_poll bus mem bx (PowerWait port) xhc = with_port xhc port (\<lambda>p. check_power bus p xhc port)"
| "run_poll bus mem bx (ResetWait port) xhc = with_port xhc port (\<lambda>p. check_reset bus p xhc port)"
| "run_poll bus mem bx (SlotWait i port) xhc =
     on_event (SlotWait i port) i xhc (\<lambda>trb xhc1.
     or_fail xhc1 (slot_id trb) (\<lambda>slot.
     or_fail xhc1 (address_device bus xhc1 port slot (output_ctx bx) (ctrl_ring bx) (input_ctx bx)) (\<lambda>(i', ring, _, xhc2).
     Some (Ok (AddressWait i' slot ring, [], xhc2)))))"
| "run_poll bus mem bx (AddressWait i slot ring) xhc =
     on_event (AddressWait i slot ring) i xhc (\<lambda>trb xhc1.
     or_fail xhc1 (cmd_result_ok trb) (\<lambda>_.
     or_fail xhc1 (request_device_descriptor bus xhc1 slot ring (device_buf bx)) (\<lambda>(i', ring1, xhc2).
     Some (Ok (DeviceWait i' slot ring1, [], xhc2)))))"
| "run_poll bus mem bx (DeviceWait i slot ring) xhc =
     on_transfer (DeviceWait i slot ring) i xhc (\<lambda>xhc1.
     let dev = decode_device (mem (xdev xhc1) (device_buf bx) 18) in
     case request_string_descriptor_zero bus xhc1 slot ring (lang_buf bx) of
       Ok (i', ring1, xhc2) \<Rightarrow> Some (Ok (LangWait i' slot ring1 dev, [], xhc2))
     | Err m \<Rightarrow> stop_ok xhc1 [] | Panic m \<Rightarrow> Some (Panic m) | UB \<Rightarrow> Some UB)"
| "run_poll bus mem bx (LangWait i slot ring dev) xhc =
     on_event (LangWait i slot ring dev) i xhc (\<lambda>trb xhc1.
     case transfer_result_ok trb of
       Ok _ \<Rightarrow> next_string bus bx xhc1 slot ring dev (u16_at (mem (xdev xhc1) (lang_buf bx) 16) 2)
         [manufacturer_idx dev, product_idx dev, serial_idx dev]
     | Err m \<Rightarrow> stop_ok xhc1 [] | Panic m \<Rightarrow> Some (Panic m) | UB \<Rightarrow> Some UB)"
| "run_poll bus mem bx (StringWait i slot ring dev lang idxs) xhc =
     on_transfer (StringWait i slot ring dev lang idxs) i xhc (\<lambda>xhc1. next_string bus bx xhc1 slot ring dev lang idxs)"
| "run_poll bus mem bx (ConfigWait i slot ring dev) xhc =
     on_transfer (ConfigWait i slot ring dev) i xhc (\<lambda>xhc1.
     let header = mem (xdev xhc1) (config_buf bx) 9 in
     or_fail xhc1 (request_config_rest bus xhc1 slot ring header (rest_buf bx)) (\<lambda>(i', ring1, xhc2).
     Some (Ok (RestWait i' slot ring1 dev (total_length (decode_config header)), [], xhc2))))"
| "run_poll bus mem bx (RestWait i slot ring dev len) xhc =
     on_transfer (RestWait i slot ring dev len) i xhc (\<lambda>xhc1.
     and_then_opt (collect_descriptors (mem (xdev xhc1) (rest_buf bx) len) 0 []) (\<lambda>descs.
     begin_keyboard bus bx xhc1 slot ring dev descs))"
| "run_poll bus mem bx (ProtocolWait i slot ring dev descs) xhc =
     on_keyboard_transfer (ProtocolWait i slot ring dev descs) i xhc
       (\<lambda>xhc1. begin_tablet bus bx xhc1 slot ring dev descs [])
       (\<lambda>xhc1. ask_report bus bx xhc1 slot ring dev descs [] [])"
| "run_poll bus mem bx (ReportWait i slot ring dev descs prev) xhc =
     on_keyboard_transfer (ReportWait i slot ring dev descs prev) i xhc
       (\<lambda>xhc1. begin_tablet bus bx xhc1 slot ring dev descs [])
       (\<lambda>xhc1. and_then_opt (Some (keyboard_round prev (mem (xdev xhc1) (report_buf bx) 8))) (\<lambda>(evs, pressed).
          ask_report bus bx xhc1 slot ring dev descs pressed evs))"
| "run_poll bus mem bx (TabletWait i) xhc = on_event (TabletWait i) i xhc (\<lambda>trb xhc1.
     case transfer_result_ok trb of Panic m \<Rightarrow> Some (Panic m) | UB \<Rightarrow> Some UB | _ \<Rightarrow> stop_ok xhc1 [])"
| "run_poll bus mem bx (Finished r) xhc = Some (Ok (Finished r, [], xhc))"

end
