(* ===== verification/Driver_Script.thy ===== *)
theory Driver_Script
  imports Xhci_Driver Usb_Theorems Xhci_Theorems
begin

text \<open>
  What the asynchronous task of the USB driver does, as a small abstract automaton: the script \<open>flow\<close> that every
  completed await follows, the runs \<open>driven\<close> of the task, whatever other tasks and the controller do between its
  polls, what holds in all of them, and the polls that do not fault.
\<close>

section \<open>The transfer ring\<close>

definition ring_ok :: "u64 \<Rightarrow> CommandRing \<Rightarrow> bool" where
  "ring_ok a ring \<longleftrightarrow> (\<exists>h. ring_inv ring h) \<and> ring_phys_addr ring = a"

definition no_links :: "GenericTrbEntry list \<Rightarrow> bool" where
  "no_links ts \<longleftrightarrow> (\<forall>t \<in> set ts. ty_of t \<noteq> trb_type_code Link)"

lemma push_stages_inv:
  assumes "ring_inv ring h" "no_links ts"
  shows "\<exists>ps ring'. push_stages ring ts = (Ok ps, ring') \<and> length ps = length ts \<and> ring_inv ring' (h @ ts) \<and>
    ring_phys_addr ring' = ring_phys_addr ring"
  using assms
proof (induction ts arbitrary: ring h)
  case (Cons t ts)
  obtain p ring1 where r1: "push ring t = Ok (p, ring1)" "ring_inv ring1 (h @ [t])"
      "ring_phys_addr ring1 = ring_phys_addr ring"
    using push_inv [OF Cons.prems(1), of t] Cons.prems(2) by (auto simp: no_links_def)
  then show ?case using Cons.IH [OF r1(2)] Cons.prems(2) by (fastforce simp: no_links_def)
qed simp

lemma submit_inv:
  assumes "ring_ok a ring" "no_links ts" "k < length ts"
  shows "\<exists>r ring1 xhc1. submit bus xhc slot ring ts k = (r, ring1, xhc1) \<and> ring_ok a ring1 \<and> no_fault r \<and>
    ((\<exists>i. r = Ok i) \<longleftrightarrow> unat slot < length (doorbell_regs (xregs xhc)))"
proof -
  obtain h where h: "ring_inv ring h" "ring_phys_addr ring = a" using assms(1) by (auto simp: ring_ok_def)
  obtain ps ring1 where p: "push_stages ring ts = (Ok ps, ring1)" "ring_ok a ring1"
    using push_stages_inv [OF h(1) assms(2)] h(2) by (auto simp: ring_ok_def)
  show ?thesis
    using p by (simp add: submit_def notify_ep_eq no_fault_def split: prod.split)
qed

lemma submit_cases:
  assumes "ring_ok a ring" "no_links ts" "k < length ts"
  obtains (queued) i ring1 xhc1 where "submit bus xhc slot ring ts k = (Ok i, ring1, xhc1)" "ring_ok a ring1"
    | (refused) m ring1 xhc1 where "submit bus xhc slot ring ts k = (Err m, ring1, xhc1)" "ring_ok a ring1"
proof -
  obtain r ring1 xhc1 where "submit bus xhc slot ring ts k = (r, ring1, xhc1)" "ring_ok a ring1" "no_fault r"
    using submit_inv [OF assms] by blast
  then show ?thesis using that by (cases r) auto
qed

text \<open>The requests of the controller are submissions; they lose the ring where they fail.\<close>

definition lose_ring :: "nat res \<times> CommandRing \<times> 'd Controller \<Rightarrow> (nat \<times> CommandRing \<times> 'd Controller) res" where
  "lose_ring x = (case x of (r, ring, xhc) \<Rightarrow> and_then r (\<lambda>i. Ok (i, ring, xhc)))"

lemma control_in_submit:
  "control_in bus xhc slot ring setup buf len =
     lose_ring (submit bus xhc slot ring [trb_from_setup setup, DataStageTrb_new_in buf len, StatusStageTrb_new_out] 1)"
  by (auto simp: control_in_def submit_def lose_ring_def Let_def notify_ep_eq split: res.splits prod.splits if_splits)

lemma control_no_data_submit:
  "control_no_data bus xhc slot ring setup =
     lose_ring (submit bus xhc slot ring [trb_from_setup setup, StatusStageTrb_new_in] 1)"
  by (auto simp: control_no_data_def submit_def lose_ring_def Let_def notify_ep_eq split: res.splits prod.splits if_splits)

lemma control_in_keeps:
  assumes "control_in bus xhc slot ring (SetupStageTrb_new q b v x l) buf len = Ok (i, ring', xhc')" "ring_ok a ring"
  shows "ring_ok a ring'"
  using assms(1) submit_inv [OF assms(2), of "[trb_from_setup (SetupStageTrb_new q b v x l), DataStageTrb_new_in buf len,
      StatusStageTrb_new_out]" 1 bus xhc slot]
  by (auto simp: control_in_submit lose_ring_def no_links_def control_types res_simps)

lemma submit_keeps:
  assumes "submit bus xhc slot ring ts k = (r, ring1, xhc1)" "no_links ts" "k < length ts" "ring_ok a ring"
  shows "ring_ok a ring1"
  using assms(1) submit_inv [OF assms(4,2,3), of bus xhc slot] by auto

lemma stages_no_links: "no_links (report_stages buf)" "no_links (set_protocol_stages x p)"
    "length (report_stages buf) = 3" "length (set_protocol_stages x p) = 2"
  by (auto simp: no_links_def report_stages_def set_protocol_stages_def control_types)

section \<open>The abstract automaton\<close>

text \<open>The future that a control point waits for, its transfer ring, and its rank in the script of \<^verbatim>\<open>run\<close>.\<close>

fun awaits :: "run_pc \<Rightarrow> nat option" where
  "awaits (PowerWait port) = None" | "awaits (ResetWait port) = None" | "awaits (SlotWait i port) = Some i"
| "awaits (AddressWait i slot ring) = Some i" | "awaits (DeviceWait i slot ring) = Some i"
| "awaits (LangWait i slot ring dev) = Some i" | "awaits (StringWait i slot ring dev lang idxs) = Some i"
| "awaits (ConfigWait i slot ring dev) = Some i" | "awaits (RestWait i slot ring dev len) = Some i"
| "awaits (ProtocolWait i slot ring dev descs) = Some i" | "awaits (ReportWait i slot ring dev descs prev) = Some i"
| "awaits (TabletWait i) = Some i" | "awaits (Finished r) = None"

fun ring_of :: "run_pc \<Rightarrow> CommandRing option" where
  "ring_of (AddressWait i slot ring) = Some ring" | "ring_of (DeviceWait i slot ring) = Some ring"
| "ring_of (LangWait i slot ring dev) = Some ring" | "ring_of (StringWait i slot ring dev lang idxs) = Some ring"
| "ring_of (ConfigWait i slot ring dev) = Some ring" | "ring_of (RestWait i slot ring dev len) = Some ring"
| "ring_of (ProtocolWait i slot ring dev descs) = Some ring" | "ring_of (ReportWait i slot ring dev descs prev) = Some ring"
| "ring_of _ = None"

fun rank :: "run_pc \<Rightarrow> nat" where
  "rank (PowerWait port) = 0" | "rank (ResetWait port) = 1" | "rank (SlotWait i port) = 2"
| "rank (AddressWait i slot ring) = 3" | "rank (DeviceWait i slot ring) = 4" | "rank (LangWait i slot ring dev) = 5"
| "rank (StringWait i slot ring dev lang idxs) = 8 - length idxs" | "rank (ConfigWait i slot ring dev) = 9"
| "rank (RestWait i slot ring dev len) = 10" | "rank (ProtocolWait i slot ring dev descs) = 11"
| "rank (ReportWait i slot ring dev descs prev) = 12" | "rank (TabletWait i) = 13" | "rank (Finished r) = 14"

fun reporting :: "run_pc \<Rightarrow> bool" where
  "reporting (ReportWait i slot ring dev descs prev) = True" | "reporting _ = False"

text \<open>
  The steps that complete an await: the script goes forward, a transfer ring is only changed in a way that keeps
  the ring of address \<open>a\<close> well formed, key events are logged by the report loop alone, and errors end the task
  before the drivers start.
\<close>

inductive flow :: "u64 \<Rightarrow> run_pc \<Rightarrow> key_log \<Rightarrow> run_pc \<Rightarrow> bool" for a where
  forward: "\<lbrakk>rank pc < rank pc'; \<not> reporting pc'; rank pc' < 13;
      \<And>ring'. ring_of pc' = Some ring' \<Longrightarrow> (case ring_of pc of None \<Rightarrow> True | Some ring \<Rightarrow> ring_ok a ring) \<Longrightarrow> ring_ok a ring'\<rbrakk>
    \<Longrightarrow> flow a pc [] pc'"
| first_report: "(ring_ok a ring \<Longrightarrow> ring_ok a ring')
    \<Longrightarrow> flow a (ProtocolWait i slot ring dev descs) [] (ReportWait j slot ring' dev descs [])"
| report: "\<lbrakk>keyboard_round prev bytes = Ok (evs, pressed); ring_ok a ring \<Longrightarrow> ring_ok a ring'\<rbrakk>
    \<Longrightarrow> flow a (ReportWait i slot ring dev descs prev) evs (ReportWait j slot ring' dev descs pressed)"
| tablet: "\<lbrakk>10 \<le> rank pc; rank pc < 13; reporting pc \<or> evs = []\<rbrakk> \<Longrightarrow> flow a pc evs (TabletWait j)"
| finished: "\<lbrakk>rank pc < 14; reporting pc \<or> evs = []\<rbrakk> \<Longrightarrow> flow a pc evs (Finished (Ok ()))"
| failed: "rank pc \<le> 10 \<Longrightarrow> flow a pc [] (Finished (Err m))"

section \<open>The outcome of the parts of a poll\<close>

named_theorems turns \<open>how a part of a poll can succeed\<close>

lemma or_fail_Ok [turns]: "or_fail xhc r f = Some (Ok z) \<longleftrightarrow>
    (\<exists>a. r = Ok a \<and> f a = Some (Ok z)) \<or> (\<exists>m. r = Err m \<and> z = (Finished (Err m), [], xhc))"
  by (auto simp: or_fail_def split: res.splits)

lemma result_case_Ok [turns]:
  "(case r of Ok u \<Rightarrow> f u | Err m \<Rightarrow> g m | Panic m \<Rightarrow> Some (Panic m) | UB \<Rightarrow> Some UB) = Some (Ok z) \<longleftrightarrow>
     (\<exists>u. r = Ok u \<and> f u = Some (Ok z)) \<or> (\<exists>m. r = Err m \<and> g m = Some (Ok z))"
  by (cases r) auto

declare and_then_opt_eq_Ok [turns]

lemma on_event_Ok [turns]: "on_event pc i xhc f = Some (Ok z) \<longleftrightarrow>
    (\<exists>xhc1. poll_future i xhc = (None, xhc1) \<and> z = (pc, [], xhc1)) \<or>
    (\<exists>trb xhc1. poll_future i xhc = (Some trb, xhc1) \<and> f trb xhc1 = Some (Ok z))"
  by (auto simp: on_event_def split: prod.splits option.splits)

lemma on_transfer_Ok [turns]: "on_transfer pc i xhc f = Some (Ok z) \<longleftrightarrow>
    (\<exists>xhc1. poll_future i xhc = (None, xhc1) \<and> z = (pc, [], xhc1)) \<or>
    (\<exists>trb xhc1. poll_future i xhc = (Some trb, xhc1) \<and>
       (transfer_result_ok trb = Ok () \<and> f xhc1 = Some (Ok z) \<or>
        (\<exists>m. transfer_result_ok trb = Err m \<and> z = (Finished (Err m), [], xhc1))))"
  by (auto simp: on_transfer_def turns)

lemma on_keyboard_transfer_Ok [turns]: "on_keyboard_transfer pc i xhc g f = Some (Ok z) \<longleftrightarrow>
    (\<exists>xhc1. poll_future i xhc = (None, xhc1) \<and> z = (pc, [], xhc1)) \<or>
    (\<exists>trb xhc1. poll_future i xhc = (Some trb, xhc1) \<and>
       (transfer_result_ok trb = Ok () \<and> f xhc1 = Some (Ok z) \<or>
        (\<exists>m. transfer_result_ok trb = Err m \<and> g xhc1 = Some (Ok z))))"
  by (simp add: on_keyboard_transfer_def turns)

lemma with_port_Ok [turns]: "with_port xhc port f = Some (Ok z) \<longleftrightarrow>
    (\<exists>p. portsc_get (portsc (xregs xhc)) port = Some p \<and> f p = Some (Ok z)) \<or>
    portsc_get (portsc (xregs xhc)) port = None \<and> z = (Finished (Err ''invalid portsc''), [], xhc)"
  by (cases "portsc_get (portsc (xregs xhc)) port") (auto simp: with_port_def turns)

lemma begin_tablet_Ok:
  assumes "begin_tablet bus bx xhc slot ring dev descs evs = Some (Ok (pc', evs', xhc'))"
  shows "evs' = evs \<and> ((\<exists>j. pc' = TabletWait j) \<or> pc' = Finished (Ok ()))"
  using assms by (auto simp: begin_tablet_def stop_ok_def split: res.splits prod.splits)

lemma ask_report_Ok:
  assumes "ask_report bus bx xhc slot ring dev descs prev evs = Some (Ok (pc', evs', xhc'))"
  shows "evs' = evs \<and> ((\<exists>j ring'. pc' = ReportWait j slot ring' dev descs prev \<and> (ring_ok a ring \<longrightarrow> ring_ok a ring')) \<or>
    (\<exists>j. pc' = TabletWait j) \<or> pc' = Finished (Ok ()))"
  using assms submit_keeps [of bus xhc slot ring "report_stages (report_buf bx)" 1 _ _ _ a]
  by (auto simp: ask_report_def stages_no_links dest: begin_tablet_Ok split: res.splits prod.splits)

lemma begin_keyboard_Ok:
  assumes "begin_keyboard bus bx xhc slot ring dev descs = Some (Ok (pc', evs', xhc'))"
  shows "evs' = [] \<and> ((\<exists>j ring'. pc' = ProtocolWait j slot ring' dev descs \<and> (ring_ok a ring \<longrightarrow> ring_ok a ring')) \<or>
    (\<exists>j. pc' = TabletWait j) \<or> pc' = Finished (Ok ()))"
proof (cases "pick_interface_with_triple descs (3, 1, 1)")
  case None
  then show ?thesis using assms by (auto simp: begin_keyboard_def dest!: begin_tablet_Ok)
next
  case (Some x)
  then show ?thesis
    using assms submit_keeps [of bus xhc slot ring "set_protocol_stages (config_value (fst x)) BootProtocol" 1 _ _ _ a]
    by (cases x) (auto simp: begin_keyboard_def stages_no_links dest: begin_tablet_Ok split: res.splits prod.splits)
qed

lemma next_string_Ok:
  assumes "next_string bus bx xhc slot ring dev lang idxs = Some (Ok (pc', evs', xhc'))"
  shows "evs' = [] \<and> ((\<exists>j ring' idxs'. pc' = StringWait j slot ring' dev lang idxs' \<and> length idxs' < length idxs \<and>
      (ring_ok a ring \<longrightarrow> ring_ok a ring')) \<or>
    (\<exists>j ring'. pc' = ConfigWait j slot ring' dev \<and> (ring_ok a ring \<longrightarrow> ring_ok a ring')) \<or> (\<exists>m. pc' = Finished (Err m)))"
  using assms
proof (induction idxs)
  case Nil
  then show ?case
    by (auto simp: turns request_config_descriptor_def request_descriptor_def dest: control_in_keeps)
next
  case (Cons idx idxs)
  then show ?case
    by (fastforce simp: turns request_string_descriptor_def request_descriptor_def dest: control_in_keeps split: if_splits)
qed

fun strings_ok :: "run_pc \<Rightarrow> bool" where
  "strings_ok (StringWait i slot ring dev lang idxs) \<longleftrightarrow> length idxs \<le> 2" | "strings_ok _ \<longleftrightarrow> True"

text \<open>The steps before the drivers: a short name for the rule with the ring in one of the two shapes.\<close>

lemma check_power_Ok:
  assumes "check_power bus p xhc port = Some (Ok (pc', evs', xhc'))"
  shows "evs' = [] \<and> (pc' = PowerWait port \<or> pc' = ResetWait port \<or> (\<exists>i. pc' = SlotWait i port) \<or> (\<exists>m. pc' = Finished (Err m)))"
  using assms
  by (auto simp: check_power_def check_reset_def port_enabled_def turns Let_def split: prod.splits if_splits)

lemma check_reset_Ok:
  assumes "check_reset bus p xhc port = Some (Ok (pc', evs', xhc'))"
  shows "evs' = [] \<and> (pc' = ResetWait port \<or> (\<exists>i. pc' = SlotWait i port) \<or> (\<exists>m. pc' = Finished (Err m)))"
  using assms
  by (auto simp: check_reset_def port_enabled_def turns Let_def split: prod.splits if_splits)

lemma address_endpoint_ring:
  assumes "address_endpoint bus p addr ic d = Ok (ring, ic', d')"
  shows "ring_ok addr ring"
  using assms CommandRing_default_inv [of addr]
  by (auto simp: address_endpoint_def split_def Let_def ring_ok_def res_simps)

lemma address_device_ring:
  assumes "address_device bus xhc port slot out_ctx addr in_ctx = Ok (i, ring, ic, xhc')"
  shows "ring_ok addr ring"
  using assms by (auto simp: address_device_def res_simps dest: address_endpoint_ring)

section \<open>The refinement\<close>

lemma run_poll_flow:
  assumes "run_poll bus mem bx pc xhc = Some (Ok (pc', evs, xhc'))" "strings_ok pc"
  shows "strings_ok pc' \<and>
    (pc' = pc \<and> evs = [] \<and> (\<forall>i. awaits pc = Some i \<longrightarrow> fst (poll_future i xhc) = None) \<or> flow (ctrl_ring bx) pc evs pc')"
proof (cases pc)
  case (PowerWait port)
  then show ?thesis
    using assms by (auto simp: turns intro: flow.intros dest!: check_power_Ok)
next
  case (ResetWait port)
  then show ?thesis
    using assms by (auto simp: turns intro: flow.intros dest!: check_reset_Ok)
next
  case (SlotWait i port)
  then show ?thesis
    using assms by (auto simp: turns intro!: flow.intros dest: address_device_ring)
next
  case (AddressWait i slot ring)
  then show ?thesis
    using assms by (auto simp: turns request_device_descriptor_def request_descriptor_def intro!: flow.intros dest: control_in_keeps)
next
  case (DeviceWait i slot ring)
  then show ?thesis
    using assms by (auto simp: turns stop_ok_def request_string_descriptor_zero_def request_descriptor_def Let_def
        intro!: flow.intros dest: control_in_keeps)
next
  case (LangWait i slot ring dev)
  then show ?thesis
    using assms by (auto simp: turns stop_ok_def simp del: next_string.simps intro!: flow.intros dest!: next_string_Ok [where a = "ctrl_ring bx"])
next
  case (StringWait i slot ring dev lang idxs)
  then show ?thesis
    using assms by (auto simp: turns simp del: next_string.simps intro!: flow.intros dest!: next_string_Ok [where a = "ctrl_ring bx"])
next
  case (ConfigWait i slot ring dev)
  then show ?thesis
    using assms by (auto simp: turns Let_def request_config_rest_def request_descriptor_def
        intro!: flow.intros dest: control_in_keeps)
next
  case (RestWait i slot ring dev len)
  then show ?thesis
    using assms by (auto simp: turns intro!: flow.intros dest!: begin_keyboard_Ok [where a = "ctrl_ring bx"])
next
  case (ProtocolWait i slot ring dev descs)
  then show ?thesis
    using assms by (auto simp: turns intro!: flow.intros dest!: begin_tablet_Ok ask_report_Ok [where a = "ctrl_ring bx"])
next
  case (ReportWait i slot ring dev descs prev)
  then show ?thesis
    using assms by (auto simp: turns intro!: flow.intros dest!: begin_tablet_Ok ask_report_Ok [where a = "ctrl_ring bx"])
next
  case (TabletWait i)
  then show ?thesis
    using assms by (auto simp: turns stop_ok_def intro!: flow.intros split: res.splits)
next
  case (Finished r)
  then show ?thesis using assms by auto
qed

section \<open>Runs\<close>

text \<open>
  \<open>driven bus mem bx pc log n\<close>: after its first poll and any number of polls, each with whatever controller the
  other tasks and the hardware have left, the task waits at \<open>pc\<close>, has logged \<open>log\<close>, and has left \<open>n\<close> control
  points, not counting the rounds of the report loop.
\<close>

inductive driven :: "'d bus \<Rightarrow> ('d \<Rightarrow> u64 \<Rightarrow> nat \<Rightarrow> u8 list) \<Rightarrow> run_boxes \<Rightarrow> run_pc \<Rightarrow> key_log \<Rightarrow> nat \<Rightarrow> bool"
  for bus mem bx where
  start: "run_start bus bx xhc = Some (Ok (pc, evs, xhc')) \<Longrightarrow> driven bus mem bx pc evs 0"
| poll: "\<lbrakk>driven bus mem bx pc log n; run_poll bus mem bx pc xhc = Some (Ok (pc', evs, xhc'))\<rbrakk>
    \<Longrightarrow> driven bus mem bx pc' (log @ evs) (if pc' = pc \<or> reporting pc \<and> reporting pc' then n else Suc n)"

lemma run_start_Ok:
  assumes "run_start bus bx xhc = Some (Ok (pc, evs, xhc'))"
  shows "evs = [] \<and> strings_ok pc \<and> ring_of pc = None \<and> \<not> reporting pc"
  using assms by (auto simp: run_start_def stop_ok_def turns Let_def split: prod.splits option.splits dest!: check_power_Ok)

definition log_ok :: "run_pc \<Rightarrow> key_log \<Rightarrow> bool" where
  "log_ok pc log \<longleftrightarrow> (rank pc < 12 \<longrightarrow> log = []) \<and> ((\<exists>m. pc = Finished (Err m)) \<longrightarrow> log = []) \<and>
     (\<forall>i slot ring dev descs prev. pc = ReportWait i slot ring dev descs prev \<longrightarrow> replay {} log = set prev)"

lemma reporting_rank: "reporting pc \<Longrightarrow> rank pc = 12"
  by (cases pc) auto

lemma rank_ring: "rank pc = 12 \<longrightarrow> reporting pc" "rank pc \<le> 14"
  by (cases pc; simp)+

lemma flow_progress:
  assumes "flow a pc evs pc'"
  shows "rank pc < rank pc' \<or> reporting pc \<and> reporting pc'"
  using assms by (cases) auto

lemma flow_ring:
  assumes "flow a pc evs pc'" "\<And>ring. ring_of pc = Some ring \<Longrightarrow> ring_ok a ring" "ring_of pc' = Some ring'"
  shows "ring_ok a ring'"
  using assms by cases (auto split: option.splits)

lemma flow_log:
  assumes "flow a pc evs pc'" "log_ok pc log"
  shows "log_ok pc' (log @ evs)"
  using assms(1)
proof cases
  case forward
  then show ?thesis using assms(2) by (auto simp: log_ok_def)
next
  case (report prev bytes pressed ring ring' i slot dev descs j)
  obtain evs' where "keyboard_round prev bytes = Ok (evs', pressed_keys bytes)"
      "replay (set prev) evs' = set (pressed_keys bytes)"
    using keyboard_round_spec by blast
  then have "replay (set prev) evs = set pressed" using report by simp
  moreover have "replay {} log = set prev" using report assms(2) by (auto simp: log_ok_def)
  ultimately show ?thesis using report by (simp add: log_ok_def replay_append)
qed (use assms(2) in \<open>auto simp: log_ok_def replay_def\<close>)

lemma driven_inv:
  assumes "driven bus mem bx pc log n"
  shows "strings_ok pc \<and> n \<le> rank pc \<and> log_ok pc log \<and> (\<forall>ring. ring_of pc = Some ring \<longrightarrow> ring_ok (ctrl_ring bx) ring)"
  using assms
proof induction
  case (start xhc pc evs xhc')
  then show ?case using run_start_Ok [OF start] by (auto simp: log_ok_def)
next
  case (poll pc log n xhc pc' evs xhc')
  then consider "strings_ok pc'" "pc' = pc" "evs = []" | "strings_ok pc'" "flow (ctrl_ring bx) pc evs pc'"
    using run_poll_flow by blast
  then show ?case
  proof cases
    case 1
    then show ?thesis using poll by simp
  next
    case 2
    then show ?thesis
      using poll flow_ring [OF 2(2)] flow_log [OF 2(2)] flow_progress [OF 2(2)] reporting_rank by fastforce
  qed
qed

section \<open>Polls that do not fault\<close>

definition carries_on :: "'a res option \<Rightarrow> bool" where
  "carries_on z \<longleftrightarrow> (\<exists>x. z = Some (Ok x))"

named_theorems carry \<open>parts of a poll that neither fault nor hang\<close>

lemma carries_on_Ok [carry]: "carries_on (Some (Ok x))" "carries_on (stop_ok xhc evs)"
  by (simp_all add: carries_on_def stop_ok_def)

lemma or_fail_carry [carry]:
  assumes "no_fault r" "\<And>a. r = Ok a \<Longrightarrow> carries_on (f a)"
  shows "carries_on (or_fail xhc r f)"
  using assms by (cases r) (auto simp: or_fail_def carries_on_def)

lemma result_case_carry [carry]:
  assumes "no_fault r" "\<And>u. carries_on (f u)" "\<And>m. carries_on (g m)"
  shows "carries_on (case r of Ok u \<Rightarrow> f u | Err m \<Rightarrow> g m | Panic m \<Rightarrow> Some (Panic m) | UB \<Rightarrow> Some UB)"
  using assms by (cases r) auto

lemma result_ok_no_fault [carry]: "no_fault (transfer_result_ok trb)" "no_fault (cmd_result_ok trb)"
  by (simp_all add: transfer_result_ok_def cmd_result_ok_def trb_type_def completion_code_def read_bits_eq)

lemma on_event_carry [carry]:
  assumes "\<And>trb xhc1. poll_future i xhc = (Some trb, xhc1) \<Longrightarrow> carries_on (f trb xhc1)"
  shows "carries_on (on_event pc i xhc f)"
  using assms by (auto simp: on_event_def carries_on_def split: prod.split option.split)

lemma on_transfer_carry [carry]:
  assumes "\<And>trb xhc1. poll_future i xhc = (Some trb, xhc1) \<Longrightarrow> carries_on (f xhc1)"
  shows "carries_on (on_transfer pc i xhc f)"
  unfolding on_transfer_def using assms by (intro carry)

lemma on_keyboard_transfer_carry [carry]:
  assumes "\<And>trb xhc1. poll_future i xhc = (Some trb, xhc1) \<Longrightarrow> carries_on (g xhc1)"
      "\<And>trb xhc1. poll_future i xhc = (Some trb, xhc1) \<Longrightarrow> carries_on (f xhc1)"
  shows "carries_on (on_keyboard_transfer pc i xhc g f)"
  unfolding on_keyboard_transfer_def using assms by (intro on_event_carry result_case_carry result_ok_no_fault)

lemma control_in_no_fault [carry]:
  assumes "ring_ok a ring"
  shows "no_fault (control_in bus xhc slot ring (SetupStageTrb_new q b v x l) buf len)"
  by (rule submit_cases [OF assms, of "[trb_from_setup (SetupStageTrb_new q b v x l), DataStageTrb_new_in buf len,
      StatusStageTrb_new_out]" 1 bus xhc slot])
    (auto simp: control_in_submit lose_ring_def no_links_def control_types)

lemma begin_tablet_carry [carry]:
  assumes "ring_ok a ring"
  shows "carries_on (begin_tablet bus bx xhc slot ring dev descs evs)"
proof -
  have "no_fault (start_usb_tablet bus xhc slot ring dev descs (report_desc_buf bx))"
    using control_in_no_fault [OF assms]
    by (cases "pick_interface_with_triple descs (3, 0, 0)")
      (auto simp: start_usb_tablet_def request_hid_report_descriptor_def request_descriptor_for_interface_def)
  then show ?thesis
    by (auto simp: begin_tablet_def carries_on_def stop_ok_def no_fault_def split: res.splits prod.splits)
qed

lemma submit_carry:
  assumes "ring_ok a ring" "no_links ts" "k < length ts"
    "\<And>ring1 xhc1 i. ring_ok a ring1 \<Longrightarrow> carries_on (f ring1 xhc1 i)"
    "\<And>ring1 xhc1. ring_ok a ring1 \<Longrightarrow> carries_on (g ring1 xhc1)"
  shows "carries_on (case submit bus xhc slot ring ts k of (r, ring1, xhc1) \<Rightarrow>
      case r of Ok i \<Rightarrow> f ring1 xhc1 i | Err m \<Rightarrow> g ring1 xhc1 | Panic m \<Rightarrow> Some (Panic m) | UB \<Rightarrow> Some UB)"
  by (rule submit_cases [OF assms(1-3), of bus xhc slot]) (use assms(4,5) in auto)

lemma ask_report_carry [carry]:
  assumes "ring_ok a ring"
  shows "carries_on (ask_report bus bx xhc slot ring dev descs prev evs)"
  unfolding ask_report_def using assms
  by (intro submit_carry carry) (simp_all add: stages_no_links)

lemma begin_keyboard_carry [carry]:
  assumes "ring_ok a ring"
  shows "carries_on (begin_keyboard bus bx xhc slot ring dev descs)"
proof (cases "pick_interface_with_triple descs (3, 1, 1)")
  case None
  then show ?thesis using begin_tablet_carry [OF assms] by (simp add: begin_keyboard_def)
next
  case (Some x)
  obtain c i eps where x: "x = (c, i, eps)" by (cases x)
  show ?thesis
    unfolding begin_keyboard_def Some x option.case prod.case using assms
    by (intro submit_carry carry) (simp_all add: stages_no_links)
qed

lemma next_string_carry [carry]:
  assumes "ring_ok a ring"
  shows "carries_on (next_string bus bx xhc slot ring dev lang idxs)"
proof (induction idxs)
  case Nil
  then show ?case
    using control_in_no_fault [OF assms]
    by (auto simp: request_config_descriptor_def request_descriptor_def intro!: or_fail_carry carries_on_Ok)
next
  case (Cons idx idxs)
  then show ?case
    using control_in_no_fault [OF assms]
    by (auto simp: request_string_descriptor_def request_descriptor_def intro!: or_fail_carry carries_on_Ok)
qed

lemma poll_future_xdev: "poll_future i xhc = (r, xhc1) \<Longrightarrow> xdev xhc1 = xdev xhc"
  by (auto simp: poll_future_def split: prod.splits)

lemma run_poll_carry:
  assumes "ring_of pc = Some ring" "ring_ok a ring"
    "\<And>i slot ring' dev len. pc = RestWait i slot ring' dev len \<Longrightarrow>
       \<exists>bs. mem (xdev xhc) (rest_buf bx) len = concat bs \<and> list_all chunk_ok bs"
  shows "carries_on (run_poll bus mem bx pc xhc)"
proof (cases pc)
  case (AddressWait i slot ring')
  then show ?thesis
    using assms control_in_no_fault [OF assms(2)]
    by (auto simp: request_device_descriptor_def request_descriptor_def intro!: carry)
next
  case (DeviceWait i slot ring')
  then show ?thesis
    using assms control_in_no_fault [OF assms(2)]
    by (auto simp: Let_def request_string_descriptor_zero_def request_descriptor_def
        intro!: on_transfer_carry result_case_carry carries_on_Ok)
next
  case (LangWait i slot ring' dev)
  then show ?thesis
    using assms
    by (auto simp del: next_string.simps intro!: on_event_carry result_case_carry result_ok_no_fault next_string_carry carries_on_Ok)
next
  case (StringWait i slot ring' dev lang idxs)
  then show ?thesis using assms by (auto intro!: on_transfer_carry next_string_carry)
next
  case (ConfigWait i slot ring' dev)
  then show ?thesis
    using assms control_in_no_fault [OF assms(2)]
    by (auto simp: Let_def request_config_rest_def request_descriptor_def intro!: or_fail_carry on_transfer_carry carries_on_Ok)
next
  case (RestWait i slot ring' dev len)
  obtain bs where bs: "mem (xdev xhc) (rest_buf bx) len = concat bs" "list_all chunk_ok bs" using assms(3) RestWait by blast
  then show ?thesis
    using assms RestWait by (auto simp: poll_future_xdev collect_chunks intro!: on_transfer_carry begin_keyboard_carry)
next
  case (ProtocolWait i slot ring' dev descs)
  then show ?thesis using assms by (auto intro!: on_keyboard_transfer_carry begin_tablet_carry ask_report_carry)
next
  case (ReportWait i slot ring' dev descs prev)
  have r: "\<exists>evs. keyboard_round prev r = Ok (evs, pressed_keys r)" for r using keyboard_round_spec by blast
  show ?thesis
    unfolding ReportWait run_poll.simps
  proof (intro on_keyboard_transfer_carry begin_tablet_carry)
    show "ring_ok a ring'" using assms ReportWait by simp
    then show "carries_on (and_then_opt (Some (keyboard_round prev (mem (xdev xhc1) (report_buf bx) 8)))
        (\<lambda>(evs, pressed). ask_report bus bx xhc1 slot ring' dev descs pressed evs))" for xhc1
      using r [of "mem (xdev xhc1) (report_buf bx) 8"] ask_report_carry by fastforce
  qed
qed (use assms in simp_all)

end
