(* ===== verification/Driver_Theorems.thy ===== *)
theory Driver_Theorems
  imports Driver_Script
begin

text \<open>
  The properties of the asynchronous task of the USB driver, and the run that their witnesses are about: a
  controller that answers every request of the task, up to the first key.
\<close>

section \<open>A run to the first key\<close>

definition demo_config :: "u8 list list" where
  "demo_config = [[9, 2, 18, 0, 1, 1, 0, 0, 50], [9, 4, 0, 0, 0, 3, 1, 1, 0]]"

definition run_mem :: "unit \<Rightarrow> u64 \<Rightarrow> nat \<Rightarrow> u8 list" where
  "run_mem d a n =
     (if a = 0x5000 then hd demo_config else if a = 0x6000 then concat demo_config
      else if a = 0x7000 then [0, 0, 4, 0, 0, 0, 0, 0] else replicate n 0)"

definition demo_boxes :: run_boxes where
  "demo_boxes = \<lparr>output_ctx = 0x1000, input_ctx = 0x2000, ctrl_ring = 0x8000, device_buf = 0x3000, lang_buf = 0x4000,
     string_buf = 0x4100, config_buf = 0x5000, rest_buf = 0x6000, report_buf = 0x7000, report_desc_buf = 0x9000\<rparr>"

text \<open>A controller whose waiter \<open>i\<close> has got the event \<open>trb\<close>.\<close>

definition answered :: "CommandRing \<Rightarrow> nat \<Rightarrow> GenericTrbEntry \<Rightarrow> unit Controller" where
  "answered cr i trb = \<lparr>xregs = demo_regs, device_context_base_array = DCBAA_new 0 \<lparr>scratch_table = 0, scratch_bufs = []\<rparr>,
     primary_event_ring = \<lparr>ev_ring = TrbRing_new 0, erst_base = 0, erst_size = 16, erst_addr = 0, ev_cycle_ours = True,
       erdp = None, wait_list = [\<lparr>wait_id = i, wait_cond = EventWaitCond_default, wait_trbs = [trb], wait_alive = True\<rparr>],
       next_wait_id = Suc i\<rparr>,
     command_ring = cr, xdev = ()\<rparr>"

definition done_trb :: GenericTrbEntry where
  "done_trb = \<lparr>trb_data = 0, trb_option = 0x01000000, trb_control = 0x01008000\<rparr>"

definition cmd_done_trb :: GenericTrbEntry where
  "cmd_done_trb = \<lparr>trb_data = 0, trb_option = 0x01000000, trb_control = 0x01008400\<rparr>"

lemma done_trbs: "transfer_result_ok done_trb = Ok ()" "cmd_result_ok cmd_done_trb = Ok ()" "slot_id cmd_done_trb = Ok 1"
  by (simp_all add: transfer_result_ok_def cmd_result_ok_def slot_id_def trb_type_def completion_code_def read_bits_eq
      done_trb_def cmd_done_trb_def get_field_def)

lemma answered_poll:
  "\<exists>xhc1. poll_future i (answered cr i trb) = (Some trb, xhc1) \<and> xregs xhc1 = demo_regs \<and> command_ring xhc1 = cr \<and>
     dcbaa_ptrs (device_context_base_array xhc1) = replicate 255 0 \<and>
     dcbaa_context (device_context_base_array xhc1) = replicate 255 None"
  by (simp add: answered_def poll_future_def EventFuture_poll_def Let_def DCBAA_new_def)

lemma demo_submit:
  assumes "ring_ok a ring" "no_links ts" "k < length ts" "xregs xhc = demo_regs"
  shows "\<exists>i ring1 xhc1. submit bus xhc 1 ring ts k = (Ok i, ring1, xhc1) \<and> ring_ok a ring1"
  using submit_inv [OF assms(1-3), of bus xhc 1] assms(4) by (auto simp: demo_regs_def)

lemma demo_request:
  assumes "ring_ok a ring" "xregs xhc = demo_regs"
  shows "\<exists>i ring1 xhc1. control_in bus xhc 1 ring (SetupStageTrb_new q b v x l) buf len = Ok (i, ring1, xhc1) \<and> ring_ok a ring1"
  using demo_submit [OF assms(1) _ _ assms(2), where k = 1 and bus = bus and ts = "[trb_from_setup (SetupStageTrb_new q b v x l),
      DataStageTrb_new_in buf len, StatusStageTrb_new_out]"]
  by (auto simp: control_in_submit lose_ring_def no_links_def control_types)

lemma demo_commands:
  assumes "ring_inv (command_ring xhc) []" "xregs xhc = demo_regs" "ty_of cmd \<noteq> trb_type_code Link"
  shows "\<exists>i xhc1. send_command bus xhc cmd = Ok (i, xhc1)"
  using push_inv [OF assms(1,3)] assms(2) by (auto simp: send_command_def notify_xhc_def demo_regs_def)

lemma demo_start:
  "\<exists>i. driven demo_port_bus run_mem demo_boxes (SlotWait i 1) [] 0"
proof -
  obtain cr where "ring_inv cr []" using CommandRing_default_inv by blast
  then obtain i xhc1 where s: "send_command demo_port_bus (answered cr 0 done_trb) \<lparr>trb_data = 0, trb_option = 0, trb_control = 0x2400\<rparr> = Ok (i, xhc1)"
    using demo_commands [where bus = demo_port_bus, of "answered cr 0 done_trb" "\<lparr>trb_data = 0, trb_option = 0, trb_control = 0x2400\<rparr>"]
    by (auto simp: answered_def ty_of_def get_field_def)
  have e: "cmd_enable_slot = Ok \<lparr>trb_data = 0, trb_option = 0, trb_control = 0x2400\<rparr>"
    by code_simp
  have "run_start demo_port_bus demo_boxes (answered cr 0 done_trb) = Some (Ok (SlotWait i 1, [], xhc1))"
    using s by (simp add: e run_start_def answered_def demo_regs_def demo_port_bus_def demo_bus_def port_range_def
        portsc_get_def portsc_ccs_def portsc_bit_def portsc_assert_bit_def with_port_def check_power_def check_reset_def
        port_enabled_def is_enabled_def portsc_pp_def portsc_ped_def portsc_pr_def or_fail_def Let_def)
  then show ?thesis by (blast intro: driven.start)
qed

lemma demo_address:
  assumes "xregs xhc = demo_regs" "ring_inv (command_ring xhc) []"
    "dcbaa_ptrs (device_context_base_array xhc) = replicate 255 0"
    "dcbaa_context (device_context_base_array xhc) = replicate 255 None"
  shows "\<exists>i ring ic xhc1. address_device demo_port_bus xhc 1 1 0x1000 0x8000 0x2000 = Ok (i, ring, ic, xhc1)"
proof -
  obtain a where a: "set_output_context_for_slot xhc 1 0x1000 = Ok (xhc\<lparr>device_context_base_array := a\<rparr>)"
    using assms(3,4) by (simp add: set_output_context_for_slot_def set_output_context_def sub_u_def expect_some_def)
  obtain ic where ic: "address_input_context 1 = Ok ic" "ep_ctx (device_ctx ic) \<noteq> []"
    by (auto simp: address_input_context_eq)
  have sp: "port_speed demo_port_bus 0xF0000440 () = (HighSpeed, ())"
    by (simp add: port_speed_def demo_port_bus_def port_speed_of_def extract_bits_eq Let_def)
  obtain r where r: "CommandRing_default 0x8000 = Ok r" using CommandRing_default_inv by blast
  obtain ep where ep: "new_control_endpoint 64 (ring_phys_addr r) = Ok ep" using new_control_endpoint_eq by blast
  obtain ring ic' d' where e: "address_endpoint demo_port_bus 0xF0000440 0x8000 ic () = Ok (ring, ic', d')"
    using ic(2) sp r ep
    by (auto simp: address_endpoint_def set_port_speed_lost set_ep_ctx_def sub_u_def upd_slot_def)
  have cmd: "cmd_address_device 0x2000 1 = Ok \<lparr>trb_data = 0x2000, trb_option = 0, trb_control = 0x1002C00\<rparr>"
    by code_simp
  obtain i xhc1 where s: "send_command demo_port_bus (xhc\<lparr>device_context_base_array := a, xdev := d'\<rparr>)
      \<lparr>trb_data = 0x2000, trb_option = 0, trb_control = 0x1002C00\<rparr> = Ok (i, xhc1)"
    using demo_commands [where bus = demo_port_bus, of "xhc\<lparr>device_context_base_array := a, xdev := d'\<rparr>"
        "\<lparr>trb_data = 0x2000, trb_option = 0, trb_control = 0x1002C00\<rparr>"] assms(1,2)
    by (auto simp: ty_of_def get_field_def)
  show ?thesis
    using a ic e cmd s assms(1) by (simp add: address_device_def demo_regs_def portsc_get_def)
qed

text \<open>One poll of a run, with the event that the task waits for.\<close>

lemma demo_poll:
  assumes "driven demo_port_bus run_mem demo_boxes pc log n"
    "run_poll demo_port_bus run_mem demo_boxes pc (answered cr i trb) = Some (Ok (pc', evs, xhc'))"
  shows "\<exists>n. driven demo_port_bus run_mem demo_boxes pc' (log @ evs) n"
  using driven.poll [OF assms] by blast

lemmas demo_steps = on_event_def on_transfer_def on_keyboard_transfer_def or_fail_def done_trbs Let_def

lemma demo_addressed:
  "\<exists>i ring n. driven demo_port_bus run_mem demo_boxes (DeviceWait i 1 ring) [] n \<and> ring_ok 0x8000 ring"
proof -
  obtain cr where cr: "ring_inv cr []" using CommandRing_default_inv by blast
  obtain i0 where d0: "driven demo_port_bus run_mem demo_boxes (SlotWait i0 1) [] 0" using demo_start by blast
  obtain x0 where x0: "poll_future i0 (answered cr i0 cmd_done_trb) = (Some cmd_done_trb, x0)" "xregs x0 = demo_regs"
      "command_ring x0 = cr" "dcbaa_ptrs (device_context_base_array x0) = replicate 255 0"
      "dcbaa_context (device_context_base_array x0) = replicate 255 None"
    using answered_poll by blast
  obtain i1 ring ic x1 where a: "address_device demo_port_bus x0 1 1 0x1000 0x8000 0x2000 = Ok (i1, ring, ic, x1)"
    using demo_address [OF x0(2) _ x0(4,5)] x0(3) cr by auto
  have ok: "ring_ok 0x8000 ring" using a address_device_ring by blast
  obtain n1 where d1: "driven demo_port_bus run_mem demo_boxes (AddressWait i1 1 ring) [] n1"
    using demo_poll [OF d0, of cr i0 cmd_done_trb] x0(1) a by (auto simp: demo_steps demo_boxes_def)
  obtain x2 where x2: "poll_future i1 (answered cr i1 cmd_done_trb) = (Some cmd_done_trb, x2)" "xregs x2 = demo_regs"
    using answered_poll by blast
  obtain i2 ring2 x3 where "request_device_descriptor demo_port_bus x2 1 ring 0x3000 = Ok (i2, ring2, x3)" "ring_ok 0x8000 ring2"
    unfolding request_device_descriptor_def request_descriptor_def using demo_request [OF ok x2(2)] by blast
  then show ?thesis
    using demo_poll [OF d1, of cr i1 cmd_done_trb] x2(1) by (fastforce simp: demo_steps demo_boxes_def)
qed

text \<open>The steps of the descriptors, each a request that is queued.\<close>

lemma demo_strings:
  "\<exists>i ring dev n. driven demo_port_bus run_mem demo_boxes (ConfigWait i 1 ring dev) [] n \<and> ring_ok 0x8000 ring"
proof -
  obtain i0 ring0 n0 where d0: "driven demo_port_bus run_mem demo_boxes (DeviceWait i0 1 ring0) [] n0" "ring_ok 0x8000 ring0"
    using demo_addressed by blast
  obtain cr x0 where x0: "poll_future i0 (answered cr i0 done_trb) = (Some done_trb, x0)" "xregs x0 = demo_regs"
    using answered_poll by blast
  let ?dev = "decode_device (run_mem () 0x3000 18)"
  obtain i1 ring1 x1 where r1: "request_string_descriptor_zero demo_port_bus x0 1 ring0 0x4000 = Ok (i1, ring1, x1)" "ring_ok 0x8000 ring1"
    unfolding request_string_descriptor_zero_def request_descriptor_def using demo_request [OF d0(2) x0(2)] by blast
  obtain n1 where d1: "driven demo_port_bus run_mem demo_boxes (LangWait i1 1 ring1 ?dev) [] n1"
    using demo_poll [OF d0(1), of cr i0 done_trb] x0 r1(1) by (auto simp: demo_steps demo_boxes_def)
  obtain x2 where x2: "poll_future i1 (answered cr i1 done_trb) = (Some done_trb, x2)" "xregs x2 = demo_regs"
    using answered_poll by blast
  obtain i2 ring2 x3 where r2: "request_config_descriptor demo_port_bus x2 1 ring1 0x5000 = Ok (i2, ring2, x3)" "ring_ok 0x8000 ring2"
    unfolding request_config_descriptor_def request_descriptor_def using demo_request [OF r1(2) x2(2)] by blast
  have "manufacturer_idx ?dev = 0" "product_idx ?dev = 0" "serial_idx ?dev = 0"
    by (simp_all add: run_mem_def decode_device_def)
  then show ?thesis
    using demo_poll [OF d1, of cr i1 done_trb] x2(1) r2 by (fastforce simp: demo_steps demo_boxes_def)
qed

lemma demo_descriptors:
  "collect_descriptors (run_mem () 0x6000 18) 0 [] = Some (Ok (map decode_chunk demo_config))"
  "\<exists>c i eps. pick_interface_with_triple (map decode_chunk demo_config) (3, 1, 1) = Some (c, i, eps)"
  "list_all chunk_ok demo_config" "run_mem () 0x6000 18 = concat demo_config"
proof -
  show ok: "list_all chunk_ok demo_config" by code_simp
  show m: "run_mem () 0x6000 18 = concat demo_config" by (simp add: run_mem_def)
  show "collect_descriptors (run_mem () 0x6000 18) 0 [] = Some (Ok (map decode_chunk demo_config))"
    using collect_chunks [OF ok] m by simp
  show "\<exists>c i eps. pick_interface_with_triple (map decode_chunk demo_config) (3, 1, 1) = Some (c, i, eps)"
    by (simp add: pick_interface_with_triple_def demo_config_def decode_chunk_def decode_config_def decode_interface_def triple_def)
qed

lemma demo_rest:
  "\<exists>i ring dev n. driven demo_port_bus run_mem demo_boxes (RestWait i 1 ring dev 18) [] n \<and> ring_ok 0x8000 ring"
proof -
  obtain i0 ring0 dev n0 where d0: "driven demo_port_bus run_mem demo_boxes (ConfigWait i0 1 ring0 dev) [] n0" "ring_ok 0x8000 ring0"
    using demo_strings by blast
  obtain cr x0 where x0: "poll_future i0 (answered cr i0 done_trb) = (Some done_trb, x0)" "xregs x0 = demo_regs"
    using answered_poll by blast
  have h: "total_length (decode_config (run_mem () 0x5000 9)) = 18"
    by (simp add: run_mem_def demo_config_def total_length_def decode_config_def u16_at_def)
  obtain i1 ring1 x1 where "request_config_rest demo_port_bus x0 1 ring0 (run_mem () 0x5000 9) 0x6000 = Ok (i1, ring1, x1)" "ring_ok 0x8000 ring1"
    unfolding request_config_rest_def request_descriptor_def using demo_request [OF d0(2) x0(2)] by blast
  then show ?thesis
    using demo_poll [OF d0(1), of cr i0 done_trb] x0(1) h by (fastforce simp: demo_steps demo_boxes_def)
qed

lemma demo_protocol:
  "\<exists>i ring dev descs n. driven demo_port_bus run_mem demo_boxes (ProtocolWait i 1 ring dev descs) [] n \<and> ring_ok 0x8000 ring"
proof -
  obtain i0 ring0 dev n0 where d0: "driven demo_port_bus run_mem demo_boxes (RestWait i0 1 ring0 dev 18) [] n0" "ring_ok 0x8000 ring0"
    using demo_rest by blast
  obtain cr x0 where x0: "poll_future i0 (answered cr i0 done_trb) = (Some done_trb, x0)" "xregs x0 = demo_regs"
    using answered_poll by blast
  obtain c ifc eps where p: "pick_interface_with_triple (map decode_chunk demo_config) (3, 1, 1) = Some (c, ifc, eps)"
    using demo_descriptors(2) by blast
  obtain i1 ring1 x1 where "submit demo_port_bus x0 1 ring0 (set_protocol_stages (config_value c) BootProtocol) 1 = (Ok i1, ring1, x1)"
      "ring_ok 0x8000 ring1"
    using demo_submit [where bus = demo_port_bus, OF d0(2) _ _ x0(2), of "set_protocol_stages (config_value c) BootProtocol" 1]
    by (auto simp: stages_no_links)
  then show ?thesis
    using demo_poll [OF d0(1), of cr i0 done_trb] x0(1) p demo_descriptors(1)
    by (fastforce simp: demo_steps demo_boxes_def begin_keyboard_def)
qed

lemma demo_ask:
  assumes "ring_ok 0x8000 ring" "xregs xhc = demo_regs"
  shows "\<exists>i ring1 xhc1. ask_report demo_port_bus demo_boxes xhc 1 ring dev descs prev evs =
    Some (Ok (ReportWait i 1 ring1 dev descs prev, evs, xhc1)) \<and> ring_ok 0x8000 ring1"
  using demo_submit [where bus = demo_port_bus, OF assms(1) _ _ assms(2), of "report_stages (report_buf demo_boxes)" 1]
  by (auto simp: ask_report_def stages_no_links)

lemma demo_key:
  "\<exists>i ring dev descs n. driven demo_port_bus run_mem demo_boxes (ReportWait i 1 ring dev descs [4]) [(True, 4, KChar 97)] n \<and>
     ring_ok 0x8000 ring"
proof -
  obtain i0 ring0 dev descs n0 where d0: "driven demo_port_bus run_mem demo_boxes (ProtocolWait i0 1 ring0 dev descs) [] n0" "ring_ok 0x8000 ring0"
    using demo_protocol by blast
  obtain cr x0 where x0: "poll_future i0 (answered cr i0 done_trb) = (Some done_trb, x0)" "xregs x0 = demo_regs"
    using answered_poll by blast
  obtain i1 ring1 x1 where a1: "ask_report demo_port_bus demo_boxes x0 1 ring0 dev descs [] [] = Some (Ok (ReportWait i1 1 ring1 dev descs [], [], x1))"
      "ring_ok 0x8000 ring1"
    using demo_ask [OF d0(2) x0(2)] by blast
  obtain n1 where d1: "driven demo_port_bus run_mem demo_boxes (ReportWait i1 1 ring1 dev descs []) [] n1"
    using demo_poll [OF d0(1), of cr i0 done_trb] x0(1) a1(1) by (auto simp: demo_steps)
  obtain x2 where x2: "poll_future i1 (answered cr i1 done_trb) = (Some done_trb, x2)" "xregs x2 = demo_regs"
    using answered_poll by blast
  have k: "keyboard_round [] (run_mem () 0x7000 8) = Ok ([(True, 4, KChar 97)], [4])" by code_simp
  obtain i2 ring2 x3 where a2: "ask_report demo_port_bus demo_boxes x2 1 ring1 dev descs [4] [(True, 4, KChar 97)] =
      Some (Ok (ReportWait i2 1 ring2 dev descs [4], [(True, 4, KChar 97)], x3))" "ring_ok 0x8000 ring2"
    using demo_ask [OF a1(2) x2(2)] by blast
  then show ?thesis
    using demo_poll [OF d1, of cr i1 done_trb] x2(1) k by (fastforce simp: demo_steps demo_boxes_def)
qed

section \<open>Properties\<close>

text \<open>The keyboard driver of the task begins as \<^verbatim>\<open>start_usb_keyboard\<close> does.\<close>

lemma begin_keyboard_start:
  assumes "start_usb_keyboard bus xhc slot ring descs = Ok (i, ring1, xhc1)"
  shows "begin_keyboard bus bx xhc slot ring dev descs = Some (Ok (ProtocolWait i slot ring1 dev descs, [], xhc1))"
proof -
  obtain c ifc eps where p: "pick_interface_with_triple descs (3, 1, 1) = Some (c, ifc, eps)"
      "lose_ring (submit bus xhc slot ring (set_protocol_stages (config_value c) BootProtocol) 1) = Ok (i, ring1, xhc1)"
    using assms by (auto simp: start_usb_keyboard_def res_simps request_set_protocol_def control_no_data_submit set_protocol_stages_def)
  then show ?thesis by (auto simp: begin_keyboard_def lose_ring_def res_simps split: prod.splits)
qed





text \<open>
  Property C22 (invariant). The log tells the keys: in every run, when the task waits for a report, replaying all
  key events it has logged gives exactly the keys of the last report; before the report loop, and when the task
  ended with an error, nothing was logged.
\<close>

theorem key_log_follows_reports:
  assumes "driven bus mem bx pc log n"
  shows "(\<forall>i slot ring dev descs prev. pc = ReportWait i slot ring dev descs prev \<longrightarrow> replay {} log = set prev) \<and>
    (rank pc < 12 \<longrightarrow> log = []) \<and> (\<forall>m. pc = Finished (Err m) \<longrightarrow> log = [])"
  using driven_inv [OF assms] unfolding log_ok_def by blast

theorem key_log_follows_reports_witness:
  "\<exists>i ring dev descs n. driven demo_port_bus run_mem demo_boxes (ReportWait i 1 ring dev descs [4]) [(True, 4, KChar 97)] n \<and>
     replay {} [(True, 4, KChar 97)] = {4}"
proof -
  obtain i ring dev descs n
    where d: "driven demo_port_bus run_mem demo_boxes (ReportWait i 1 ring dev descs [4]) [(True, 4, KChar 97)] n"
    using demo_key by blast
  have "replay {} [(True, 4, KChar 97)] = set [4]"
    using conjunct1 [OF key_log_follows_reports [OF d], rule_format, OF refl] .
  then have "replay {} [(True, 4, KChar 97)] = {4}" by simp
  with d show ?thesis by (intro exI conjI)
qed



text \<open>
  The completion code of Enable Slot is not looked at: an event with slot 0, as a controller
  without free slots sends it, makes the task panic instead of ending it with an error, whatever the code.
\<close>

theorem enable_slot_failure_panics:
  assumes "poll_future i xhc = (Some trb, xhc1)" "slot_id trb = Ok 0"
  shows "run_poll bus mem bx (SlotWait i port) xhc = Some (Panic ''attempt to subtract with overflow'')"
  using assms
  by (simp add: on_event_def or_fail_def address_device_def set_output_context_for_slot_def set_output_context_def sub_u_def)

theorem enable_slot_failure_panics_witness:
  "\<exists>cr. cmd_result_ok \<lparr>trb_data = 0, trb_option = 0x09000000, trb_control = 0x8400\<rparr> = Err ''CompletionCode was not Success'' \<and>
     run_poll demo_port_bus run_mem demo_boxes (SlotWait 7 1) (answered cr 7 \<lparr>trb_data = 0, trb_option = 0x09000000, trb_control = 0x8400\<rparr>)
       = Some (Panic ''attempt to subtract with overflow'')"
proof -
  let ?t = "\<lparr>trb_data = 0, trb_option = 0x09000000, trb_control = 0x8400\<rparr> :: GenericTrbEntry"
  obtain cr x1 where x1: "poll_future 7 (answered cr 7 ?t) = (Some ?t, x1)" using answered_poll by blast
  have t: "slot_id ?t = Ok 0" "cmd_result_ok ?t = Err ''CompletionCode was not Success''"
    by (simp_all add: slot_id_def cmd_result_ok_def trb_type_def completion_code_def read_bits_eq get_field_def)
  show ?thesis using enable_slot_failure_panics [OF x1 t(1)] t(2) by blast
qed

end
