(* ===== verification/Usb_Strings.thy ===== *)
theory Usb_Strings
  imports Usb
begin

text \<open>
  The text of a string descriptor: \<^verbatim>\<open>String::from_utf8_lossy(&buf[2..])\<close> without NUL characters. Characters are
  their code points. The decoder follows \<^verbatim>\<open>core::str::Utf8Chunks\<close>: a character, or the longest prefix of one that
  is cut short by a wrong byte, which becomes U+FFFD.
\<close>

section \<open>Decoding UTF-8\<close>

definition utf8_char_width :: "nat \<Rightarrow> nat" where
  "utf8_char_width b =
     (if b < 0x80 then 1 else if 0xC2 \<le> b \<and> b \<le> 0xDF then 2
      else if 0xE0 \<le> b \<and> b \<le> 0xEF then 3 else if 0xF0 \<le> b \<and> b \<le> 0xF4 then 4 else 0)"

text \<open>\<open>safe_get bs i\<close> is 0 past the end.\<close>

definition safe_get :: "u8 list \<Rightarrow> nat \<Rightarrow> nat" where
  "safe_get bs i = (if i < length bs then unat (bs ! i) else 0)"

definition cont_byte :: "nat \<Rightarrow> bool" where
  "cont_byte b \<longleftrightarrow> 0x80 \<le> b \<and> b \<le> 0xBF"

definition second_of_three :: "nat \<Rightarrow> nat \<Rightarrow> bool" where
  "second_of_three b c \<longleftrightarrow>
     (if b = 0xE0 then 0xA0 \<le> c \<and> c \<le> 0xBF else if b = 0xED then 0x80 \<le> c \<and> c \<le> 0x9F else cont_byte c)"

definition second_of_four :: "nat \<Rightarrow> nat \<Rightarrow> bool" where
  "second_of_four b c \<longleftrightarrow>
     (if b = 0xF0 then 0x90 \<le> c \<and> c \<le> 0xBF else if b = 0xF4 then 0x80 \<le> c \<and> c \<le> 0x8F else cont_byte c)"

text \<open>The bits of a continuation byte appended to those before.\<close>

definition more_bits :: "nat \<Rightarrow> nat \<Rightarrow> nat" where
  "more_bits v b = v * 64 + (b - 0x80)"

text \<open>The first piece of a text that is not empty: its character, or none, and its bytes.\<close>

definition utf8_step :: "u8 list \<Rightarrow> nat option \<times> nat" where
  "utf8_step bs =
     (let b = safe_get bs 0; c1 = safe_get bs 1; c2 = safe_get bs 2; c3 = safe_get bs 3 in
      if utf8_char_width b = 1 then (Some b, 1)
      else if utf8_char_width b = 2
      then if cont_byte c1 then (Some (more_bits (b - 0xC0) c1), 2) else (None, 1)
      else if utf8_char_width b = 3
      then if \<not> second_of_three b c1 then (None, 1) else if \<not> cont_byte c2 then (None, 2)
           else (Some (more_bits (more_bits (b - 0xE0) c1) c2), 3)
      else if utf8_char_width b = 4
      then if \<not> second_of_four b c1 then (None, 1) else if \<not> cont_byte c2 then (None, 2)
           else if \<not> cont_byte c3 then (None, 3)
           else (Some (more_bits (more_bits (more_bits (b - 0xF0) c1) c2) c3), 4)
      else (None, 1))"

lemma utf8_step_pos: "0 < snd (utf8_step bs)"
  by (simp add: utf8_step_def Let_def)

definition REPLACEMENT :: nat where
  "REPLACEMENT = 0xFFFD"

function from_utf8_lossy :: "u8 list \<Rightarrow> nat list" where
  "from_utf8_lossy bs =
     (if bs = [] then []
      else (case utf8_step bs of (c, n) \<Rightarrow> (case c of None \<Rightarrow> REPLACEMENT | Some c \<Rightarrow> c) # from_utf8_lossy (drop n bs)))"
  by pat_completeness auto
termination
proof (relation "measure length")
  fix bs :: "u8 list" and c n
  assume "bs \<noteq> []" "(c, n) = utf8_step bs"
  then have "0 < n" "bs \<noteq> []" using utf8_step_pos [of bs] by (metis snd_conv)+
  then show "(drop n bs, bs) \<in> measure length" by simp
qed simp

declare from_utf8_lossy.simps [simp del]

text \<open>What \<^verbatim>\<open>request_string_descriptor\<close> makes of its buffer.\<close>

definition descriptor_string :: "u8 list \<Rightarrow> nat list" where
  "descriptor_string buf = filter (\<lambda>c. c \<noteq> 0) (from_utf8_lossy (drop 2 buf))"

section \<open>Characters\<close>

text \<open>What the type \<^verbatim>\<open>char\<close> of Rust holds.\<close>

definition scalar_value :: "nat \<Rightarrow> bool" where
  "scalar_value c \<longleftrightarrow> c < 0xD800 \<or> 0xE000 \<le> c \<and> c < 0x110000"

lemma two_scalar:
  assumes "b \<le> 0xDF" "cont_byte c1"
  shows "scalar_value (more_bits (b - 0xC0) c1)"
proof -
  have "b - 0xC0 \<le> 31" "c1 - 0x80 \<le> 63" using assms unfolding cont_byte_def by linarith+
  then show ?thesis unfolding scalar_value_def more_bits_def by linarith
qed

lemma three_scalar:
  assumes "0xE0 \<le> b" "b \<le> 0xEF" "second_of_three b c1" "cont_byte c2"
  shows "scalar_value (more_bits (more_bits (b - 0xE0) c1) c2)"
proof -
  define x y z where "x = b - 0xE0" "y = c1 - 0x80" "z = c2 - 0x80"
  then have v: "x \<le> 15" "y \<le> 63" "z \<le> 63" "x = 13 \<longrightarrow> y \<le> 31"
    using assms by (auto simp: second_of_three_def cont_byte_def split: if_splits)
  have bound: "scalar_value (q * 64 + z)" if "q \<le> 863 \<or> 896 \<le> q \<and> q \<le> 1023" for q
    using that v(3) unfolding scalar_value_def by (elim disjE) linarith+
  have "x * 64 + y \<le> 863 \<or> 896 \<le> x * 64 + y \<and> x * 64 + y \<le> 1023"
    using v by (cases "x = 13"; cases "x < 13") auto
  then show ?thesis using bound unfolding more_bits_def x_y_z_def [symmetric] by blast
qed

lemma four_scalar:
  assumes "0xF0 \<le> b" "b \<le> 0xF4" "second_of_four b c1" "cont_byte c2" "cont_byte c3"
  shows "scalar_value (more_bits (more_bits (more_bits (b - 0xF0) c1) c2) c3)"
proof -
  define x y z w where "x = b - 0xF0" "y = c1 - 0x80" "z = c2 - 0x80" "w = c3 - 0x80"
  then have v: "x \<le> 4" "y \<le> 63" "z \<le> 63" "w \<le> 63" "x = 0 \<longrightarrow> 16 \<le> y" "x = 4 \<longrightarrow> y \<le> 15"
    using assms by (auto simp: second_of_four_def cont_byte_def split: if_splits)
  have bound: "scalar_value ((q * 64 + z) * 64 + w)" if "16 \<le> q" "q \<le> 271" for q
    using that v(3,4) by (simp add: scalar_value_def add_mult_distrib)
  have "16 \<le> x * 64 + y" using v(5) by (cases "x = 0") auto
  moreover have "x * 64 + y \<le> 271" using v(1,2,6) by (cases "x = 4") auto
  ultimately show ?thesis using bound unfolding more_bits_def x_y_z_w_def [symmetric] by blast
qed

lemma utf8_step_scalar: "fst (utf8_step bs) = Some c \<Longrightarrow> scalar_value c"
  by (auto simp: utf8_step_def Let_def utf8_char_width_def intro: two_scalar three_scalar four_scalar split: if_splits)
    (simp add: scalar_value_def)

lemma lossy_scalar: "c \<in> set (from_utf8_lossy bs) \<Longrightarrow> scalar_value c"
proof (induction bs rule: from_utf8_lossy.induct)
  case (1 bs)
  show ?case
  proof (cases "bs = []")
    case False
    obtain x n where x: "utf8_step bs = (x, n)" by fastforce
    have "c = (case x of None \<Rightarrow> REPLACEMENT | Some c \<Rightarrow> c) \<or> c \<in> set (from_utf8_lossy (drop n bs))"
      using 1(2) False x by (subst (asm) from_utf8_lossy.simps) auto
    moreover have "scalar_value REPLACEMENT" by (simp add: scalar_value_def REPLACEMENT_def)
    ultimately show ?thesis
      using 1(1) [OF False x [symmetric]] utf8_step_scalar [of bs] x by (cases x) auto
  qed (use 1(2) in \<open>simp add: from_utf8_lossy.simps\<close>)
qed

lemma lossy_length: "length (from_utf8_lossy bs) \<le> length bs"
proof (induction bs rule: from_utf8_lossy.induct)
  case (1 bs)
  show ?case
  proof (cases "bs = []")
    case False
    obtain x n where x: "utf8_step bs = (x, n)" by fastforce
    have "length (from_utf8_lossy bs) = Suc (length (from_utf8_lossy (drop n bs)))"
      using False x by (subst from_utf8_lossy.simps) simp
    also have "\<dots> \<le> Suc (length bs - n)" using 1 [OF False x [symmetric]] by simp
    also have "\<dots> \<le> length bs" using utf8_step_pos [of bs] x False by (cases bs) auto
    finally show ?thesis .
  qed (simp add: from_utf8_lossy.simps)
qed

section \<open>ASCII\<close>

lemma lossy_ascii:
  assumes "\<forall>b \<in> set bs. unat b < 128"
  shows "from_utf8_lossy bs = map unat bs"
  using assms
proof (induction bs)
  case (Cons b bs)
  then have "utf8_step (b # bs) = (Some (unat b), 1)" by (simp add: utf8_step_def utf8_char_width_def safe_get_def)
  then show ?case using Cons by (subst from_utf8_lossy.simps) simp
qed (simp add: from_utf8_lossy.simps)

text \<open>How a device encodes a string of code points below 2^16.\<close>

definition utf16le :: "nat list \<Rightarrow> u8 list" where
  "utf16le s = concat (map (\<lambda>c. [word_of_nat (c mod 256), word_of_nat (c div 256)]) s)"

lemma descriptor_string_ascii:
  assumes "\<forall>c \<in> set s. 0 < c \<and> c < 128"
  shows "descriptor_string (l # t # utf16le s @ replicate k 0) = s"
proof -
  have "\<forall>b \<in> set (utf16le s @ replicate k 0). unat b < 128"
    using assms by (auto simp: utf16le_def unat_of_nat take_bit_eq_mod)
  then have "descriptor_string (l # t # utf16le s @ replicate k 0) =
      filter (\<lambda>c. c \<noteq> 0) (map unat (utf16le s)) @ filter (\<lambda>c. c \<noteq> 0) (map unat (replicate k (0 :: u8)))"
    by (simp add: descriptor_string_def lossy_ascii)
  also have "filter (\<lambda>c. c \<noteq> 0) (map unat (utf16le s)) = s"
    using assms by (induction s) (auto simp: utf16le_def unat_of_nat take_bit_eq_mod)
  also have "filter (\<lambda>c. c \<noteq> 0) (map unat (replicate k (0 :: u8))) = []"
    by (induction k) auto
  finally show ?thesis by simp
qed

text \<open>Other characters are lost or misread: e with an acute accent, and a Chinese character.\<close>

lemma descriptor_string_not_utf16:
  "descriptor_string (4 # 3 # utf16le [0xE9]) = [REPLACEMENT]"
  "descriptor_string (4 # 3 # utf16le [0x4E2D]) = [0x2D, 0x4E]"
proof -
  have u: "utf16le [0xE9] = [0xE9, 0]" "utf16le [0x4E2D] = [0x2D, 0x4E]" by (simp_all add: utf16le_def)
  have "from_utf8_lossy [0xE9, 0] = [REPLACEMENT, 0]"
    by (simp add: from_utf8_lossy.simps [of "_ # _"] from_utf8_lossy.simps [of "[]"] utf8_step_def utf8_char_width_def
        safe_get_def second_of_three_def cont_byte_def)
  moreover have "from_utf8_lossy [0x2D, 0x4E] = [0x2D, 0x4E]" by (subst lossy_ascii) simp_all
  ultimately show "descriptor_string (4 # 3 # utf16le [0xE9]) = [REPLACEMENT]"
      "descriptor_string (4 # 3 # utf16le [0x4E2D]) = [0x2D, 0x4E]"
    by (simp_all add: descriptor_string_def u REPLACEMENT_def)
qed

section \<open>Properties\<close>



text \<open>
  Property C26 (roundtrip). A string of ASCII characters that a device sends as the USB specification says, in UTF-16,
  is read back exactly, however far it fills the buffer of 128 bytes.
\<close>

theorem ascii_string_roundtrip:
  assumes "\<forall>c \<in> set s. 0 < c \<and> c < 128" "length s \<le> 63"
  defines "buf \<equiv> word_of_nat (2 + 2 * length s) # 3 # utf16le s @ replicate (126 - 2 * length s) 0"
  shows "length buf = 128 \<and> descriptor_string buf = s"
proof -
  have "length (utf16le s) = 2 * length s" by (induction s) (simp_all add: utf16le_def)
  then show ?thesis using assms(2) descriptor_string_ascii [OF assms(1)] by (simp add: buf_def)
qed

theorem ascii_string_roundtrip_witness:
  "descriptor_string (10 # 3 # utf16le [81, 69, 77, 85] @ replicate 118 0) = [81, 69, 77, 85]"
  using ascii_string_roundtrip [of "[81, 69, 77, 85]"] by simp

end
