(* ===== verification/Keyboard_Path.thy ===== *)
theory Keyboard_Path
  imports Driver_Script
begin

text \<open>
  The life of a transfer across the driver task, the task of the event ring and the controller: the driver waits for
  the event (\<open>awaits_transfer\<close>), the controller has answered (\<open>answered_transfer\<close>), the event has been handed to the
  future (\<open>delivered_transfer\<close>). Each poll of either task in each of these states is worked out, against \<open>stage_step\<close>,
  which says what one successful transfer means for the driver.
\<close>

section \<open>A controller that works on the transfer ring\<close>

text \<open>
  The controller fetches the TRBs of the ring in order. A TRB with the bit for an interrupt on completion makes it post
  an event that points to the TRB; \<open>pos\<close> is its place in the ring. After a fetch the place is the slot after the TRB.
\<close>

definition ioc :: "GenericTrbEntry \<Rightarrow> bool" where
  "ioc t \<longleftrightarrow> bit (trb_control t) 5"

definition success_event :: "u64 \<Rightarrow> GenericTrbEntry" where
  "success_event a = \<lparr>trb_data = a, trb_option = 0x01000000, trb_control = 0x8000\<rparr>"

definition fetched_addr :: "CommandRing \<Rightarrow> nat \<times> bool \<Rightarrow> u64" where
  "fetched_addr ring pos' = ring_phys_addr ring + 16 * word_of_nat (fst pos' - 1)"

text \<open>The controller will find such a TRB within the next \<open>m\<close> that it fetches.\<close>

fun will_answer :: "CommandRing \<Rightarrow> nat \<times> bool \<Rightarrow> nat \<Rightarrow> bool" where
  "will_answer ring pos 0 = False"
| "will_answer ring pos (Suc m) =
     (case hw_fetch (ring_trb (cmd_ring ring)) pos of None \<Rightarrow> False | Some (t, pos') \<Rightarrow> ioc t \<or> will_answer ring pos' m)"

lemma success_event_ok: "transfer_result_ok (with_cyc c (success_event a)) = Ok ()"
proof -
  have ty: "ty_of (success_event a) = trb_type_code TransferEvent" by (simp add: ty_of_def success_event_def get_field_def)
  have code: "get_field 24 8 (trb_option (success_event a)) = 1" by (simp add: success_event_def get_field_def)
  show ?thesis using ty code by (simp add: transfer_result_ok_def trb_simps completion_code_eq)
qed

lemma ioc_with_cyc [simp]: "ioc (with_cyc c t) = ioc t"
  by (simp add: ioc_def with_cyc_def bit_put_field)

lemma fetched_addr_eq: "fetched_addr ring (hw_pos (Suc c)) = slot_addr ring c"
  by (simp add: fetched_addr_def hw_pos_def slot_addr_def)

lemma stages_ioc [simp]:
  "ioc (DataStageTrb_new_in buf len)" "ioc StatusStageTrb_new_in" "\<not> ioc StatusStageTrb_new_out"
  "\<not> ioc (trb_from_setup (SetupStageTrb_new q b v x l))"
  by (simp_all add: ioc_def DataStageTrb_new_in_def StatusStageTrb_new_in_def StatusStageTrb_new_out_def trb_from_setup_def
      SetupStageTrb_new_def Let_def CTRL_BIT_DATA_DIR_IN_def CTRL_BIT_INTERRUPT_ON_COMPLETION_def
      CTRL_BIT_INTERRUPT_ON_SHORT_PACKET_def CTRL_BIT_IMMEDIATE_DATA_def bit_simps)

text \<open>The stages of a transfer: the second one alone asks for an event.\<close>

definition transfer_stages :: "GenericTrbEntry list \<Rightarrow> bool" where
  "transfer_stages ts \<longleftrightarrow> no_links ts \<and> (map ioc ts = [False, True, False] \<or> map ioc ts = [False, True])"

section \<open>What a transfer means\<close>

text \<open>The stages of the driver, without rings and futures, and the effect of one successful transfer.\<close>

datatype usb_stage =
    AtDevice
  | AtLang UsbDeviceDescriptor
  | AtString UsbDeviceDescriptor u16 "u8 list"
  | AtConfig UsbDeviceDescriptor
  | AtRest UsbDeviceDescriptor usize
  | AtProtocol UsbDeviceDescriptor "UsbDescriptor list"
  | AtReport UsbDeviceDescriptor "UsbDescriptor list" "u8 list"

fun stage_of :: "run_pc \<Rightarrow> usb_stage option" where
  "stage_of (DeviceWait i slot ring) = Some AtDevice"
| "stage_of (LangWait i slot ring dev) = Some (AtLang dev)"
| "stage_of (StringWait i slot ring dev lang idxs) = Some (AtString dev lang idxs)"
| "stage_of (ConfigWait i slot ring dev) = Some (AtConfig dev)"
| "stage_of (RestWait i slot ring dev len) = Some (AtRest dev len)"
| "stage_of (ProtocolWait i slot ring dev descs) = Some (AtProtocol dev descs)"
| "stage_of (ReportWait i slot ring dev descs prev) = Some (AtReport dev descs prev)"
| "stage_of _ = None"

fun slot_of :: "run_pc \<Rightarrow> u8 option" where
  "slot_of (DeviceWait i slot ring) = Some slot"
| "slot_of (LangWait i slot ring dev) = Some slot"
| "slot_of (StringWait i slot ring dev lang idxs) = Some slot"
| "slot_of (ConfigWait i slot ring dev) = Some slot"
| "slot_of (RestWait i slot ring dev len) = Some slot"
| "slot_of (ProtocolWait i slot ring dev descs) = Some slot"
| "slot_of (ReportWait i slot ring dev descs prev) = Some slot"
| "slot_of _ = None"

fun next_text :: "UsbDeviceDescriptor \<Rightarrow> u16 \<Rightarrow> u8 list \<Rightarrow> usb_stage" where
  "next_text dev lang [] = AtConfig dev"
| "next_text dev lang (idx # idxs) = (if idx = 0 then next_text dev lang idxs else AtString dev lang idxs)"

definition string_idxs :: "UsbDeviceDescriptor \<Rightarrow> u8 list" where
  "string_idxs dev = [manufacturer_idx dev, product_idx dev, serial_idx dev]"

fun stage_step :: "('d \<Rightarrow> u64 \<Rightarrow> nat \<Rightarrow> u8 list) \<Rightarrow> run_boxes \<Rightarrow> 'd \<Rightarrow> usb_stage \<Rightarrow> usb_stage \<times> key_log" where
  "stage_step mem bx d AtDevice = (AtLang (decode_device (mem d (device_buf bx) 18)), [])"
| "stage_step mem bx d (AtLang dev) = (next_text dev (u16_at (mem d (lang_buf bx) 16) 2) (string_idxs dev), [])"
| "stage_step mem bx d (AtString dev lang idxs) = (next_text dev lang idxs, [])"
| "stage_step mem bx d (AtConfig dev) = (AtRest dev (total_length (decode_config (mem d (config_buf bx) 9))), [])"
| "stage_step mem bx d (AtRest dev len) =
     (case collect_descriptors (mem d (rest_buf bx) len) 0 [] of
        Some (Ok descs) \<Rightarrow> (AtProtocol dev descs, []) | _ \<Rightarrow> (AtRest dev len, []))"
| "stage_step mem bx d (AtProtocol dev descs) = (AtReport dev descs [], [])"
| "stage_step mem bx d (AtReport dev descs prev) =
     (case keyboard_round prev (mem d (report_buf bx) 8) of
        Ok (evs, pressed) \<Rightarrow> (AtReport dev descs pressed, evs) | _ \<Rightarrow> (AtReport dev descs prev, []))"

text \<open>The device is a boot keyboard: its configuration is well formed and has the interface of one.\<close>

definition keyboard_config :: "u8 list \<Rightarrow> bool" where
  "keyboard_config bytes \<longleftrightarrow> (\<exists>bs x. bytes = concat bs \<and> list_all chunk_ok bs \<and>
     pick_interface_with_triple (map decode_chunk bs) (3, 1, 1) = Some x)"

definition keyboard_device :: "('d \<Rightarrow> u64 \<Rightarrow> nat \<Rightarrow> u8 list) \<Rightarrow> run_boxes \<Rightarrow> bool" where
  "keyboard_device mem bx \<longleftrightarrow>
     (\<forall>d d'. keyboard_config (mem d (rest_buf bx) (total_length (decode_config (mem d' (config_buf bx) 9)))))"

fun stage_ok :: "('d \<Rightarrow> u64 \<Rightarrow> nat \<Rightarrow> u8 list) \<Rightarrow> run_boxes \<Rightarrow> usb_stage \<Rightarrow> bool" where
  "stage_ok mem bx (AtRest dev len) \<longleftrightarrow> (\<exists>d. len = total_length (decode_config (mem d (config_buf bx) 9)))"
| "stage_ok mem bx s \<longleftrightarrow> True"

lemma next_text_ok: "stage_ok mem bx (next_text dev lang idxs)"
  by (induction idxs) auto

lemma stage_step_ok:
  assumes "keyboard_device mem bx" "stage_ok mem bx s"
  shows "stage_ok mem bx (fst (stage_step mem bx d s))"
  using assms next_text_ok by (cases s) (auto split: option.splits res.splits)

section \<open>The states of a transfer\<close>

text \<open>
  \<open>h\<close> are the TRBs pushed so far, \<open>m\<close> of the events \<open>posted\<close> are handled, the future waits for the event of the TRB
  at \<open>a\<close> and has got, and not yet handed on, the events \<open>q\<close>.
\<close>

definition transfer_state :: "'d Controller \<Rightarrow> run_pc \<Rightarrow> usb_stage \<Rightarrow> GenericTrbEntry list \<Rightarrow> nat \<Rightarrow>
    GenericTrbEntry list \<Rightarrow> u64 \<Rightarrow> GenericTrbEntry list \<Rightarrow> bool" where
  "transfer_state xhc pc s posted m q a h \<longleftrightarrow> (\<exists>i slot ring.
     awaits pc = Some i \<and> slot_of pc = Some slot \<and> ring_of pc = Some ring \<and> stage_of pc = Some s \<and> ring_inv ring h \<and>
     awaiting (primary_event_ring xhc) i a q \<and> waiters_ok (primary_event_ring xhc) \<and>
     event_inv (primary_event_ring xhc) posted m \<and> unat slot < length (doorbell_regs (xregs xhc)))"

text \<open>
  The controller has fetched \<open>c\<close> TRBs. The stage that asks for an event is ahead of it, at \<open>w\<close>, or it is behind and
  only the rest of its transfer is ahead.
\<close>

definition open_at :: "GenericTrbEntry list \<Rightarrow> nat \<Rightarrow> nat \<Rightarrow> bool" where
  "open_at h c w \<longleftrightarrow> c \<le> w \<and> w \<le> c + 2 \<and> w < length h \<and> length h \<le> w + 2 \<and>
     (\<forall>j. c \<le> j \<and> j < length h \<longrightarrow> ioc (h ! j) = (j = w))"

definition closed_at :: "GenericTrbEntry list \<Rightarrow> nat \<Rightarrow> bool" where
  "closed_at h c \<longleftrightarrow> c \<le> length h \<and> length h \<le> c + 1 \<and> (\<forall>j. c \<le> j \<and> j < length h \<longrightarrow> \<not> ioc (h ! j))"

definition addr_at :: "run_pc \<Rightarrow> nat \<Rightarrow> u64" where
  "addr_at pc w = (case ring_of pc of None \<Rightarrow> 0 | Some ring \<Rightarrow> slot_addr ring w)"

definition awaits_transfer :: "'d Controller \<Rightarrow> run_pc \<Rightarrow> usb_stage \<Rightarrow> nat \<Rightarrow> nat \<Rightarrow> bool" where
  "awaits_transfer xhc pc s n c \<longleftrightarrow> (\<exists>posted h w. length posted = n \<and> open_at h c w \<and>
     transfer_state xhc pc s posted n [] (addr_at pc w) h)"

definition answered_transfer :: "'d Controller \<Rightarrow> run_pc \<Rightarrow> usb_stage \<Rightarrow> nat \<Rightarrow> nat \<Rightarrow> bool" where
  "answered_transfer xhc pc s n c \<longleftrightarrow> (\<exists>posted h a. Suc (length posted) = n \<and> closed_at h c \<and>
     transfer_state xhc pc s (posted @ [success_event a]) (length posted) [] a h)"

definition delivered_transfer :: "'d Controller \<Rightarrow> run_pc \<Rightarrow> usb_stage \<Rightarrow> nat \<Rightarrow> nat \<Rightarrow> bool" where
  "delivered_transfer xhc pc s n c \<longleftrightarrow> (\<exists>posted h a b. length posted = n \<and> closed_at h c \<and>
     transfer_state xhc pc s posted n [with_cyc b (success_event a)] a h)"

lemma transfer_stateE:
  assumes "transfer_state xhc pc s posted m q a h"
  obtains i slot ring where "awaits pc = Some i" "slot_of pc = Some slot" "ring_of pc = Some ring" "stage_of pc = Some s"
    "ring_inv ring h" "awaiting (primary_event_ring xhc) i a q" "waiters_ok (primary_event_ring xhc)"
    "event_inv (primary_event_ring xhc) posted m" "unat slot < length (doorbell_regs (xregs xhc))"
  using assms unfolding transfer_state_def by blast

lemma open_after:
  assumes "closed_at h c" "transfer_stages ts"
  shows "open_at (h @ ts) c (Suc (length h))"
proof -
  have len: "2 \<le> length ts" "length ts \<le> 3"
    using assms(2) arg_cong [of "map ioc ts" _ length] by (auto simp: transfer_stages_def)
  have "ioc ((h @ ts) ! j) = (j = Suc (length h))" if j: "c \<le> j" "j < length (h @ ts)" for j
  proof (cases "j < length h")
    case True
    then show ?thesis using assms(1) j(1) by (auto simp: closed_at_def nth_append)
  next
    case False
    have "ioc (ts ! (j - length h)) = map ioc ts ! (j - length h)" using False j(2) by simp
    moreover have "j - length h = 0 \<or> j - length h = 1 \<or> j - length h = 2" using False j(2) len(2) by auto
    ultimately show ?thesis
      using False j(2) len assms(2) by (auto simp: transfer_stages_def nth_append)
  qed
  then show ?thesis using assms(1) len by (auto simp: open_at_def closed_at_def)
qed

section \<open>What the controller does\<close>

lemma open_fetch:
  assumes "open_at h c w" "ring_inv ring h"
  obtains t where "hw_fetch (ring_trb (cmd_ring ring)) (hw_pos c) = Some (t, hw_pos (Suc c))" "ioc t = (c = w)"
    "c = w \<Longrightarrow> closed_at h (Suc c)" "c \<noteq> w \<Longrightarrow> open_at h (Suc c) w"
proof -
  have c: "c < length h" "length h \<le> c + 14" using assms(1) by (auto simp: open_at_def)
  then have "hw_fetch (ring_trb (cmd_ring ring)) (hw_pos c) = Some (with_cyc (even (c div 15)) (h ! c), hw_pos (Suc c))"
    using hw_fetch_spec [OF assms(2), of c] by simp
  then show thesis using that assms(1) c(1) by (auto simp: open_at_def closed_at_def)
qed

lemma closed_fetch:
  assumes "closed_at h c" "ring_inv ring h" "hw_fetch (ring_trb (cmd_ring ring)) (hw_pos c) = Some (t, pos')"
  shows "\<not> ioc t \<and> pos' = hw_pos (Suc c) \<and> closed_at h (Suc c)"
proof -
  have "c \<le> length h" "length h \<le> c + 14" using assms(1) by (auto simp: closed_at_def)
  then have "c < length h \<and> t = with_cyc (even (c div 15)) (h ! c) \<and> pos' = hw_pos (Suc c)"
    using hw_fetch_spec [OF assms(2), of c] assms(3) by (auto split: if_splits)
  then show ?thesis using assms(1) by (auto simp: closed_at_def)
qed

lemma open_will_answer:
  assumes "open_at h c w" "ring_inv ring h"
  shows "will_answer ring (hw_pos c) 3"
proof -
  have "will_answer ring (hw_pos c) m" if "open_at h c w" "w < c + m" for m c
    using that
  proof (induction m arbitrary: c)
    case (Suc m)
    obtain t where "hw_fetch (ring_trb (cmd_ring ring)) (hw_pos c) = Some (t, hw_pos (Suc c))" "ioc t = (c = w)"
        "c \<noteq> w \<Longrightarrow> open_at h (Suc c) w"
      using open_fetch [OF Suc.prems(1) assms(2)] by metis
    then show ?case using Suc by auto
  qed (auto simp: open_at_def)
  then show ?thesis using assms(1) by (simp add: open_at_def)
qed

text \<open>The device changes its state to \<open>d\<close>, in which the transfer is done, and the event of the TRB at \<open>a\<close> is posted.\<close>

definition answer :: "'d Controller \<Rightarrow> nat \<Rightarrow> u64 \<Rightarrow> 'd \<Rightarrow> 'd Controller" where
  "answer xhc n a d = xhc\<lparr>xdev := d, primary_event_ring := hw_post (primary_event_ring xhc) n (success_event a)\<rparr>"

lemma hw_post_waiters [simp]:
  "awaiting (hw_post er n e) i a q = awaiting er i a q" "waiters_ok (hw_post er n e) = waiters_ok er"
  by (simp_all add: awaiting_def waiters_ok_def hw_post_def)

lemma answer_step:
  assumes "transfer_state xhc pc s posted (length posted) [] a h"
  shows "transfer_state (answer xhc (length posted) a d) pc s (posted @ [success_event a]) (length posted) [] a h"
proof -
  have "event_inv (hw_post (primary_event_ring xhc) (length posted) (success_event a)) (posted @ [success_event a]) (length posted)"
    using event_inv_post [of "primary_event_ring xhc" posted "length posted"] assms by (auto simp: transfer_state_def)
  then show ?thesis
    using assms by (auto simp: transfer_state_def answer_def)
qed

section \<open>Queueing a transfer\<close>

lemma push_stages_addrs:
  assumes "ring_inv ring h" "no_links ts"
  shows "\<exists>ring'. push_stages ring ts = (Ok (map (slot_addr ring) [length h ..< length h + length ts]), ring') \<and>
    ring_inv ring' (h @ ts) \<and> slot_addr ring' = slot_addr ring"
  using assms
proof (induction ts arbitrary: ring h)
  case (Cons t ts)
  obtain ring1 where r1: "push ring t = Ok (slot_addr ring (length h), ring1)" "ring_inv ring1 (h @ [t])"
      "slot_addr ring1 = slot_addr ring"
    using command_ring.enq_ok [OF Cons.prems(1), of t] Cons.prems(2) by (auto simp: no_links_def)
  obtain ring2 where "push_stages ring1 ts = (Ok (map (slot_addr ring1) [Suc (length h) ..< Suc (length h) + length ts]), ring2)"
      "ring_inv ring2 ((h @ [t]) @ ts)" "slot_addr ring2 = slot_addr ring1"
    using Cons.IH [OF r1(2)] Cons.prems(2) by (auto simp: no_links_def)
  moreover have "[length h ..< length h + length (t # ts)] = length h # [Suc (length h) ..< Suc (length h) + length ts]"
    by (subst upt_conv_Cons) simp_all
  ultimately show ?case using r1 by simp
qed simp

text \<open>\<open>queued\<close>: the ring, the controller object and the future after a transfer has been queued behind \<open>h\<close>.\<close>

definition queued :: "'d Controller \<Rightarrow> GenericTrbEntry list \<Rightarrow> GenericTrbEntry list \<Rightarrow> u8 \<Rightarrow> GenericTrbEntry list \<Rightarrow>
    nat \<times> CommandRing \<times> 'd Controller \<Rightarrow> bool" where
  "queued xhc posted h slot ts x \<longleftrightarrow> (case x of (i, ring1, xhc1) \<Rightarrow> ring_inv ring1 (h @ ts) \<and>
     awaiting (primary_event_ring xhc1) i (slot_addr ring1 (Suc (length h))) [] \<and> waiters_ok (primary_event_ring xhc1) \<and>
     event_inv (primary_event_ring xhc1) posted (length posted) \<and> unat slot < length (doorbell_regs (xregs xhc1)))"

lemma submit_queued:
  assumes "ring_inv ring h" "waiters_ok (primary_event_ring xhc)" "event_inv (primary_event_ring xhc) posted (length posted)"
    "unat slot < length (doorbell_regs (xregs xhc))" "transfer_stages ts"
  shows "\<exists>i ring1 xhc1. submit bus xhc slot ring ts 1 = (Ok i, ring1, xhc1) \<and> queued xhc posted h slot ts (i, ring1, xhc1)"
proof -
  have len: "1 < length ts"
    using assms(5) arg_cong [of "map ioc ts" _ length] by (auto simp: transfer_stages_def)
  obtain ring1 where r: "push_stages ring ts = (Ok (map (slot_addr ring) [length h ..< length h + length ts]), ring1)"
      "ring_inv ring1 (h @ ts)" "slot_addr ring1 = slot_addr ring"
    using push_stages_addrs [OF assms(1), of ts] assms(5) by (auto simp: transfer_stages_def)
  have a: "map (slot_addr ring) [length h ..< length h + length ts] ! 1 = slot_addr ring (Suc (length h))" using len by simp
  obtain er1 where er1: "EventFuture_new_for_trb (primary_event_ring xhc) (slot_addr ring (Suc (length h))) =
        (next_wait_id (primary_event_ring xhc), er1)"
      "awaiting er1 (next_wait_id (primary_event_ring xhc)) (slot_addr ring (Suc (length h))) []" "waiters_ok er1"
      "ev_ring er1 = ev_ring (primary_event_ring xhc)" "ev_cycle_ours er1 = ev_cycle_ours (primary_event_ring xhc)"
      "erdp er1 = erdp (primary_event_ring xhc)"
    using awaiting_new [OF assms(2)] by blast
  have "event_inv er1 posted (length posted)" using assms(3) er1(4-6) by (simp add: event_inv_def)
  then show ?thesis
    using r a er1(1-3) assms(4) by (auto simp: submit_def notify_ep_eq await_trb_def queued_def)
qed

text \<open>The driver waits for a transfer that it has just queued.\<close>

lemma queued_awaits:
  assumes "queued xhc posted h slot ts (i, ring1, xhc1)" "closed_at h c" "transfer_stages ts"
    "awaits pc = Some i" "slot_of pc = Some slot" "ring_of pc = Some ring1" "stage_of pc = Some s"
  shows "awaits_transfer xhc1 pc s (length posted) c"
proof -
  have "transfer_state xhc1 pc s posted (length posted) [] (addr_at pc (Suc (length h))) (h @ ts)"
    using assms(1,4-7) by (auto simp: transfer_state_def queued_def addr_at_def)
  then show ?thesis using open_after [OF assms(2,3)] by (auto simp: awaits_transfer_def)
qed

lemma transfer_stages_data: "transfer_stages [trb_from_setup (SetupStageTrb_new q b v x l), DataStageTrb_new_in buf len, StatusStageTrb_new_out]"
  by (simp add: transfer_stages_def no_links_def control_types)

lemma transfer_stages_keyboard:
  "transfer_stages (report_stages buf)" "transfer_stages (set_protocol_stages x p)"
  by (simp_all add: transfer_stages_def no_links_def control_types report_stages_def set_protocol_stages_def)

lemma control_in_queued:
  assumes "ring_inv ring h" "waiters_ok (primary_event_ring xhc)" "event_inv (primary_event_ring xhc) posted (length posted)"
    "unat slot < length (doorbell_regs (xregs xhc))"
  shows "\<exists>i ring1 xhc1 ts. control_in bus xhc slot ring (SetupStageTrb_new q b v x l) buf len = Ok (i, ring1, xhc1) \<and>
    queued xhc posted h slot ts (i, ring1, xhc1) \<and> transfer_stages ts"
  using submit_queued [OF assms transfer_stages_data [of q b v x l buf len], of bus] transfer_stages_data [of q b v x l buf len]
  by (auto simp: control_in_submit lose_ring_def)

section \<open>The parts of a poll\<close>

lemma pop_waiter_ids: "map wait_id (snd (pop_waiter i ws)) = map wait_id ws"
  by (induction ws) (auto simp: case_prod_beta split: list.splits)

lemma waiters_ok_ids:
  "set (map wait_id (wait_list er')) \<subseteq> set (map wait_id (wait_list er)) \<Longrightarrow> next_wait_id er' = next_wait_id er \<Longrightarrow>
   waiters_ok er \<Longrightarrow> waiters_ok er'"
  by (auto simp: waiters_ok_def)

lemma EventFuture_drop_next: "next_wait_id (EventFuture_drop i (er\<lparr>wait_list := ws\<rparr>)) = next_wait_id er"
  by (simp add: EventFuture_drop_def)

lemma event_inv_cong:
  "ev_ring er' = ev_ring er \<Longrightarrow> ev_cycle_ours er' = ev_cycle_ours er \<Longrightarrow> erdp er' = erdp er \<Longrightarrow>
   event_inv er' h c = event_inv er h c"
  by (simp add: event_inv_def)

lemma ev_poll_waiters_ok: "ev_poll er = Ok er' \<Longrightarrow> waiters_ok er \<Longrightarrow> waiters_ok er'"
  by (auto simp: ev_poll_eq res_simps waiters_ok_def dest!: ev_pop_waiters split: option.splits)

lemma ev_poll_empty: "event_inv er posted (length posted) \<Longrightarrow> ev_poll er = Ok er"
  using ev_pop_spec [of er posted "length posted"] by (simp add: ev_poll_eq)

lemma poll_future_takes:
  assumes "awaiting (primary_event_ring xhc) i a (e # q)" "waiters_ok (primary_event_ring xhc)"
    "event_inv (primary_event_ring xhc) posted c"
  shows "\<exists>er. poll_future i xhc = (Some e, xhc\<lparr>primary_event_ring := er\<rparr>) \<and> waiters_ok er \<and> event_inv er posted c"
proof -
  let ?old = "primary_event_ring xhc"
  obtain ws where ws: "EventFuture_poll i ?old = (Some e, ?old\<lparr>wait_list := ws\<rparr>)" "map wait_id ws = map wait_id (wait_list ?old)"
    using awaiting_take [OF assms(1)] pop_waiter_ids [of i "wait_list ?old"]
    by (auto simp: EventFuture_poll_def Let_def case_prod_beta)
  let ?er = "EventFuture_drop i (?old\<lparr>wait_list := ws\<rparr>)"
  have "map wait_id (wait_list ?er) = map wait_id (wait_list ?old)"
    by (simp add: EventFuture_drop_def ws(2) [symmetric] comp_def if_distrib cong: if_cong)
  then have "waiters_ok ?er"
    using waiters_ok_ids [of ?er ?old] assms(2) by (simp add: EventFuture_drop_next)
  moreover have "event_inv ?er posted c"
    using assms(3) event_inv_cong [of ?er ?old] by (simp add: EventFuture_drop_def)
  moreover have "poll_future i xhc = (Some e, xhc\<lparr>primary_event_ring := ?er\<rparr>)" using ws(1) by (simp add: poll_future_def)
  ultimately show ?thesis by blast
qed


section \<open>Polls of the event task\<close>

lemma event_task_idle:
  assumes "transfer_state xhc pc s posted m q a h" "length posted = m"
  shows "event_task_poll xhc = Ok (None, xhc)"
  using assms by (auto simp: transfer_state_def event_task_poll_def ev_poll_empty)

lemma event_task_delivers:
  assumes "answered_transfer xhc pc s n c"
  shows "\<exists>er. event_task_poll xhc = Ok (None, xhc\<lparr>primary_event_ring := er\<rparr>) \<and>
    delivered_transfer (xhc\<lparr>primary_event_ring := er\<rparr>) pc s n c"
proof -
  obtain posted h a where p: "Suc (length posted) = n" "closed_at h c"
      "transfer_state xhc pc s (posted @ [success_event a]) (length posted) [] a h"
    using assms by (auto simp: answered_transfer_def)
  obtain i slot ring where t: "awaits pc = Some i" "slot_of pc = Some slot" "ring_of pc = Some ring" "stage_of pc = Some s"
      "ring_inv ring h" "awaiting (primary_event_ring xhc) i a []" "waiters_ok (primary_event_ring xhc)"
      "event_inv (primary_event_ring xhc) (posted @ [success_event a]) (length posted)"
      "unat slot < length (doorbell_regs (xregs xhc))"
    using p(3) by (rule transfer_stateE)
  have e: "trb_data (success_event a) = a" by (simp add: success_event_def)
  obtain er where er: "ev_poll (primary_event_ring xhc) = Ok er" "event_inv er (posted @ [success_event a]) (Suc (length posted))"
      "awaiting er i a [with_cyc (even (length posted div 16)) (success_event a)]"
    using ev_poll_inv [OF t(8) _ t(6)] e by auto
  have "transfer_state (xhc\<lparr>primary_event_ring := er\<rparr>) pc s (posted @ [success_event a]) n
      [with_cyc (even (length posted div 16)) (success_event a)] a h"
    using t er ev_poll_waiters_ok [OF er(1)] p(1) by (auto simp: transfer_state_def)
  then have "delivered_transfer (xhc\<lparr>primary_event_ring := er\<rparr>) pc s n c"
    using p(1,2) unfolding delivered_transfer_def by (metis length_append_singleton)
  then show ?thesis using er(1) by (auto simp: event_task_poll_def)
qed

section \<open>Polls of the driver task\<close>

lemmas await_defs = on_keyboard_transfer_def on_transfer_def on_event_def

lemma driver_idle:
  assumes "transfer_state xhc pc s posted m [] a h"
  shows "run_poll bus mem bx pc xhc = Some (Ok (pc, [], xhc))"
proof -
  obtain i where i: "awaits pc = Some i" "awaiting (primary_event_ring xhc) i a []" "stage_of pc = Some s"
    using assms by (rule transfer_stateE)
  then have "poll_future i xhc = (None, xhc)" by (auto simp: poll_future_def dest!: awaiting_take)
  then show ?thesis using i(1,3) by (cases pc) (simp_all add: await_defs)
qed

text \<open>
  \<open>arrives\<close>: the next thing that the driver waits for is a transfer, at stage \<open>s\<close>, and \<open>evs\<close> is logged.
\<close>

definition arrives :: "usb_stage \<Rightarrow> key_log \<Rightarrow> nat \<Rightarrow> nat \<Rightarrow> (run_pc \<times> key_log \<times> 'd Controller) res option \<Rightarrow> bool" where
  "arrives s evs n c x \<longleftrightarrow> (\<exists>pc xhc. x = Some (Ok (pc, evs, xhc)) \<and> awaits_transfer xhc pc s n c)"

text \<open>What a poll starts from when its transfer has succeeded.\<close>

definition transfer_done :: "'d Controller \<Rightarrow> u8 \<Rightarrow> CommandRing \<Rightarrow> nat \<Rightarrow> nat \<Rightarrow> bool" where
  "transfer_done xhc slot ring n c \<longleftrightarrow> (\<exists>posted h. length posted = n \<and> closed_at h c \<and> ring_inv ring h \<and>
     waiters_ok (primary_event_ring xhc) \<and> event_inv (primary_event_ring xhc) posted n \<and>
     unat slot < length (doorbell_regs (xregs xhc)))"

lemma submit_arrives:
  assumes "transfer_done xhc slot ring n c" "transfer_stages ts"
  obtains i ring1 xhc1 where "submit bus xhc slot ring ts 1 = (Ok i, ring1, xhc1)"
    "\<And>pc s. awaits pc = Some i \<Longrightarrow> slot_of pc = Some slot \<Longrightarrow> ring_of pc = Some ring1 \<Longrightarrow> stage_of pc = Some s \<Longrightarrow>
       awaits_transfer xhc1 pc s n c"
proof -
  obtain posted h where d: "length posted = n" "closed_at h c" "ring_inv ring h" "waiters_ok (primary_event_ring xhc)"
      "event_inv (primary_event_ring xhc) posted (length posted)" "unat slot < length (doorbell_regs (xregs xhc))"
    using assms(1) by (auto simp: transfer_done_def)
  obtain i ring1 xhc1 where "submit bus xhc slot ring ts 1 = (Ok i, ring1, xhc1)" "queued xhc posted h slot ts (i, ring1, xhc1)"
    using submit_queued [OF d(3-6) assms(2), of bus] by blast
  then show thesis using that queued_awaits [OF _ d(2) assms(2)] d(1) by metis
qed

lemma control_in_arrives:
  assumes "transfer_done xhc slot ring n c"
  obtains i ring1 xhc1 where "control_in bus xhc slot ring (SetupStageTrb_new q b v x l) buf len = Ok (i, ring1, xhc1)"
    "\<And>pc s. awaits pc = Some i \<Longrightarrow> slot_of pc = Some slot \<Longrightarrow> ring_of pc = Some ring1 \<Longrightarrow> stage_of pc = Some s \<Longrightarrow>
       awaits_transfer xhc1 pc s n c"
proof -
  obtain i ring1 xhc1 where "submit bus xhc slot ring [trb_from_setup (SetupStageTrb_new q b v x l), DataStageTrb_new_in buf len,
        StatusStageTrb_new_out] 1 = (Ok i, ring1, xhc1)"
      "\<And>pc s. awaits pc = Some i \<Longrightarrow> slot_of pc = Some slot \<Longrightarrow> ring_of pc = Some ring1 \<Longrightarrow> stage_of pc = Some s \<Longrightarrow>
        awaits_transfer xhc1 pc s n c"
    using submit_arrives [OF assms transfer_stages_data] by metis
  then show thesis using that by (simp add: control_in_submit lose_ring_def)
qed

lemma ask_report_arrives:
  assumes "transfer_done xhc slot ring n c"
  shows "arrives (AtReport dev descs prev) evs n c (ask_report bus bx xhc slot ring dev descs prev evs)"
  by (rule submit_arrives [OF assms transfer_stages_keyboard(1) [of "report_buf bx"], of bus])
    (auto simp: ask_report_def arrives_def)

lemma begin_keyboard_arrives:
  assumes "transfer_done xhc slot ring n c" "pick_interface_with_triple descs (3, 1, 1) = Some x"
  shows "arrives (AtProtocol dev descs) [] n c (begin_keyboard bus bx xhc slot ring dev descs)"
proof -
  obtain cfg ifc eps where x: "x = (cfg, ifc, eps)" by (cases x)
  show ?thesis
    by (rule submit_arrives [OF assms(1) transfer_stages_keyboard(2) [of "config_value cfg" BootProtocol], of bus])
      (auto simp: begin_keyboard_def arrives_def assms(2) x)
qed

lemma request_arrives:
  assumes "transfer_done xhc slot ring n c"
  shows "\<exists>i ring1 xhc1. request_descriptor bus xhc slot ring ty idx lang buf len = Ok (i, ring1, xhc1) \<and>
    (\<forall>pc s. awaits pc = Some i \<longrightarrow> slot_of pc = Some slot \<longrightarrow> ring_of pc = Some ring1 \<longrightarrow> stage_of pc = Some s \<longrightarrow>
       awaits_transfer xhc1 pc s n c)"
  unfolding request_descriptor_def using control_in_arrives [OF assms] by metis

lemma request_then:
  assumes "transfer_done xhc slot ring n c"
    "\<And>i ring1. awaits (f i ring1) = Some i \<and> slot_of (f i ring1) = Some slot \<and> ring_of (f i ring1) = Some ring1 \<and>
       stage_of (f i ring1) = Some s"
  shows "arrives s [] n c (or_fail xhc0 (request_descriptor bus xhc slot ring ty idx lang buf len) (\<lambda>(i, ring1, xhc1).
    Some (Ok (f i ring1, [], xhc1))))"
proof -
  obtain i ring1 xhc1 where "request_descriptor bus xhc slot ring ty idx lang buf len = Ok (i, ring1, xhc1)"
      "awaits_transfer xhc1 (f i ring1) s n c"
    using request_arrives [OF assms(1), of bus ty idx lang buf len] assms(2) by blast
  then show ?thesis by (auto simp: or_fail_def arrives_def)
qed

lemma next_string_arrives:
  assumes "transfer_done xhc slot ring n c"
  shows "arrives (next_text dev lang idxs) [] n c (next_string bus bx xhc slot ring dev lang idxs)"
proof (induction idxs)
  case Nil
  show ?case by (simp add: request_config_descriptor_def request_then [OF assms])
next
  case (Cons idx idxs)
  then show ?case by (simp add: request_string_descriptor_def request_then [OF assms])
qed

lemma delivered_takes:
  assumes "delivered_transfer xhc pc s n c"
  obtains i slot ring trb xhc1 where "awaits pc = Some i" "slot_of pc = Some slot" "ring_of pc = Some ring"
    "stage_of pc = Some s" "poll_future i xhc = (Some trb, xhc1)" "transfer_result_ok trb = Ok ()" "xdev xhc1 = xdev xhc"
    "transfer_done xhc1 slot ring n c"
proof -
  obtain posted h a b where p: "length posted = n" "closed_at h c"
      "transfer_state xhc pc s posted n [with_cyc b (success_event a)] a h"
    using assms by (auto simp: delivered_transfer_def)
  obtain i slot ring where t: "awaits pc = Some i" "slot_of pc = Some slot" "ring_of pc = Some ring" "stage_of pc = Some s"
      "ring_inv ring h" "awaiting (primary_event_ring xhc) i a [with_cyc b (success_event a)]"
      "waiters_ok (primary_event_ring xhc)" "event_inv (primary_event_ring xhc) posted n"
      "unat slot < length (doorbell_regs (xregs xhc))"
    using p(3) by (rule transfer_stateE)
  obtain er where f: "poll_future i xhc = (Some (with_cyc b (success_event a)), xhc\<lparr>primary_event_ring := er\<rparr>)"
      "waiters_ok er" "event_inv er posted n"
    using poll_future_takes [OF t(6-8)] by blast
  have "transfer_done (xhc\<lparr>primary_event_ring := er\<rparr>) slot ring n c"
    using p(1,2) t(5,9) f(2,3) by (auto simp: transfer_done_def)
  then show thesis using that [OF t(1-4) f(1) success_event_ok] by simp
qed

lemma or_fail_done: "or_fail xhc (Ok a) f = f a"
  by (simp add: or_fail_def)

text \<open>The poll that takes the event makes the step of the stage.\<close>

lemma driver_takes:
  assumes "delivered_transfer xhc pc s n c" "keyboard_device mem bx" "stage_ok mem bx s"
  shows "arrives (fst (stage_step mem bx (xdev xhc) s)) (snd (stage_step mem bx (xdev xhc) s)) n c (run_poll bus mem bx pc xhc)"
proof -
  obtain i slot ring trb xhc1 where d: "awaits pc = Some i" "slot_of pc = Some slot" "ring_of pc = Some ring"
      "stage_of pc = Some s" "poll_future i xhc = (Some trb, xhc1)" "transfer_result_ok trb = Ok ()" "xdev xhc1 = xdev xhc"
      "transfer_done xhc1 slot ring n c"
    using assms(1) by (rule delivered_takes)
  show ?thesis
  proof (cases pc)
    case (DeviceWait i' slot' ring')
    obtain i2 ring2 xhc2 where "request_string_descriptor_zero bus xhc1 slot ring (lang_buf bx) = Ok (i2, ring2, xhc2)"
        "awaits_transfer xhc2 (LangWait i2 slot ring2 (decode_device (mem (xdev xhc) (device_buf bx) 18)))
          (AtLang (decode_device (mem (xdev xhc) (device_buf bx) 18))) n c"
      unfolding request_string_descriptor_zero_def
      using request_arrives [OF d(8), of bus DescString 0 0 "lang_buf bx" "8 * 2"] by (auto simp del: mult_numeral_1)
    then show ?thesis using d DeviceWait by (auto simp: await_defs or_fail_def arrives_def)
  next
    case (LangWait i' slot' ring' dev)
    then show ?thesis using d next_string_arrives [OF d(8)]
      by (auto simp: await_defs string_idxs_def simp del: next_string.simps next_text.simps)
  next
    case (StringWait i' slot' ring' dev lang idxs)
    then show ?thesis using d next_string_arrives [OF d(8)]
      by (auto simp: await_defs or_fail_def simp del: next_string.simps next_text.simps)
  next
    case (ConfigWait i' slot' ring' dev)
    then show ?thesis using d
      by (auto simp: await_defs or_fail_done Let_def request_config_rest_def intro!: request_then)
  next
    case (RestWait i' slot' ring' dev len)
    then have "keyboard_config (mem (xdev xhc) (rest_buf bx) len)"
      using d(4) assms(2,3) by (auto simp: keyboard_device_def)
    then obtain bs x where bs: "mem (xdev xhc) (rest_buf bx) len = concat bs" "list_all chunk_ok bs"
        "pick_interface_with_triple (map decode_chunk bs) (3, 1, 1) = Some x"
      unfolding keyboard_config_def by blast
    then show ?thesis using d RestWait collect_chunks [OF bs(2)] begin_keyboard_arrives [OF d(8) bs(3)]
      by (auto simp: await_defs or_fail_def)
  next
    case (ProtocolWait i' slot' ring' dev descs)
    then show ?thesis using d ask_report_arrives [OF d(8)] by (auto simp: await_defs)
  next
    case (ReportWait i' slot' ring' dev descs prev)
    obtain evs pressed where "keyboard_round prev (mem (xdev xhc) (report_buf bx) 8) = Ok (evs, pressed)"
      using keyboard_round_spec by blast
    then show ?thesis using d ReportWait ask_report_arrives [OF d(8)] by (auto simp: await_defs)
  qed (use d in simp_all)
qed

end
