(* ===== verification/Keyboard_Kernel.thy ===== *)
theory Keyboard_Kernel
  imports Keyboard_Path Driver_Theorems Executor "HOL-Library.Multiset"
begin

text \<open>
  The keyboard from end to end, on the executor: the driver task and the task of the event ring are in the queue of
  the kernel among any other tasks, and the controller works on the transfer ring of the device at its own pace,
  at any time between two turns of the executor.
\<close>

section \<open>The tasks of the kernel\<close>

datatype 'g kernel_task = EventTask | DriverTask run_pc | OtherTask 'g

text \<open>\<open>others_world\<close> is what the other tasks work on; after a panic the kernel is stopped.\<close>

record ('d, 'w) kernel_world =
  usb_ctrl :: "'d Controller"
  key_lines :: key_log
  others_world :: 'w
  stopped :: bool

definition OtherTask_task :: "'g Task \<Rightarrow> 'g kernel_task Task" where
  "OtherTask_task t = \<lparr>future = OtherTask (future t), task_file = task_file t, task_line = task_line t\<rparr>"

definition stop_kernel where
  "stop_kernel f w = (Pending, f, [], w\<lparr>stopped := True\<rparr>)"

definition kernel_poll :: "'d bus \<Rightarrow> ('d \<Rightarrow> u64 \<Rightarrow> nat \<Rightarrow> u8 list) \<Rightarrow> run_boxes \<Rightarrow> ('g, 'w, unit) poller \<Rightarrow>
    ('g kernel_task, ('d, 'w) kernel_world, unit) poller" where
  "kernel_poll bus mem bx other f w =
     (if stopped w then (Pending, f, [], w)
      else case f of
        EventTask \<Rightarrow>
          (case event_task_poll (usb_ctrl w) of
             Ok (r, xhc) \<Rightarrow> (case r of None \<Rightarrow> Pending | Some x \<Rightarrow> Ready x, EventTask, [], w\<lparr>usb_ctrl := xhc\<rparr>)
           | _ \<Rightarrow> stop_kernel f w)
      | DriverTask pc \<Rightarrow>
          (case run_poll bus mem bx pc (usb_ctrl w) of
             Some (Ok (pc', evs, xhc)) \<Rightarrow> (case pc' of Finished r \<Rightarrow> Ready r | _ \<Rightarrow> Pending, DriverTask pc', [],
               w\<lparr>usb_ctrl := xhc, key_lines := key_lines w @ evs\<rparr>)
           | _ \<Rightarrow> stop_kernel f w)
      | OtherTask g \<Rightarrow>
          (case other g (others_world w) of (p, g', spawned, w') \<Rightarrow>
            (p, OtherTask g', map OtherTask_task spawned, w\<lparr>others_world := w'\<rparr>)))"

fun is_usb :: "'g kernel_task \<Rightarrow> bool" where
  "is_usb (OtherTask g) = False" | "is_usb f = True"

text \<open>The queue has the two tasks of the driver once each.\<close>

definition usb_tasks :: "('g kernel_task, 'w, 'r) kernel \<Rightarrow> run_pc \<Rightarrow> bool" where
  "usb_tasks K pc \<longleftrightarrow> filter_mset is_usb (image_mset future (mset (queue_of K))) = {#EventTask, DriverTask pc#}"

section \<open>Runs\<close>

text \<open>
  The driver waits for its first transfer, that of the device descriptor. The controller is at the place \<open>pos\<close> of the
  transfer ring and has posted \<open>n\<close> events.
\<close>

definition ready_kernel where
  "ready_kernel K pos n \<longleftrightarrow> \<not> stopped (kworld K) \<and> key_lines (kworld K) = [] \<and>
     (\<exists>pc c. usb_tasks K pc \<and> pos = hw_pos c \<and> awaits_transfer (usb_ctrl (kworld K)) pc AtDevice n c)"

text \<open>The event of the TRB at \<open>a\<close>; the device changes its state to \<open>d\<close>, where the data of the transfer can be read.\<close>

definition answer_kernel where
  "answer_kernel n a d K = K\<lparr>kworld := (kworld K)\<lparr>usb_ctrl := answer (usb_ctrl (kworld K)) n a d\<rparr>\<rparr>"

text \<open>\<open>ds\<close> are the device states of the answers so far.\<close>

inductive keyboard_run for bus mem bx other where
  start: "ready_kernel K pos n \<Longrightarrow> keyboard_run bus mem bx other K pos n []"
| turn: "keyboard_run bus mem bx other K pos n ds \<Longrightarrow>
    keyboard_run bus mem bx other (run_turn (kernel_poll bus mem bx other) K) pos n ds"
| skipped: "\<lbrakk>keyboard_run bus mem bx other K pos n ds; DriverTask pc \<in> future ` set (queue_of K); ring_of pc = Some ring;
      hw_fetch (ring_trb (cmd_ring ring)) pos = Some (t, pos'); \<not> ioc t\<rbrakk>
    \<Longrightarrow> keyboard_run bus mem bx other K pos' n ds"
| answered: "\<lbrakk>keyboard_run bus mem bx other K pos n ds; DriverTask pc \<in> future ` set (queue_of K); ring_of pc = Some ring;
      hw_fetch (ring_trb (cmd_ring ring)) pos = Some (t, pos'); ioc t\<rbrakk>
    \<Longrightarrow> keyboard_run bus mem bx other (answer_kernel n (fetched_addr ring pos') d K) pos' (Suc n) (ds @ [d])"

section \<open>What the answers amount to\<close>

definition stage_run :: "('d \<Rightarrow> u64 \<Rightarrow> nat \<Rightarrow> u8 list) \<Rightarrow> run_boxes \<Rightarrow> 'd list \<Rightarrow> usb_stage \<times> key_log" where
  "stage_run mem bx ds = foldl (\<lambda>(s, log) d. case stage_step mem bx d s of (s', evs) \<Rightarrow> (s', log @ evs)) (AtDevice, []) ds"

abbreviation report_of :: "('d \<Rightarrow> u64 \<Rightarrow> nat \<Rightarrow> u8 list) \<Rightarrow> run_boxes \<Rightarrow> 'd \<Rightarrow> u8 list" where
  "report_of mem bx d \<equiv> mem d (report_buf bx) 8"

text \<open>
  The number of answers before the first report: the device descriptor, the languages, the strings that the device
  has, the two parts of the configuration and the change of the protocol.
\<close>

definition answers_before_reports :: "('d \<Rightarrow> u64 \<Rightarrow> nat \<Rightarrow> u8 list) \<Rightarrow> run_boxes \<Rightarrow> 'd list \<Rightarrow> nat" where
  "answers_before_reports mem bx ds =
     5 + length (filter (\<lambda>idx. idx \<noteq> 0) (string_idxs (decode_device (mem (hd ds) (device_buf bx) 18))))"

lemma stage_run_simps [simp]:
  "stage_run mem bx [] = (AtDevice, [])"
  "stage_run mem bx (ds @ [d]) = (case stage_run mem bx ds of (s, log) \<Rightarrow>
     case stage_step mem bx d s of (s', evs) \<Rightarrow> (s', log @ evs))"
  by (simp_all add: stage_run_def split_def)

lemma stage_run_ok: "keyboard_device mem bx \<Longrightarrow> stage_ok mem bx (fst (stage_run mem bx ds))"
proof (induction ds rule: rev_induct)
  case (snoc d ds)
  then show ?case using stage_step_ok [of mem bx "fst (stage_run mem bx ds)" d] by (simp add: split_def)
qed simp

lemma keyboard_rounds_snoc:
  "keyboard_rounds prev rs = Ok (log, prev1) \<Longrightarrow> keyboard_round prev1 r = Ok (evs, prev2) \<Longrightarrow>
   keyboard_rounds prev (rs @ [r]) = Ok (log @ evs, prev2)"
  by (induction rs arbitrary: prev log) (auto simp: res_simps)

text \<open>The number of answers from a stage to the first report.\<close>

fun ahead :: "usb_stage \<Rightarrow> nat" where
  "ahead (AtLang dev) = 4 + length (filter (\<lambda>idx. idx \<noteq> 0) (string_idxs dev))"
| "ahead (AtString dev lang idxs) = 4 + length (filter (\<lambda>idx. idx \<noteq> 0) idxs)"
| "ahead (AtConfig dev) = 3" | "ahead (AtRest dev len) = 2" | "ahead (AtProtocol dev descs) = 1" | "ahead s = 0"

lemma ahead_next_text: "ahead (next_text dev lang idxs) = 3 + length (filter (\<lambda>idx. idx \<noteq> 0) idxs)"
  by (induction idxs) auto

lemma ahead_step:
  assumes "keyboard_device mem bx" "stage_ok mem bx s" "stage_step mem bx d s = (s', evs)" "0 < ahead s"
  shows "Suc (ahead s') = ahead s \<and> evs = [] \<and> (ahead s = 1 \<longrightarrow> (\<exists>dev descs. s' = AtReport dev descs []))"
proof (cases s)
  case (AtRest dev len)
  then have "keyboard_config (mem d (rest_buf bx) len)" using assms(1,2) by (auto simp: keyboard_device_def)
  then obtain descs where "collect_descriptors (mem d (rest_buf bx) len) 0 [] = Some (Ok descs)"
    using collect_chunks unfolding keyboard_config_def by metis
  then show ?thesis using assms(3) AtRest by auto
qed (use assms(3,4) ahead_next_text in auto)

lemma stage_run_spec:
  assumes "keyboard_device mem bx" "stage_run mem bx ds = (s, log)" "ds \<noteq> []"
  shows "if length ds < answers_before_reports mem bx ds then length ds + ahead s = answers_before_reports mem bx ds \<and> log = []
    else \<exists>dev descs prev. s = AtReport dev descs prev \<and>
      keyboard_rounds [] (map (report_of mem bx) (drop (answers_before_reports mem bx ds) ds)) = Ok (log, prev)"
  using assms(2,3)
proof (induction ds arbitrary: s log rule: rev_induct)
  case (snoc d ds)
  obtain s1 log1 where 1: "stage_run mem bx ds = (s1, log1)" by fastforce
  obtain evs where 2: "stage_step mem bx d s1 = (s, evs)" "log = log1 @ evs"
    using snoc.prems(1) 1 by (auto split: prod.splits)
  show ?case
  proof (cases "ds = []")
    case True
    then show ?thesis using 1 2 by (auto simp: answers_before_reports_def)
  next
    case False
    let ?m = "answers_before_reports mem bx ds"
    have m: "answers_before_reports mem bx (ds @ [d]) = ?m" using False by (simp add: answers_before_reports_def)
    note IH = snoc.IH [OF 1 False]
    show ?thesis
    proof (cases "length ds < ?m")
      case True
      then have "length ds + ahead s1 = ?m" "log1 = []" using IH by auto
      moreover have "Suc (ahead s) = ahead s1 \<and> evs = [] \<and> (ahead s1 = 1 \<longrightarrow> (\<exists>dev descs. s = AtReport dev descs []))"
        using ahead_step [OF assms(1) _ 2(1)] stage_run_ok [OF assms(1), of ds] 1 calculation True by simp
      ultimately show ?thesis using 2(2) unfolding m by auto
    next
      case False
      then obtain dev descs prev where r: "s1 = AtReport dev descs prev"
          "keyboard_rounds [] (map (report_of mem bx) (drop ?m ds)) = Ok (log1, prev)"
        using IH by auto
      obtain evs' pressed where k: "keyboard_round prev (report_of mem bx d) = Ok (evs', pressed)"
        using keyboard_round_spec by blast
      then have "keyboard_rounds [] (map (report_of mem bx) (drop ?m ds) @ [report_of mem bx d]) = Ok (log1 @ evs', pressed)"
        using keyboard_rounds_snoc [OF r(2)] by blast
      then show ?thesis using 2 k r(1) False unfolding m by auto
    qed
  qed
qed simp

corollary stage_run_log:
  assumes "keyboard_device mem bx"
  shows "\<exists>prev. keyboard_rounds [] (map (report_of mem bx) (drop (answers_before_reports mem bx ds) ds)) =
    Ok (snd (stage_run mem bx ds), prev)"
proof (cases "ds = []")
  case False
  obtain s log where 1: "stage_run mem bx ds = (s, log)" by fastforce
  show ?thesis using stage_run_spec [OF assms 1 False] 1 by (auto split: if_splits)
qed simp

section \<open>The invariant\<close>

text \<open>What the driver has done agrees with the answers, of which the last may be on its way, in one of \<open>r\<close> stages.\<close>

definition kb_state :: "('d \<Rightarrow> u64 \<Rightarrow> nat \<Rightarrow> u8 list) \<Rightarrow> run_boxes \<Rightarrow> nat \<times> bool \<Rightarrow> nat \<Rightarrow> nat \<Rightarrow>
    ('d, 'w) kernel_world \<Rightarrow> run_pc \<Rightarrow> 'd list \<Rightarrow> bool" where
  "kb_state mem bx pos n r w pc ds \<longleftrightarrow> \<not> stopped w \<and> (\<exists>c s ds'. pos = hw_pos c \<and> stage_run mem bx ds' = (s, key_lines w) \<and>
     (ds = ds' \<and> awaits_transfer (usb_ctrl w) pc s n c \<or>
      ds = ds' @ [xdev (usb_ctrl w)] \<and>
        (1 \<le> r \<and> delivered_transfer (usb_ctrl w) pc s n c \<or> 2 \<le> r \<and> answered_transfer (usb_ctrl w) pc s n c)))"

lemma kb_awaits:
  "\<lbrakk>\<not> stopped w; pos = hw_pos c; stage_run mem bx ds = (s, key_lines w); awaits_transfer (usb_ctrl w) pc s n c\<rbrakk>
   \<Longrightarrow> kb_state mem bx pos n r w pc ds"
  unfolding kb_state_def by blast

lemma kb_delivered:
  "\<lbrakk>\<not> stopped w; pos = hw_pos c; stage_run mem bx ds = (s, key_lines w); delivered_transfer (usb_ctrl w) pc s n c; 1 \<le> r\<rbrakk>
   \<Longrightarrow> kb_state mem bx pos n r w pc (ds @ [xdev (usb_ctrl w)])"
  unfolding kb_state_def by blast

lemma kb_answered:
  "\<lbrakk>\<not> stopped w; pos = hw_pos c; stage_run mem bx ds = (s, key_lines w); answered_transfer (usb_ctrl w) pc s n c; 2 \<le> r\<rbrakk>
   \<Longrightarrow> kb_state mem bx pos n r w pc (ds @ [xdev (usb_ctrl w)])"
  unfolding kb_state_def by blast

lemma kb_stateE:
  assumes "kb_state mem bx pos n r w pc ds"
  obtains (awaits) c s where "\<not> stopped w" "pos = hw_pos c" "stage_run mem bx ds = (s, key_lines w)"
      "awaits_transfer (usb_ctrl w) pc s n c"
    | (delivered) c s ds' where "\<not> stopped w" "pos = hw_pos c" "stage_run mem bx ds' = (s, key_lines w)"
      "delivered_transfer (usb_ctrl w) pc s n c" "1 \<le> r" "ds = ds' @ [xdev (usb_ctrl w)]"
    | (answered) c s ds' where "\<not> stopped w" "pos = hw_pos c" "stage_run mem bx ds' = (s, key_lines w)"
      "answered_transfer (usb_ctrl w) pc s n c" "2 \<le> r" "ds = ds' @ [xdev (usb_ctrl w)]"
  using assms unfolding kb_state_def by blast

definition kb_inv where
  "kb_inv mem bx pos n r K ds \<longleftrightarrow> (\<exists>pc. usb_tasks K pc \<and> kb_state mem bx pos n r (kworld K) pc ds)"

text \<open>A poll of each of the two tasks.\<close>

lemma event_poll_state:
  assumes "kb_state mem bx pos n r w pc ds"
  shows "\<exists>w'. kernel_poll bus mem bx other EventTask w = (Pending, EventTask, [], w') \<and>
    kb_state mem bx pos n (min r 1) w' pc ds"
  using assms
proof (cases rule: kb_stateE)
  case (awaits c s)
  then have "event_task_poll (usb_ctrl w) = Ok (None, usb_ctrl w)" by (auto simp: awaits_transfer_def intro: event_task_idle)
  then show ?thesis using kb_awaits [OF awaits] awaits(1) by (simp add: kernel_poll_def)
next
  case (delivered c s ds')
  then have "event_task_poll (usb_ctrl w) = Ok (None, usb_ctrl w)" by (auto simp: delivered_transfer_def intro: event_task_idle)
  then show ?thesis using kb_delivered [OF delivered(1-4), of "min r 1"] delivered(1,5,6) by (simp add: kernel_poll_def)
next
  case (answered c s ds')
  obtain er where er: "event_task_poll (usb_ctrl w) = Ok (None, usb_ctrl w\<lparr>primary_event_ring := er\<rparr>)"
      "delivered_transfer (usb_ctrl w\<lparr>primary_event_ring := er\<rparr>) pc s n c"
    using event_task_delivers [OF answered(4)] by blast
  let ?w = "w\<lparr>usb_ctrl := usb_ctrl w\<lparr>primary_event_ring := er\<rparr>\<rparr>"
  have "kb_state mem bx pos n (min r 1) ?w pc (ds' @ [xdev (usb_ctrl ?w)])"
    using answered(1-3,5) er(2) by (intro kb_delivered [where c = c and s = s]) simp_all
  then show ?thesis using er(1) answered(1,6) by (simp add: kernel_poll_def)
qed

lemma not_finished: "(\<forall>r. pc \<noteq> Finished r) \<Longrightarrow> (case pc of Finished r \<Rightarrow> Ready r | _ \<Rightarrow> Pending) = Pending"
  by (cases pc) auto

lemma transfer_not_finished: "transfer_state xhc pc s posted m q a h \<Longrightarrow> \<forall>r. pc \<noteq> Finished r"
  by (auto simp: transfer_state_def)

lemma driver_poll_idle:
  assumes "transfer_state (usb_ctrl w) pc s posted m [] a h" "\<not> stopped w"
  shows "kernel_poll bus mem bx other (DriverTask pc) w = (Pending, DriverTask pc, [], w)"
  using driver_idle [OF assms(1), of bus mem bx] assms(2) not_finished [OF transfer_not_finished [OF assms(1)]]
  by (simp add: kernel_poll_def del: run_poll.simps)

lemma driver_poll_state:
  assumes "kb_state mem bx pos n r w pc ds" "keyboard_device mem bx"
  shows "\<exists>w' pc'. kernel_poll bus mem bx other (DriverTask pc) w = (Pending, DriverTask pc', [], w') \<and>
    kb_state mem bx pos n (if r \<le> 1 then 0 else r) w' pc' ds"
  using assms(1)
proof (cases rule: kb_stateE)
  case (awaits c s)
  then show ?thesis using kb_awaits [OF awaits] by (auto simp: awaits_transfer_def dest: driver_poll_idle)
next
  case (delivered c s ds')
  let ?step = "stage_step mem bx (xdev (usb_ctrl w)) s"
  have "stage_ok mem bx s" using stage_run_ok [OF assms(2), of ds'] delivered(3) by simp
  then obtain pc' xhc' where d: "run_poll bus mem bx pc (usb_ctrl w) = Some (Ok (pc', snd ?step, xhc'))"
      "awaits_transfer xhc' pc' (fst ?step) n c"
    using driver_takes [OF delivered(4) assms(2), of bus] by (auto simp: arrives_def)
  have nf: "\<forall>r. pc' \<noteq> Finished r" using d(2) by (auto simp: awaits_transfer_def transfer_state_def)
  let ?w = "w\<lparr>usb_ctrl := xhc', key_lines := key_lines w @ snd ?step\<rparr>"
  have "kernel_poll bus mem bx other (DriverTask pc) w = (Pending, DriverTask pc', [], ?w)"
    using delivered(1) d(1) not_finished [OF nf] by (simp add: kernel_poll_def del: run_poll.simps stage_step.simps)
  moreover have "kb_state mem bx pos n (if r \<le> 1 then 0 else r) ?w pc' ds"
    using delivered(1-3,6) d(2)
    by (intro kb_awaits [where c = c and s = "fst ?step"]) (simp_all add: split_def del: stage_step.simps)
  ultimately show ?thesis by blast
next
  case (answered c s ds')
  then show ?thesis
    using kb_answered [OF answered(1-5)] by (auto simp: answered_transfer_def dest: driver_poll_idle)
qed

lemma kb_state_mono:
  assumes "kb_state mem bx pos n r w pc ds" "r \<le> r'"
  shows "kb_state mem bx pos n r' w pc ds"
  using assms(1)
proof (cases rule: kb_stateE)
  case awaits
  then show ?thesis by (rule kb_awaits)
next
  case (delivered c s ds')
  then show ?thesis using kb_delivered [OF delivered(1-4), of r'] assms(2) by simp
next
  case (answered c s ds')
  then show ?thesis using kb_answered [OF answered(1-4), of r'] assms(2) by simp
qed

lemma other_poll_state:
  assumes "\<not> stopped w" "kernel_poll bus mem bx other (OtherTask g) w = (p, f, spawned, w')"
  shows "\<not> is_usb f \<and> (\<forall>t \<in> set spawned. \<not> is_usb (future t)) \<and>
    kb_state mem bx pos n r w' pc ds = kb_state mem bx pos n r w pc ds"
proof -
  obtain g' sp w2 where "other g (others_world w) = (p, g', sp, w2)" "f = OtherTask g'" "spawned = map OtherTask_task sp"
      "w' = w\<lparr>others_world := w2\<rparr>"
    using assms by (cases "other g (others_world w)") (auto simp: kernel_poll_def)
  then show ?thesis by (auto simp: OtherTask_task_def kb_state_def)
qed

section \<open>A turn of the executor\<close>

lemma usb_tasks_head:
  assumes "usb_tasks K pc" "queue_of K = t # q"
  shows "future t = EventTask \<and> filter_mset is_usb (image_mset future (mset q)) = {#DriverTask pc#} \<or>
    future t = DriverTask pc \<and> filter_mset is_usb (image_mset future (mset q)) = {#EventTask#} \<or>
    (\<exists>g. future t = OtherTask g) \<and> filter_mset is_usb (image_mset future (mset q)) = {#EventTask, DriverTask pc#}"
  using assms by (cases "future t") (auto simp: usb_tasks_def add_eq_conv_ex add_mset_eq_single)

text \<open>\<open>s\<close> tells how far a turn of the task \<open>f\<close> brings an answer.\<close>

fun stage_after :: "'g kernel_task \<Rightarrow> nat \<Rightarrow> nat" where
  "stage_after EventTask r = min r 1" | "stage_after (DriverTask pc) r = (if r \<le> 1 then 0 else r)"
| "stage_after (OtherTask g) r = r"

lemma turn_inv:
  assumes "kb_inv mem bx pos n r K ds" "queue_of K = t # q" "keyboard_device mem bx"
  shows "kb_inv mem bx pos n (stage_after (future t) r) (run_turn (kernel_poll bus mem bx other) K) ds"
proof -
  let ?poll = "kernel_poll bus mem bx other"
  obtain pc where pc: "usb_tasks K pc" "kb_state mem bx pos n r (kworld K) pc ds"
    using assms(1) unfolding kb_inv_def by blast
  have go: "\<not> stopped (kworld K)" using pc(2) by (simp add: kb_state_def)
  from usb_tasks_head [OF pc(1) assms(2)] show ?thesis
  proof (elim disjE conjE exE)
    assume f: "future t = EventTask" "filter_mset is_usb (image_mset future (mset q)) = {#DriverTask pc#}"
    obtain w' where w: "?poll EventTask (kworld K) = (Pending, EventTask, [], w')" "kb_state mem bx pos n (min r 1) w' pc ds"
      using event_poll_state [OF pc(2)] by blast
    have "Task_poll ?poll t (kworld K) = (Pending, t, [], w')" using w(1) f(1) by (simp add: Task_poll_def)
    from run_turn_queue [OF assms(2) this] show ?thesis
      using w(2) f by (auto simp: kb_inv_def usb_tasks_def)
  next
    assume f: "future t = DriverTask pc" "filter_mset is_usb (image_mset future (mset q)) = {#EventTask#}"
    obtain w' pc' where w: "?poll (DriverTask pc) (kworld K) = (Pending, DriverTask pc', [], w')"
        "kb_state mem bx pos n (if r \<le> 1 then 0 else r) w' pc' ds"
      using driver_poll_state [OF pc(2) assms(3)] by blast
    have "Task_poll ?poll t (kworld K) = (Pending, t\<lparr>future := DriverTask pc'\<rparr>, [], w')" using w(1) f(1) by (simp add: Task_poll_def)
    from run_turn_queue [OF assms(2) this] show ?thesis
      using w(2) f by (auto simp: kb_inv_def usb_tasks_def)
  next
    fix g
    assume f: "future t = OtherTask g" "filter_mset is_usb (image_mset future (mset q)) = {#EventTask, DriverTask pc#}"
    obtain p f' sp w' where w: "?poll (OtherTask g) (kworld K) = (p, f', sp, w')" by (metis prod_cases4)
    note o = other_poll_state [OF go w]
    have "Task_poll ?poll t (kworld K) = (p, t\<lparr>future := f'\<rparr>, sp, w')" using w f(1) by (simp add: Task_poll_def)
    note turn = run_turn_queue [OF assms(2) this]
    have none: "filter_mset is_usb (image_mset future (mset sp)) = {#}" using o by (auto simp: filter_mset_eq_conv)
    have "\<not> is_usb f'" using o by blast
    then have "usb_tasks (run_turn ?poll K) pc" using turn f(2) by (cases p) (simp_all add: usb_tasks_def none)
    moreover have "kb_state mem bx pos n r (kworld (run_turn ?poll K)) pc ds" using turn o pc(2) by simp
    ultimately show ?thesis using f(1) by (auto simp: kb_inv_def)
  qed
qed

lemma stage_after_le: "stage_after f r \<le> r"
  by (cases f) auto

lemma kb_inv_mono: "kb_inv mem bx pos n r K ds \<Longrightarrow> r \<le> r' \<Longrightarrow> kb_inv mem bx pos n r' K ds"
  unfolding kb_inv_def using kb_state_mono by blast

lemma kb_inv_queue: "kb_inv mem bx pos n r K ds \<Longrightarrow> queue_of K \<noteq> []"
  by (auto simp: kb_inv_def usb_tasks_def)

lemma turns_inv:
  "kb_inv mem bx pos n r K ds \<Longrightarrow> keyboard_device mem bx \<Longrightarrow>
   kb_inv mem bx pos n r (run_turns (kernel_poll bus mem bx other) m K) ds"
proof (induction m arbitrary: K)
  case (Suc m)
  obtain t q where "queue_of K = t # q" using kb_inv_queue [OF Suc.prems(1)] by (cases "queue_of K") auto
  then have "kb_inv mem bx pos n r (run_turn (kernel_poll bus mem bx other) K) ds"
    using turn_inv [OF Suc.prems(1) _ Suc.prems(2)] kb_inv_mono stage_after_le by blast
  then show ?case using Suc.IH Suc.prems(2) by (simp add: run_turns_Suc)
qed (simp add: run_turns_def)

text \<open>Enough turns bring a task of the queue to its poll.\<close>

lemma turns_reach:
  assumes "kb_inv mem bx pos n r K ds" "t \<in> set (queue_of K)" "keyboard_device mem bx"
  shows "\<exists>m. kb_inv mem bx pos n (stage_after (future t) r) (run_turns (kernel_poll bus mem bx other) m K) ds"
proof -
  let ?poll = "kernel_poll bus mem bx other"
  obtain pre q where "queue_of K = pre @ t # q" using assms(2) split_list by fast
  then obtain q' where "queue_of (run_turns ?poll (length pre) K) = t # q'" using reaches_front by blast
  then have "kb_inv mem bx pos n (stage_after (future t) r) (run_turn ?poll (run_turns ?poll (length pre) K)) ds"
    using turn_inv [OF turns_inv [OF assms(1,3)] _ assms(3)] by blast
  moreover have "run_turn ?poll (run_turns ?poll (length pre) K) = run_turns ?poll (Suc (length pre)) K"
    using run_turns_add [of ?poll "length pre" 1 K] by (simp add: run_turns_def)
  ultimately show ?thesis by metis
qed

lemma kb_inv_tasks:
  assumes "kb_inv mem bx pos n r K ds"
  shows "\<exists>t \<in> set (queue_of K). future t = EventTask" "\<exists>t \<in> set (queue_of K). \<exists>pc. future t = DriverTask pc"
proof -
  obtain pc where "filter_mset is_usb (image_mset future (mset (queue_of K))) = {#EventTask, DriverTask pc#}"
    using assms by (auto simp: kb_inv_def usb_tasks_def)
  then have "EventTask \<in># filter_mset is_usb (image_mset future (mset (queue_of K)))"
      "DriverTask pc \<in># filter_mset is_usb (image_mset future (mset (queue_of K)))" by simp_all
  then show "\<exists>t \<in> set (queue_of K). future t = EventTask" "\<exists>t \<in> set (queue_of K). \<exists>pc. future t = DriverTask pc"
    by auto metis+
qed

lemma turns_finish:
  assumes "kb_inv mem bx pos n 2 K ds" "keyboard_device mem bx"
  shows "\<exists>m. kb_inv mem bx pos n 0 (run_turns (kernel_poll bus mem bx other) m K) ds"
proof -
  obtain m1 where m1: "kb_inv mem bx pos n 1 (run_turns (kernel_poll bus mem bx other) m1 K) ds"
    using kb_inv_tasks(1) [OF assms(1)] turns_reach [OF assms(1) _ assms(2), where bus = bus and other = other] by fastforce
  obtain m2 where "kb_inv mem bx pos n 0 (run_turns (kernel_poll bus mem bx other) m2 (run_turns (kernel_poll bus mem bx other) m1 K)) ds"
    using kb_inv_tasks(2) [OF m1] turns_reach [OF m1 _ assms(2), where bus = bus and other = other] by fastforce
  then show ?thesis by (metis run_turns_add)
qed


section \<open>The invariant of all runs\<close>

lemma usb_tasks_unique: "usb_tasks K pc \<Longrightarrow> DriverTask pc' \<in> future ` set (queue_of K) \<longleftrightarrow> pc' = pc"
proof -
  assume "usb_tasks K pc"
  then have "DriverTask pc' \<in># filter_mset is_usb (image_mset future (mset (queue_of K))) \<longleftrightarrow> DriverTask pc' \<in># {#EventTask, DriverTask pc#}"
    by (simp add: usb_tasks_def)
  then show ?thesis by auto
qed

lemma answer_kernel_simps [simp]:
  "queue_of (answer_kernel n a d K) = queue_of K"
  "kworld (answer_kernel n a d K) = (kworld K)\<lparr>usb_ctrl := answer (usb_ctrl (kworld K)) n a d\<rparr>"
  by (simp_all add: answer_kernel_def queue_of_def)

lemma fetch_skip:
  assumes "kb_state mem bx pos n r w pc ds" "ring_of pc = Some ring"
    "hw_fetch (ring_trb (cmd_ring ring)) pos = Some (t, pos')" "\<not> ioc t"
  shows "kb_state mem bx pos' n r w pc ds"
  using assms(1)
proof (cases rule: kb_stateE)
  case (awaits c s)
  then obtain posted h v where a: "length posted = n" "open_at h c v" "transfer_state (usb_ctrl w) pc s posted n [] (addr_at pc v) h"
    by (auto simp: awaits_transfer_def)
  then have "ring_inv ring h" using assms(2) by (auto simp: transfer_state_def)
  then have "open_at h (Suc c) v" "pos' = hw_pos (Suc c)"
    using open_fetch [OF a(2)] assms(3,4) awaits(2) by (metis option.inject prod.inject)+
  then show ?thesis using awaits(1,3) a by (intro kb_awaits [where c = "Suc c" and s = s]) (auto simp: awaits_transfer_def)
next
  case (delivered c s ds')
  then obtain posted h a b where a: "length posted = n" "closed_at h c"
      "transfer_state (usb_ctrl w) pc s posted n [with_cyc b (success_event a)] a h"
    by (auto simp: delivered_transfer_def)
  then have "ring_inv ring h" using assms(2) by (auto simp: transfer_state_def)
  then have c: "closed_at h (Suc c)" "pos' = hw_pos (Suc c)" using closed_fetch [OF a(2)] assms(3) delivered(2) by blast+
  then have "delivered_transfer (usb_ctrl w) pc s n (Suc c)" using a unfolding delivered_transfer_def by blast
  then show ?thesis using kb_delivered [OF delivered(1) c(2) delivered(3)] delivered(5,6) by simp
next
  case (answered c s ds')
  then obtain posted h a where a: "Suc (length posted) = n" "closed_at h c"
      "transfer_state (usb_ctrl w) pc s (posted @ [success_event a]) (length posted) [] a h"
    by (auto simp: answered_transfer_def)
  then have "ring_inv ring h" using assms(2) by (auto simp: transfer_state_def)
  then have c: "closed_at h (Suc c)" "pos' = hw_pos (Suc c)" using closed_fetch [OF a(2)] assms(3) answered(2) by blast+
  then have "answered_transfer (usb_ctrl w) pc s n (Suc c)" using a unfolding answered_transfer_def by blast
  then show ?thesis using kb_answered [OF answered(1) c(2) answered(3)] answered(5,6) by simp
qed

lemma closed_not_ioc:
  assumes "closed_at h c" "transfer_state xhc pc s posted m q a h" "ring_of pc = Some ring"
    "hw_fetch (ring_trb (cmd_ring ring)) (hw_pos c) = Some (t, pos')"
  shows "\<not> ioc t"
  using closed_fetch [OF assms(1) _ assms(4)] assms(2,3) by (auto simp: transfer_state_def)

lemma fetch_answer:
  assumes "kb_state mem bx pos n r w pc ds" "ring_of pc = Some ring"
    "hw_fetch (ring_trb (cmd_ring ring)) pos = Some (t, pos')" "ioc t"
  shows "kb_state mem bx pos' (Suc n) 2 (w\<lparr>usb_ctrl := answer (usb_ctrl w) n (fetched_addr ring pos') d\<rparr>) pc (ds @ [d])"
  using assms(1)
proof (cases rule: kb_stateE)
  case (awaits c s)
  then obtain posted h v where a: "length posted = n" "open_at h c v" "transfer_state (usb_ctrl w) pc s posted n [] (addr_at pc v) h"
    by (auto simp: awaits_transfer_def)
  then have inv: "ring_inv ring h" using assms(2) by (auto simp: transfer_state_def)
  then have v: "c = v" "pos' = hw_pos (Suc c)" "closed_at h (Suc c)"
    using open_fetch [OF a(2)] assms(3,4) awaits(2) by (metis option.inject prod.inject)+
  then have "fetched_addr ring pos' = addr_at pc v" using assms(2) by (simp add: fetched_addr_eq addr_at_def)
  then have "answered_transfer (answer (usb_ctrl w) n (fetched_addr ring pos') d) pc s (Suc n) (Suc c)"
    using answer_step [of "usb_ctrl w" pc s posted "addr_at pc v" h d] a v(3) by (auto simp: answered_transfer_def)
  then show ?thesis
    using kb_answered [of "w\<lparr>usb_ctrl := answer (usb_ctrl w) n (fetched_addr ring pos') d\<rparr>" pos' "Suc c" mem bx ds s pc "Suc n" 2]
      awaits(1,3) v(2) by (simp add: answer_def)
next
  case (delivered c s ds')
  then show ?thesis using closed_not_ioc [OF _ _ assms(2)] assms(3,4) unfolding delivered_transfer_def by blast
next
  case (answered c s ds')
  then show ?thesis using closed_not_ioc [OF _ _ assms(2)] assms(3,4) unfolding answered_transfer_def by blast
qed

lemma keyboard_run_inv:
  assumes "keyboard_run bus mem bx other K pos n ds" "keyboard_device mem bx"
  shows "kb_inv mem bx pos n 2 K ds"
  using assms(1)
proof (induction rule: keyboard_run.induct)
  case (start K pos n)
  then show ?case by (auto simp: ready_kernel_def kb_inv_def intro!: kb_awaits)
next
  case (turn K pos n ds)
  then show ?case using turns_inv [of mem bx pos n 2 K ds bus other 1] assms(2) by (simp add: run_turns_def)
next
  case (skipped K pos n ds pc ring t pos')
  then show ?case using usb_tasks_unique fetch_skip unfolding kb_inv_def by metis
next
  case (answered K pos n ds pc ring t pos' d)
  then obtain pc' where p: "usb_tasks K pc'" "kb_state mem bx pos n 2 (kworld K) pc' ds"
    unfolding kb_inv_def by blast
  have "pc' = pc" using usb_tasks_unique [OF p(1), of pc] answered.hyps(2) by simp
  then show ?case
    using p fetch_answer [OF p(2), of ring t pos' d] answered.hyps(3-5) by (auto simp: kb_inv_def usb_tasks_def)
qed

lemma keyboard_run_turns:
  "keyboard_run bus mem bx other K pos n ds \<Longrightarrow>
   keyboard_run bus mem bx other (run_turns (kernel_poll bus mem bx other) m K) pos n ds"
proof (induction m arbitrary: K)
  case (Suc m)
  show ?case using Suc.IH [OF keyboard_run.turn [OF Suc.prems]] by (simp add: run_turns_Suc)
qed (simp add: run_turns_def)

text \<open>After enough turns the driver waits, the log is complete and the request is in the transfer ring.\<close>

lemma keyboard_run_waits:
  assumes "keyboard_run bus mem bx other K pos n ds" "keyboard_device mem bx"
  obtains m pc ring s c h v where "DriverTask pc \<in> future ` set (queue_of (run_turns (kernel_poll bus mem bx other) m K))"
    "ring_of pc = Some ring" "stage_run mem bx ds = (s, key_lines (kworld (run_turns (kernel_poll bus mem bx other) m K)))"
    "pos = hw_pos c" "open_at h c v" "ring_inv ring h"
proof -
  obtain m where m: "kb_inv mem bx pos n 0 (run_turns (kernel_poll bus mem bx other) m K) ds"
    using turns_finish [OF keyboard_run_inv [OF assms] assms(2), where bus = bus and other = other] by blast
  let ?K = "run_turns (kernel_poll bus mem bx other) m K"
  obtain pc where pc: "usb_tasks ?K pc" "kb_state mem bx pos n 0 (kworld ?K) pc ds"
    using m unfolding kb_inv_def by blast
  have q: "DriverTask pc \<in> future ` set (queue_of ?K)" using usb_tasks_unique [OF pc(1)] by simp
  obtain c s where a: "pos = hw_pos c" "stage_run mem bx ds = (s, key_lines (kworld ?K))"
      "awaits_transfer (usb_ctrl (kworld ?K)) pc s n c"
    using pc(2) by (cases rule: kb_stateE) auto
  obtain h v posted where h: "open_at h c v" "transfer_state (usb_ctrl (kworld ?K)) pc s posted n [] (addr_at pc v) h"
    using a(3) by (auto simp: awaits_transfer_def)
  obtain ring where "ring_of pc = Some ring" "ring_inv ring h" using h(2) by (rule transfer_stateE)
  then show thesis using that q a(1,2) h(1) by blast
qed

text \<open>The controller can go on: runs have any number of answers.\<close>

lemma keyboard_run_fetch:
  assumes "keyboard_run bus mem bx other K (hw_pos c) n ds" "open_at h c v" "ring_inv ring h"
    "DriverTask pc \<in> future ` set (queue_of K)" "ring_of pc = Some ring"
  shows "\<exists>K' pos'. keyboard_run bus mem bx other K' pos' (Suc n) (ds @ [d])"
  using assms(1,2)
proof (induction "v - c" arbitrary: c)
  case 0
  then have "c = v" by (simp add: open_at_def)
  then show ?case using open_fetch [OF 0(3) assms(3)] keyboard_run.answered [OF 0(2) assms(4,5)] by metis
next
  case (Suc x)
  then have "c \<noteq> v" "x = v - Suc c" by auto
  then show ?case using open_fetch [OF Suc(4) assms(3)] keyboard_run.skipped [OF Suc(3) assms(4,5)] Suc(1) by metis
qed

lemma keyboard_run_next:
  assumes "keyboard_run bus mem bx other K pos n ds" "keyboard_device mem bx"
  shows "\<exists>K' pos' n'. keyboard_run bus mem bx other K' pos' n' (ds @ [d])"
  using assms
proof (rule keyboard_run_waits)
  fix m pc ring s c h v
  assume "DriverTask pc \<in> future ` set (queue_of (run_turns (kernel_poll bus mem bx other) m K))" "ring_of pc = Some ring"
    "pos = hw_pos c" "open_at h c v" "ring_inv ring h"
  moreover from this have "keyboard_run bus mem bx other (run_turns (kernel_poll bus mem bx other) m K) (hw_pos c) n ds"
    using keyboard_run_turns [OF assms(1), of m] by simp
  ultimately show ?thesis using keyboard_run_fetch [of bus mem bx other "run_turns (kernel_poll bus mem bx other) m K" c n ds h v ring pc d]
    by blast
qed

section \<open>A kernel that types\<close>

text \<open>A keyboard that reports the keys of its state, and another task that only counts its polls.\<close>

definition typing_mem :: "u8 list \<Rightarrow> u64 \<Rightarrow> nat \<Rightarrow> u8 list" where
  "typing_mem d a n = (if a = 0x7000 then take n ([0, 0] @ d @ replicate n 0) else run_mem () a n)"

definition counting_other :: "(unit, nat, unit) poller" where
  "counting_other g w = (Pending, g, [], Suc w)"

definition typing_bus :: "u8 list bus" where
  "typing_bus = \<lparr>rd32 = \<lambda>a d. (0, d), wr32 = \<lambda>a v d. d, rd64 = \<lambda>a d. (0, d), wr64 = \<lambda>a v d. d\<rparr>"

lemma typing_xhc:
  "\<exists>xhc :: u8 list Controller. waiters_ok (primary_event_ring xhc) \<and> event_inv (primary_event_ring xhc) [] 0 \<and> xregs xhc = demo_regs"
proof -
  obtain cr where "CommandRing_default 0x8000 = Ok cr" using CommandRing_default_inv by blast
  obtain er where er: "EventRing_new 0x9000 0xA000 = Ok er" "event_inv (set_erdp er 0x9000) [] 0"
    using event_inv_start by blast
  have "wait_list er = []" using er(1) by (auto simp: EventRing_new_def EventRingSegmentTableEntry_new_def
      num_trbs_def NUM_TRB_def Let_def)
  then have "waiters_ok (set_erdp er 0x9000)" by (simp add: waiters_ok_def set_erdp_def)
  then show ?thesis
    using er(2) by (intro exI [of _ "\<lparr>xregs = demo_regs, device_context_base_array = DCBAA_new 0 \<lparr>scratch_table = 0, scratch_bufs = []\<rparr>,
      primary_event_ring = set_erdp er 0x9000, command_ring = cr, xdev = []\<rparr>"]) simp
qed

definition typing_kernel :: "unit kernel_task \<Rightarrow> u8 list Controller \<Rightarrow> (unit kernel_task, (u8 list, nat) kernel_world, unit) kernel" where
  "typing_kernel driver xhc =
     \<lparr>executor = Some \<lparr>task_queue_opt = Some (map (Task_new (''xhci.rs'', 113)) [driver, OtherTask (), EventTask])\<rparr>,
      kworld = \<lparr>usb_ctrl = xhc, key_lines = [], others_world = 0, stopped = False\<rparr>, completed = []\<rparr>"

lemma typing_device: "keyboard_device typing_mem demo_boxes"
proof -
  have "typing_mem d 0x6000 n = concat demo_config" for d n using demo_descriptors(4) by (simp add: typing_mem_def run_mem_def)
  moreover have "keyboard_config (concat demo_config)"
    using demo_descriptors(2,3) unfolding keyboard_config_def by blast
  ultimately show ?thesis by (simp add: keyboard_device_def demo_boxes_def)
qed

lemma typing_start:
  "\<exists>K pos. keyboard_run typing_bus typing_mem demo_boxes counting_other K pos 0 []"
proof -
  obtain ring where r: "ring_inv ring []" using CommandRing_default_inv by blast
  obtain xhc0 :: "u8 list Controller" where x: "waiters_ok (primary_event_ring xhc0)" "event_inv (primary_event_ring xhc0) [] 0"
      "xregs xhc0 = demo_regs"
    using typing_xhc by blast
  have "transfer_done xhc0 1 ring 0 0"
    unfolding transfer_done_def using r x by (intro exI [of _ "[]"]) (simp add: closed_at_def demo_regs_def)
  then obtain i ring1 xhc where q: "request_device_descriptor typing_bus xhc0 1 ring 0x3000 = Ok (i, ring1, xhc)"
      "awaits_transfer xhc (DeviceWait i 1 ring1) AtDevice 0 0"
    using request_arrives [of xhc0 1 ring 0 0 typing_bus DescDevice 0 0 "0x3000" 18]
    by (auto simp: request_device_descriptor_def)
  have "usb_tasks (typing_kernel (DriverTask (DeviceWait i 1 ring1)) xhc) (DeviceWait i 1 ring1)"
    by (simp add: usb_tasks_def typing_kernel_def queue_of_def Task_new_def)
  then have "ready_kernel (typing_kernel (DriverTask (DeviceWait i 1 ring1)) xhc) (hw_pos 0) 0"
    using q(2) by (auto simp: ready_kernel_def typing_kernel_def)
  then show ?thesis by (blast intro: keyboard_run.start)
qed

lemma typing_run: "\<exists>K pos n. keyboard_run typing_bus typing_mem demo_boxes counting_other K pos n ds"
proof (induction ds rule: rev_induct)
  case Nil
  then show ?case using typing_start by blast
next
  case (snoc d ds)
  then show ?case using keyboard_run_next [OF _ typing_device] by blast
qed

text \<open>Five answers without keys, then three reports.\<close>

definition typed :: "u8 list list" where
  "typed = replicate 5 [] @ [[4], [4, 5], [5]]"

lemma typing_rounds:
  "keyboard_rounds [] (map (\<lambda>d. typing_mem d (report_buf demo_boxes) 8) (drop (answers_before_reports typing_mem demo_boxes typed) typed)) =
     Ok ([(True, 4, KChar 97), (True, 5, KChar 98), (False, 4, KChar 97)], [5])"
  by code_simp

lemma typing_rounds_butlast:
  "keyboard_rounds [] (map (\<lambda>d. typing_mem d (report_buf demo_boxes) 8)
      (drop (answers_before_reports typing_mem demo_boxes (butlast typed)) (butlast typed))) =
     Ok ([(True, 4, KChar 97), (True, 5, KChar 98)], [4, 5])"
  by code_simp

section \<open>Properties\<close>





end
