(* ===== verification/Kernel_Main.thy ===== *)
theory Kernel_Main
  imports Boot X86_Tables Executor Serial_Print
begin

text \<open>
  \<^verbatim>\<open>main.rs\<close>: the entry point \<^verbatim>\<open>efi_main\<close> as the composition of the initialisation steps, the three tasks that it
  spawns, each as the steps between its awaits, and the panic handler. The log output of \<^verbatim>\<open>efi_main\<close> itself
  is left out; that of the tasks is the list of lines they print.
\<close>

section \<open>The entry point\<close>

text \<open>The display, while the firmware still runs. \<open>line\<close> is the line number that a lock records.\<close>

definition boot_display where
  "boot_display source line pixels_at image_handle bs writer fw =
     and_then (expect (locate_loaded_image_protocol image_handle bs fw) ''Failed to get LoadedImageProtocol'') (\<lambda>(_, fw1).
     and_then (expect (init_vram bs pixels_at fw1) ''init_vram failed'') (\<lambda>(vram, fw2).
     and_then (draw_test_pattern source vram) (\<lambda>vram1.
     and_then (init_display source vram1) (\<lambda>vram2.
     and_then (set_global_vram line vram2 writer) (\<lambda>writer1. Ok (writer1, fw2))))))"

record memory_setup =
  mm_gdt :: GdtWrapper
  mm_idt :: "IdtDescriptor list"
  mm_cpu :: cpu_tables
  mm_root :: usize
  mm_vm :: "heap_state vm"

text \<open>Memory: the end of the boot services, the heap, the descriptor tables, the page tables.\<close>

definition boot_memory :: "(nat \<Rightarrow> u64) \<Rightarrow> u64 \<Rightarrow> cpu_tables \<Rightarrow> u64 \<Rightarrow> 'fw EfiBootServicesTable \<Rightarrow> 'fw \<Rightarrow>
    (memory_setup \<times> 'fw) res option" where
  "boot_memory entry unimpl cpu image_handle bs fw =
     and_then_opt (init_basic_runtime image_handle bs fw) (\<lambda>(memory_map, s, fw1).
     and_then_opt (init_allocator memory_map) (\<lambda>_.
     and_then_opt (init_exceptions entry unimpl cpu s) (\<lambda>((gdt, idt), cpu1, s1).
     and_then_opt (init_paging box_new_page memory_map \<lparr>vheap = s1, tables = Map.empty\<rparr>) (\<lambda>(root, vm).
     Some (Ok (\<lparr>mm_gdt = gdt, mm_idt = idt, mm_cpu = cpu1, mm_root = root, mm_vm = vm\<rparr>, fw1))))))"

text \<open>Devices: the timer and PCI, through whose drivers \<^verbatim>\<open>attach\<close> reaches the tasks they spawn.\<close>

definition boot_devices where
  "boot_devices bus pci m acpi attach d =
     and_then_opt (init_hpet bus m acpi None d) (\<lambda>(hp, d1).
     and_then_opt (init_pci pci m acpi attach d1) (\<lambda>d2.
     and_then_opt (Some (global_timestamp bus hp d2)) (\<lambda>(t0, d3). Some (Ok (hp, t0, d3)))))"

section \<open>The counting tasks\<close>

text \<open>
  The state of \<^verbatim>\<open>task1\<close> and \<^verbatim>\<open>task2\<close>: the numbers still to print, and from the first poll on the timeout of the
  sleep. A line of the log is the number and the duration printed with it. \<open>clock\<close> is \<^verbatim>\<open>global_timestamp\<close>;
  each use reads the timer again.
\<close>

type_synonym 'd clock = "'d \<Rightarrow> (nat \<times> 'd) res"

record count_task =
  count_rest :: "nat list"
  count_sleep :: "TimeoutFuture option"

definition count_start :: "nat \<Rightarrow> nat \<Rightarrow> count_task" where
  "count_start a b = \<lparr>count_rest = [a ..< Suc b], count_sleep = None\<rparr>"

definition sub_duration :: "nat \<Rightarrow> nat \<Rightarrow> nat res" where
  "sub_duration a b = (if b \<le> a then Ok (a - b) else Panic ''overflow when subtracting durations'')"

text \<open>\<^verbatim>\<open>sleep(d).await\<close> up to the first poll of its future.\<close>

definition begin_sleep :: "'d clock \<Rightarrow> nat \<Rightarrow> 'd \<Rightarrow> (TimeoutFuture \<times> unit Poll \<times> 'd) res" where
  "begin_sleep clock dur d =
     and_then (clock d) (\<lambda>(now, d1).
     and_then (TimeoutFuture_new now dur) (\<lambda>f.
     and_then (clock d1) (\<lambda>(now', d2). Ok (f, TimeoutFuture_poll now' f, d2))))"

text \<open>The loop of the task from the head on, until a sleep is pending.\<close>

fun count_loop :: "'d clock \<Rightarrow> nat \<Rightarrow> nat \<Rightarrow> nat list \<Rightarrow> (nat \<times> nat) list \<Rightarrow> 'd \<Rightarrow>
    (unit res Poll \<times> count_task \<times> (nat \<times> nat) list \<times> 'd) res" where
  "count_loop clock t0 dur [] log d = Ok (Ready (Ok ()), \<lparr>count_rest = [], count_sleep = None\<rparr>, log, d)"
| "count_loop clock t0 dur (i # is) log d =
     and_then (clock d) (\<lambda>(now, d1).
     and_then (sub_duration now t0) (\<lambda>e.
     and_then (begin_sleep clock dur d1) (\<lambda>(f, p, d2).
     case p of Ready _ \<Rightarrow> count_loop clock t0 dur is (log @ [(i, e)]) d2
     | Pending \<Rightarrow> Ok (Pending, \<lparr>count_rest = is, count_sleep = Some f\<rparr>, log @ [(i, e)], d2))))"

definition count_poll :: "'d clock \<Rightarrow> nat \<Rightarrow> nat \<Rightarrow> count_task \<Rightarrow> (nat \<times> nat) list \<Rightarrow> 'd \<Rightarrow>
    (unit res Poll \<times> count_task \<times> (nat \<times> nat) list \<times> 'd) res" where
  "count_poll clock t0 dur t log d =
     (case count_sleep t of
        None \<Rightarrow> count_loop clock t0 dur (count_rest t) log d
      | Some f \<Rightarrow>
          and_then (clock d) (\<lambda>(now, d1).
          case TimeoutFuture_poll now f of
            Pending \<Rightarrow> Ok (Pending, t, log, d1)
          | Ready _ \<Rightarrow> count_loop clock t0 dur (count_rest t) log d1))"

definition task1 where "task1 = count_start 100 103"
definition task1_sleep :: nat where "task1_sleep = 1 * 1000000000"
definition task2 where "task2 = count_start 200 203"
definition task2_sleep :: nat where "task2_sleep = 2 * 1000000000"

section \<open>The serial task\<close>

text \<open>
  The loop of \<^verbatim>\<open>serial_task\<close> until a sleep is pending; the log is the bytes it has read. The loop ends within a
  poll only where some sleep is not over at once.
\<close>

definition serial_sleep :: nat where "serial_sleep = 20 * 1000000"

partial_function (option) serial_loop :: "'d io_ports \<Rightarrow> 'd clock \<Rightarrow> u8 list \<Rightarrow> 'd \<Rightarrow>
    (TimeoutFuture \<times> u8 list \<times> 'd) res option" where
  "serial_loop io clock log d =
     (case try_read io COM1 d of
        Ok (v, d1) \<Rightarrow>
          (let log1 = (case v of None \<Rightarrow> log | Some c \<Rightarrow> log @ [c]) in
           case begin_sleep clock serial_sleep d1 of
             Ok (f, Pending, d2) \<Rightarrow> Some (Ok (f, log1, d2))
           | Ok (f, Ready _, d2) \<Rightarrow> serial_loop io clock log1 d2
           | Err m \<Rightarrow> Some (Err m) | Panic m \<Rightarrow> Some (Panic m) | UB \<Rightarrow> Some UB)
      | Err m \<Rightarrow> Some (Err m) | Panic m \<Rightarrow> Some (Panic m) | UB \<Rightarrow> Some UB)"

definition serial_poll :: "'d io_ports \<Rightarrow> 'd clock \<Rightarrow> TimeoutFuture option \<Rightarrow> u8 list \<Rightarrow> 'd \<Rightarrow>
    (TimeoutFuture \<times> u8 list \<times> 'd) res option" where
  "serial_poll io clock st log d =
     (case st of
        None \<Rightarrow> and_then_opt (loopback_test io COM1 d) (\<lambda>(_, d1). serial_loop io clock log d1)
      | Some f \<Rightarrow>
          and_then_opt (Some (clock d)) (\<lambda>(now, d1).
          case TimeoutFuture_poll now f of
            Pending \<Rightarrow> Some (Ok (f, log, d1))
          | Ready _ \<Rightarrow> serial_loop io clock log d1))"

section \<open>The three tasks in the executor\<close>

datatype main_future = Count1 count_task | Count2 count_task | Serial "TimeoutFuture option"

text \<open>The tasks spawned at the end of \<^verbatim>\<open>efi_main\<close>, with the lines of the three calls.\<close>

definition spawn_main :: "main_future Executor option \<Rightarrow> main_future Executor option" where
  "spawn_main g =
     spawn_global (Task_new (''src/main.rs'', 97) (Serial None))
     (spawn_global (Task_new (''src/main.rs'', 96) (Count2 task2))
     (spawn_global (Task_new (''src/main.rs'', 95) (Count1 task1)) g))"

text \<open>
  \<^verbatim>\<open>efi_main\<close> up to \<^verbatim>\<open>start_global_executor\<close>, whose loop is \<open>run_turns\<close>. The firmware and the devices are
  parameters; \<open>g\<close> is the executor with the tasks that the drivers have spawned.
\<close>

definition efi_main where
  "efi_main source line pixels_at cts entry unimpl cpu bus pci m attach g image_handle bs writer fw d =
     and_then_opt (Some (boot_display source line pixels_at image_handle bs writer fw)) (\<lambda>(writer1, fw1).
     and_then_opt (Some (expect_some (acpi_table cts) ''ACPI table not found'')) (\<lambda>acpi.
     and_then_opt (boot_memory entry unimpl cpu image_handle bs fw1) (\<lambda>(mem, fw2).
     and_then_opt (boot_devices bus pci m acpi attach d) (\<lambda>(hp, t0, d1).
     Some (Ok (writer1, mem, hp, t0, spawn_main g, d1))))))"

section \<open>The panic handler\<close>

text \<open>The message goes to the log, then the emulator is left; \<open>None\<close> where the UART never gets ready.\<close>

definition panic_handler where
  "panic_handler source io line msg st =
     and_then_opt (global_print source io line msg st) (\<lambda>(w, d). Some (Ok (w, exit_qemu io QemuFail d)))"

end
