(* ===== verification/Kernel_Theorems.thy ===== *)
theory Kernel_Theorems
  imports Kernel_Main Boot_Theorems X86_Theorems
begin

text \<open>
  The properties of the whole start: the memory that \<^verbatim>\<open>efi_main\<close> sets up, and the tasks that it spawns.
\<close>

section \<open>Where the heap lies\<close>

text \<open>\<open>heap_in lo hi s\<close>: every block of the heap, free or not, lies in \<open>[lo, hi)\<close>. The chain of headers has one reading.\<close>

definition heap_in :: "nat \<Rightarrow> nat \<Rightarrow> heap_state \<Rightarrow> bool" where
  "heap_in lo hi s \<longleftrightarrow> (\<forall>bs. heap_inv s bs \<longrightarrow> (\<forall>(a, z, al) \<in> set bs. lo \<le> a \<and> a + z \<le> hi))"

lemma heap_inI: "heap_inv s bs \<Longrightarrow> \<forall>(a, z, al) \<in> set bs. lo \<le> a \<and> a + z \<le> hi \<Longrightarrow> heap_in lo hi s"
  unfolding heap_in_def using heap_inv_unique by blast

lemma live_write_in:
  assumes "live_inv s L" "(p, n) \<in> L" "p \<le> q" "q + k \<le> p + n" "heap_in lo hi s"
  shows "heap_in lo hi (write_bytes s q k)"
proof -
  obtain bs where bs: "heap_inv s bs" "allocated bs = block_of ` L" "inj_on fst L" "\<forall>ob \<in> L. 32 \<le> fst ob"
    using assms(1) by (auto simp: live_inv_def)
  have m: "(p - 32, eff_size n + 32, True) \<in> set bs" "32 \<le> p"
    using block_of_mem [OF bs(2) assms(2)] bs(4) assms(2) by (auto simp: block_of_def)
  have "heap_inv (write_bytes s q k) bs"
    unfolding write_bytes_def using clobber_payload [OF bs(1) m(1)] m(2) assms(3,4) eff_size_ge [of n] by simp
  then show ?thesis using heap_inI assms(5) bs(1) unfolding heap_in_def by blast
qed

lemma alloc_in:
  assumes "live_inv s L" "layout_ok n align" "alloc_with_options s n align = Some (Ok (p, s'))" "heap_in lo hi s"
  shows "heap_in lo hi s'"
proof -
  obtain bs where bs: "heap_inv s bs" using assms(1) by (auto simp: live_inv_def)
  then have inv: "heap_inv s' (snd (spec_alloc n align bs))"
    using alloc_with_options_spec [OF bs assms(2)] assms(3) by auto
  have wf: "list_all wf_block bs" using bs by (simp add: heap_inv_def)
  have old: "\<forall>(a, z, al) \<in> set bs. lo \<le> a \<and> a + z \<le> hi" using assms(4) bs unfolding heap_in_def by blast
  have "lo \<le> fst c \<and> fst c + fst (snd c) \<le> hi" if "c \<in> set (snd (spec_alloc n align bs))" for c
    using spec_alloc_within [OF wf assms(2) that] old by fastforce
  then have "\<forall>(a, z, al) \<in> set (snd (spec_alloc n align bs)). lo \<le> a \<and> a + z \<le> hi" by fastforce
  then show ?thesis using heap_inI [OF inv] by blast
qed

lemma box_alloc_in:
  assumes "live_inv s L" "layout_ok n align" "box_alloc s n align = Some (Ok (p, s'))" "heap_in lo hi s"
  shows "heap_in lo hi s'"
proof -
  obtain s1 where a: "alloc_with_options s n align = Some (Ok (p, s1))" "p \<noteq> 0" "s' = write_bytes s1 p n"
    using assms(3) by (auto simp: box_alloc_def and_then_opt_def split: option.splits res.splits prod.splits if_splits)
  show ?thesis
    unfolding a(3)
    using live_write_in [OF live_alloc(1) [OF assms(1,2) a(1,2)] _ _ _ alloc_in [OF assms(1,2) a(1) assms(4)], of p n p n]
    by simp
qed

lemma live_object_in:
  assumes "live_inv s L" "heap_in lo hi s" "(p, n) \<in> L"
  shows "lo \<le> p \<and> p + n \<le> hi"
proof -
  obtain bs where bs: "heap_inv s bs" "allocated bs = block_of ` L" "\<forall>ob \<in> L. 32 \<le> fst ob"
    using assms(1) by (auto simp: live_inv_def)
  have "(p - 32, eff_size n + 32, True) \<in> set bs" "32 \<le> p"
    using block_of_mem [OF bs(2) assms(3)] bs(3) assms(3) by (auto simp: block_of_def)
  then show ?thesis using assms(2) bs(1) eff_size_ge [of n] unfolding heap_in_def by fastforce
qed

section \<open>The descriptor tables\<close>

definition heap_span :: "nat \<Rightarrow> nat \<Rightarrow> heap_state \<Rightarrow> bool" where
  "heap_span lo hi s \<longleftrightarrow> (\<exists>L. live_inv s L) \<and> heap_in lo hi s"

lemma box_alloc_span:
  assumes "box_alloc s n align = Some (Ok (p, s'))" "layout_ok n align" "heap_span lo hi s"
  shows "heap_span lo hi s'"
proof -
  obtain L where L: "live_inv s L" "heap_in lo hi s" using assms(3) by (auto simp: heap_span_def)
  then show ?thesis
    using box_alloc_spec [OF L(1) assms(2)] box_alloc_in [OF L(1) assms(2,1) L(2)] assms(1) by (auto simp: heap_span_def)
qed

lemma interrupt_stack_span:
  "alloc_interrupt_stack s = Some (Ok (r, s')) \<Longrightarrow> heap_span lo hi s \<Longrightarrow> heap_span lo hi s'"
  by (auto simp: alloc_interrupt_stack_def and_then_opt_eq_Ok intro: box_alloc_span [OF _ stack_layout(1)])

lemma stacks_span: "alloc_stacks s n = Some (Ok (rs, s')) \<Longrightarrow> heap_span lo hi s \<Longrightarrow> heap_span lo hi s'"
  by (induction n arbitrary: s rs) (auto simp: and_then_opt_eq_Ok dest: interrupt_stack_span)

lemmas table_layouts = stack_layout [unfolded One_nat_def]

lemma init_exceptions_span:
  assumes "init_exceptions entry unimpl cpu s = Some (Ok (tbs, cpu', s'))" "heap_span lo hi s"
  shows "heap_span lo hi s'"
proof -
  obtain gdt s1 idt params where g: "GdtWrapper_default s = Some (Ok (gdt, s1))"
      "Idt_new KERNEL_CS entry unimpl s1 = Some (Ok ((idt, params), s'))"
    using assms(1) by (auto simp: init_exceptions_def and_then_opt_eq_Ok Let_def)
  have "heap_span lo hi s1"
    using g(1) assms(2)
    by (auto simp: GdtWrapper_default_def TaskStateSegment64_new_def and_then_opt_eq_Ok
        dest: interrupt_stack_span stacks_span box_alloc_span [OF _ table_layouts(2)] box_alloc_span [OF _ table_layouts(3)])
  then show ?thesis
    using g(2) box_alloc_span [OF _ table_layouts(4)] by (auto simp: Idt_new_def and_then_opt_eq_Ok Let_def idt_entries_def)
qed

text \<open>The heap objects of the descriptor tables: the segments, the task state, its stacks and the interrupt table.\<close>

definition table_objects :: "GdtWrapper \<Rightarrow> cpu_tables \<Rightarrow> (usize \<times> usize) set" where
  "table_objects gdt cpu =
     {(gdt_addr gdt, 40), (tss_addr (gdt_tss64 gdt), 104), (unat (snd (idtr cpu)), 4096)} \<union>
     stack_of ` set (hd (tss_rsp (gdt_tss64 gdt)) # tl (tss_ist (gdt_tss64 gdt)))"

lemma idt_length: "length (idt_entries sel entry unimpl) = 256"
  by (simp add: idt_entries_def)

lemma table_objects_card:
  assumes "length rs = 8" "distinct (map stack_of rs)"
  shows "card ({(a, 40), (b, 104), (c, 4096)} \<union> stack_of ` set rs) = 11"
proof -
  have "card (stack_of ` set rs) = 8" using assms by (metis distinct_card length_map set_map)
  moreover have "{(a, 40), (b, 104), (c, 4096)} \<inter> stack_of ` set rs = {}"
    by (auto simp: stack_of_def HANDLER_STACK_SIZE_def)
  ultimately show ?thesis by (simp add: card_Un_disjoint)
qed

lemma init_exceptions_spec:
  assumes "live_inv s L"
  shows "init_exceptions entry unimpl cpu s = Some (Panic ''memory allocation failed'') \<or>
    (\<exists>gdt cpu' s'. init_exceptions entry unimpl cpu s = Some (Ok ((gdt, idt_entries KERNEL_CS entry unimpl), cpu', s')) \<and>
       live_inv s' (table_objects gdt cpu' \<union> L) \<and> card (table_objects gdt cpu') = 11 \<and>
       gdtr cpu' = (39, word_of_nat (gdt_addr gdt)) \<and>
       seg_cs cpu' = KERNEL_CS \<and> seg_ss cpu' = KERNEL_DS \<and> tr cpu' = TSS64_SEL)"
  using TSS_new_spec [OF assms]
proof (elim disjE exE conjE)
  fix t :: TaskStateSegment64 and s1
  define rs where "rs = hd (tss_rsp t) # tl (tss_ist t)"
  assume t: "TaskStateSegment64_new s = Some (Ok (t, s1))" "length (tss_ist t) = 8" and
    "let rs = hd (tss_rsp t) # tl (tss_ist t) in
         live_inv s1 (insert (tss_addr t, 104) (stack_of ` set rs \<union> L)) \<and> distinct (map stack_of rs) \<and>
         (\<forall>r \<in> set rs. HANDLER_STACK_SIZE \<le> unat r)"
  then have 1: "live_inv s1 (insert (tss_addr t, 104) (stack_of ` set rs \<union> L))" "distinct (map stack_of rs)" "length rs = 8"
    by (simp_all add: rs_def Let_def)
  from box_alloc_spec [OF 1(1) stack_layout(3)] show ?thesis
  proof (elim disjE exE conjE)
    fix a s2
    assume a: "box_alloc s1 40 1 = Some (Ok (a, s2))" "live_inv s2 (insert (a, 40) (insert (tss_addr t, 104) (stack_of ` set rs \<union> L)))"
    from box_alloc_spec [OF a(2) stack_layout(4)] show ?thesis
    proof (elim disjE exE conjE)
      fix b s3
      assume b: "box_alloc s2 4096 1 = Some (Ok (b, s3))" "b + 4096 < 2 ^ 64"
        "live_inv s3 (insert (b, 4096) (insert (a, 40) (insert (tss_addr t, 104) (stack_of ` set rs \<union> L))))"
      have bb: "unat (word_of_nat b :: u64) = b" using b(2) by (intro unat_u64) simp
      have set: "{(a, 40), (tss_addr t, 104), (b, 4096)} \<union> stack_of ` set rs \<union> L =
          insert (b, 4096) (insert (a, 40) (insert (tss_addr t, 104) (stack_of ` set rs \<union> L)))"
        by auto
      show ?thesis
        using t(1) a(1) b(1) b(3) [folded set] table_objects_card [OF 1(3,2), of a "tss_addr t" b] bb
        by (simp add: init_exceptions_def GdtWrapper_default_def Idt_new_def idt_length table_objects_def
            GdtWrapper_load_def write_cs_def write_ss_def write_ds_def write_es_def write_fs_def write_gs_def rs_def Let_def)
    qed (use t a in \<open>simp add: init_exceptions_def GdtWrapper_default_def Idt_new_def idt_length Let_def\<close>)
  qed (use t in \<open>simp add: init_exceptions_def GdtWrapper_default_def\<close>)
qed (simp add: init_exceptions_def GdtWrapper_default_def)

section \<open>The memory after the boot\<close>

lemma mapped_end_bound:
  assumes "d \<in> set ds" "memory_type d = CONVENTIONAL_MEMORY"
  shows "physical_start d + number_of_pages d * 4096 \<le> mapped_end ds"
  using assms
proof (induction ds rule: rev_induct)
  case (snoc e ds)
  then show ?case by (auto simp: mapped_end_def)
qed simp

lemma boot_blocks_in:
  assumes "mmap_ok ds"
  shows "\<forall>(a, z, al) \<in> set (boot_blocks ds). 4096 \<le> a \<and> a + z \<le> mapped_end ds"
proof -
  have "4096 \<le> a \<and> a + z \<le> mapped_end ds" if d: "d \<in> set ds" and b: "(a, z, al) \<in> set (region_blocks d)" for d a z al
  proof -
    have c: "memory_type d = CONVENTIONAL_MEMORY" using b by (auto simp: region_blocks_def split: if_splits)
    have "4096 dvd physical_start d" using assms d by (auto simp: mmap_ok_def list_all_iff)
    then have "physical_start d = 0 \<or> 4096 \<le> physical_start d" by (auto dest: dvd_imp_le)
    then show ?thesis
      using b mapped_end_bound [OF d c] by (auto simp: region_blocks_def Let_def split: if_splits)
  qed
  then show ?thesis by (fastforce simp: boot_blocks_def)
qed

lemma boot_heap_span:
  assumes "valid_mmap mm ds" "mmap_ok ds"
  shows "\<exists>s. init_with_mmap ALLOCATOR mm = Some (Ok s) \<and> live_inv s {} \<and> heap_in 4096 (mapped_end ds) s"
proof -
  obtain s where s: "init_with_mmap ALLOCATOR mm = Some (Ok s)" "heap_inv s (boot_blocks ds)"
    using init_fold_spec [OF assms(2)] by (auto simp: init_with_mmap_def for_mmap_valid [OF assms(1)])
  then show ?thesis
    using kernel_heap_live_inv [OF kernel_heap.boot [OF assms s(1)]] heap_inI [OF s(2) boot_blocks_in [OF assms(2)]] by blast
qed

lemma init_allocator_ok:
  assumes "valid_mmap mm ds" "sum_list (map number_of_pages ds) * 4096 < 2 ^ 64"
  shows "\<exists>n. init_allocator mm = Some (Ok n)"
proof -
  have "\<exists>m. fold_res (\<lambda>total e. if memory_type e \<noteq> CONVENTIONAL_MEMORY then Ok total else add64 total (number_of_pages e)) t es = Ok m \<and>
      m \<le> t + sum_list (map number_of_pages es)" if "t + sum_list (map number_of_pages es) < 2 ^ 52" for t es
    using that
  proof (induction es arbitrary: t)
    case (Cons e es)
    show ?case using Cons.IH [of t] Cons.IH [of "t + number_of_pages e"] Cons.prems
      by (auto simp: add_u_def)
  qed simp
  from this [of 0 ds] obtain m where "fold_res (\<lambda>total e. if memory_type e \<noteq> CONVENTIONAL_MEMORY then Ok total
      else add64 total (number_of_pages e)) 0 ds = Ok m" "m \<le> sum_list (map number_of_pages ds)"
    using assms(2) by auto
  then show ?thesis using assms(2) by (simp add: init_allocator_def for_mmap_valid [OF assms(1)] mul_u_def)
qed

text \<open>What \<^verbatim>\<open>efi_main\<close> leaves behind when it turns to the devices.\<close>

definition memory_ready :: "(nat \<Rightarrow> u64) \<Rightarrow> u64 \<Rightarrow> memory_setup \<Rightarrow> bool" where
  "memory_ready entry unimpl r \<longleftrightarrow>
     (let objs = table_objects (mm_gdt r) (mm_cpu r); vm = mm_vm r in
      card objs = 11 \<and> owned_pages objs (vheap vm) (dom (tables vm)) \<and> tree (tables vm) 3 (mm_root r) \<and>
      mm_idt r = idt_entries KERNEL_CS entry unimpl \<and> gdtr (mm_cpu r) = (39, word_of_nat (gdt_addr (mm_gdt r))) \<and>
      (\<forall>(p, n) \<in> objs. \<forall>a. p \<le> a \<longrightarrow> a < p + n \<longrightarrow>
         walk (tables vm) 3 (mm_root r) a = word_of_nat (page a * 4096) OR attr_bits ReadWriteKernel))"

lemma page_below: "a < n \<Longrightarrow> page a < region_pages n"
  by (simp add: page_def region_pages_def div_less_iff_less_mult)

text \<open>
  Property C9 (safety). The start of the kernel, from the end of the boot services to the installed page tables, on
  any valid memory map: either the heap is too small, which panics, or the eight interrupt stacks, the task state, the
  segment table and the interrupt table are eleven live heap objects, none of them used for a page table or by another,
  each address in them is mapped to itself, writable, and the processor has the tables' addresses.
\<close>

theorem boot_memory_ready:
  assumes "exit_from_efi_boot_services image_handle bs MemoryMapHolder_new fw = Some (Ok (mm, fw'))"
    and "valid_mmap mm ds" "mmap_ok ds" "mapped_end ds \<le> 2 ^ 48" "sum_list (map number_of_pages ds) * 4096 < 2 ^ 64"
  shows "boot_memory entry unimpl cpu image_handle bs fw = Some (Panic ''memory allocation failed'') \<or>
    (\<exists>r. boot_memory entry unimpl cpu image_handle bs fw = Some (Ok (r, fw')) \<and> memory_ready entry unimpl r)"
proof -
  obtain s where s: "init_with_mmap ALLOCATOR mm = Some (Ok s)" "live_inv s {}" "heap_in 4096 (mapped_end ds) s"
    using boot_heap_span [OF assms(2,3)] by blast
  obtain n where n: "init_allocator mm = Some (Ok n)" using init_allocator_ok [OF assms(2,5)] by blast
  note steps = boot_memory_def init_basic_runtime_def assms(1) s(1) n
  from init_exceptions_spec [OF s(2), of entry unimpl cpu] show ?thesis
  proof (elim disjE exE conjE)
    fix gdt cpu' s1
    assume e: "init_exceptions entry unimpl cpu s = Some (Ok ((gdt, idt_entries KERNEL_CS entry unimpl), cpu', s1))"
      and t: "live_inv s1 (table_objects gdt cpu' \<union> {})" "card (table_objects gdt cpu') = 11"
        "gdtr cpu' = (39, word_of_nat (gdt_addr gdt))"
    have "heap_in 4096 (mapped_end ds) s1"
      using init_exceptions_span [OF e, of 4096 "mapped_end ds"] s(2,3) unfolding heap_span_def by blast
    then have inside: "4096 \<le> p \<and> p + n \<le> mapped_end ds" if "(p, n) \<in> table_objects gdt cpu'" for p n
      using live_object_in [OF t(1), of 4096 "mapped_end ds" p n] that by simp
    have own: "owned_pages (table_objects gdt cpu') (vheap \<lparr>vheap = s1, tables = Map.empty\<rparr>) (dom (tables \<lparr>vheap = s1, tables = Map.empty\<rparr>))"
      using t(1) by (simp add: owned_pages_def)
    have "\<forall>e \<in> set ds. physical_start e + number_of_pages e * 4096 < 2 ^ 64"
      using assms(3) by (auto simp: mmap_ok_def list_all_iff)
    from init_paging_spec [OF own assms(2) this assms(4)] show ?thesis
    proof (elim disjE exE conjE)
      fix root vm'
      assume p: "init_paging box_new_page mm \<lparr>vheap = s1, tables = Map.empty\<rparr> = Some (Ok (root, vm'))"
        and v: "owned_pages (table_objects gdt cpu') (vheap vm') (dom (tables vm'))" "tree (tables vm') 3 root"
          "\<forall>a < 2 ^ 48. walk (tables vm') 3 root a = (if 4096 \<le> a \<and> page a < region_pages (mapped_end ds)
             then word_of_nat (page a * 4096) OR attr_bits ReadWriteKernel else 0)"
      have "walk (tables vm') 3 root a = word_of_nat (page a * 4096) OR attr_bits ReadWriteKernel"
        if "(p, n) \<in> table_objects gdt cpu'" "p \<le> a" "a < p + n" for p n a
        using v(3) inside [OF that(1)] that(2,3) assms(4) page_below [of a "mapped_end ds"] by simp
      then show ?thesis using e p v(1,2) t(2,3) by (auto simp: steps memory_ready_def Let_def)
    qed (simp add: steps e)
  qed (simp add: steps)
qed

text \<open>
  The witness: one region of 4331 pages at 1 MiB. \<open>head_free a z s\<close>: the first block of the heap is free; allocations
  without alignment are carved from its end.
\<close>

definition head_free :: "nat \<Rightarrow> nat \<Rightarrow> heap_state \<Rightarrow> bool" where
  "head_free a z s \<longleftrightarrow> (\<exists>bs. heap_inv s ((a, z, False) # bs))"

lemma box_alloc_head:
  assumes "head_free a z s" "layout_ok n 1" "0 < n" "eff_size n + 96 \<le> z" "32 dvd a" "32 dvd z"
  shows "\<exists>p s'. box_alloc s n 1 = Some (Ok (p, s')) \<and> head_free a (z - eff_size n - 32) s'"
proof -
  obtain bs where bs: "heap_inv s ((a, z, False) # bs)" using assms(1) by (auto simp: head_free_def)
  have d: "32 dvd a + z - eff_size n" using assms(4-6) eff_size_dvd [of n] by (simp add: dvd_diff_nat)
  then have p: "alloc_addr n 1 (a, z, False) = a + z - eff_size n"
    by (simp add: alloc_addr_def eff_align_def Let_def dvd_imp_mod_0)
  have "spec_alloc n 1 ((a, z, False) # bs) =
      (a + z - eff_size n, (a, z - eff_size n - 32, False) # (a + z - eff_size n - 32, eff_size n + 32, True) # bs)"
    using assms(3,4) by (simp add: fits_def eff_align_def split_block_def p [unfolded One_nat_def] Let_def)
  from box_alloc_step [OF bs assms(2) this] show ?thesis using assms(4) by (auto simp: head_free_def)
qed

lemma eff_sizes: "eff_size HANDLER_STACK_SIZE = 65536" "eff_size 104 = 128" "eff_size 40 = 64" "eff_size 4096 = 4096"
  by (simp_all add: eff_size_def bit_len.simps HANDLER_STACK_SIZE_def)

lemma stack_head:
  assumes "head_free a z s" "65632 \<le> z" "32 dvd a" "32 dvd z"
  shows "\<exists>r s'. alloc_interrupt_stack s = Some (Ok (r, s')) \<and> head_free a (z - 65568) s'"
proof -
  obtain p s' where "box_alloc s HANDLER_STACK_SIZE 1 = Some (Ok (p, s'))" "head_free a (z - 65568) s'"
    using box_alloc_head [OF assms(1) stack_layout(1)] assms(2-4) eff_sizes(1) by (auto simp: HANDLER_STACK_SIZE_def)
  then show ?thesis by (simp add: alloc_interrupt_stack_def)
qed

lemma stacks_head:
  assumes "head_free a z s" "n * 65568 + 64 \<le> z" "32 dvd a" "32 dvd z"
  shows "\<exists>rs s'. alloc_stacks s n = Some (Ok (rs, s')) \<and> head_free a (z - n * 65568) s'"
  using assms
proof (induction n arbitrary: s z)
  case (Suc n)
  obtain r s1 where r: "alloc_interrupt_stack s = Some (Ok (r, s1))" "head_free a (z - 65568) s1"
    using stack_head [OF Suc.prems(1) _ Suc.prems(3,4)] Suc.prems(2) by auto
  have "32 dvd z - 65568" using Suc.prems(4) by (simp add: dvd_diff_nat)
  then show ?case using Suc.IH [OF r(2)] r(1) Suc.prems(2,3) by (fastforce simp: algebra_simps)
qed simp

lemma init_exceptions_head:
  assumes "head_free a z s" "528992 \<le> z" "32 dvd a" "32 dvd z"
  shows "\<exists>r cpu' s'. init_exceptions entry unimpl cpu s = Some (Ok (r, cpu', s')) \<and> head_free a (z - 528928) s'"
proof -
  obtain rs s1 where 1: "alloc_stacks s 8 = Some (Ok (rs, s1))" "head_free a (z - 524544) s1"
    using stacks_head [OF assms(1), of 8] assms(2-4) by auto
  have "alloc_stacks s (Suc 7) = Some (Ok (rs, s1))" using 1(1) by simp
  then obtain r0 rs' s0 where r: "alloc_interrupt_stack s = Some (Ok (r0, s0))" "alloc_stacks s0 7 = Some (Ok (rs', s1))"
    unfolding alloc_stacks.simps by (auto simp: and_then_opt_eq_Ok)
  have d: "32 dvd z - 524544" "32 dvd z - 524704" "32 dvd z - 524800" using assms(4) by (simp_all add: dvd_diff_nat)
  have b: "224 \<le> z - 524544" "160 \<le> z - 524704" "4192 \<le> z - 524800" using assms(2) by linarith+
  obtain p1 s2 where 2: "box_alloc s1 104 1 = Some (Ok (p1, s2))" "head_free a (z - 524704) s2"
    using box_alloc_head [OF 1(2) stack_layout(2) _ _ assms(3) d(1)] b by (auto simp: eff_sizes)
  obtain p2 s3 where 3: "box_alloc s2 40 1 = Some (Ok (p2, s3))" "head_free a (z - 524800) s3"
    using box_alloc_head [OF 2(2) stack_layout(3) _ _ assms(3) d(2)] b by (auto simp: eff_sizes)
  obtain p3 s4 where 4: "box_alloc s3 4096 1 = Some (Ok (p3, s4))" "head_free a (z - 528928) s4"
    using box_alloc_head [OF 3(2) stack_layout(4) _ _ assms(3) d(3)] b by (auto simp: eff_sizes)
  then show ?thesis
    using r 2(1) 3(1) by (simp add: init_exceptions_def GdtWrapper_default_def TaskStateSegment64_new_def Idt_new_def idt_length Let_def)
qed

definition kernel_descriptor :: EfiMemoryDescriptor where
  "kernel_descriptor = \<lparr>memory_type = CONVENTIONAL_MEMORY, physical_start = 0x100000,
     virtual_start = 0, number_of_pages = 4331, attribute = 15\<rparr>"

definition kernel_mmap :: MemoryMapHolder where
  "kernel_mmap = boot_mmap\<lparr>memory_map_buffer := (memory_map_buffer boot_mmap)[24 := 235]\<rparr>"

lemma kernel_mmap_valid:
  "valid_mmap kernel_mmap [kernel_descriptor]" "mmap_ok [kernel_descriptor]" "mapped_end [kernel_descriptor] = 0x100000000"
  "boot_tables [kernel_descriptor] = 2057"
  by (simp_all add: valid_mmap_def kernel_mmap_def boot_mmap_def kernel_descriptor_def read_descriptor_def read_le_def
      efi_memory_type_of_def efi_memory_types_def mmap_ok_def dvd_def boot_tables_def region_pages_def mapped_end_def tables_for_3)

text \<open>A firmware that hands over this map and lets the boot services end at once.\<close>

definition demo_firmware :: "unit EfiBootServicesTable" where
  "demo_firmware = \<lparr>get_memory_map_service = \<lambda>mm fw. (Success, kernel_mmap, fw), exit_boot_services = \<lambda>h k fw. (Success, fw),
     locate_protocol = \<lambda>g fw. (OtherStatus 14, \<lparr>horizontal_resolution = 0, vertical_resolution = 0,
       pixels_per_scan_line = 0, frame_buffer_base = 0\<rparr>, fw),
     handle_protocol = \<lambda>h g fw. (OtherStatus 14, \<lparr>image_base = 0, image_size = 0\<rparr>, fw)\<rparr>"

lemma demo_exit: "exit_from_efi_boot_services h demo_firmware MemoryMapHolder_new () = Some (Ok (kernel_mmap, ()))"
  by (simp add: exit_from_efi_boot_services.simps demo_firmware_def)

lemma demo_boot_memory:
  "\<exists>r. boot_memory entry unimpl cpu h demo_firmware () = Some (Ok r)"
proof -
  have "boot_blocks [kernel_descriptor] = [(0x100000, 4331 * 4096, False)]"
    by (simp add: boot_blocks_def region_blocks_def kernel_descriptor_def)
  then obtain s where s: "init_with_mmap ALLOCATOR kernel_mmap = Some (Ok s)" "live_inv s {}" "head_free 0x100000 (4331 * 4096) s"
    using init_fold_spec [OF kernel_mmap_valid(2)] kernel_heap_live_inv [OF kernel_heap.boot [OF kernel_mmap_valid(1,2)]]
    by (fastforce simp: init_with_mmap_def for_mmap_valid [OF kernel_mmap_valid(1)] head_free_def)
  obtain n where n: "init_allocator kernel_mmap = Some (Ok n)"
    using init_allocator_ok [OF kernel_mmap_valid(1)] by (auto simp: kernel_descriptor_def)
  have d: "32 dvd (0x100000 :: nat)" "32 dvd (4331 * 4096 :: nat)" "(528992 :: nat) \<le> 4331 * 4096" by (simp_all add: dvd_def)
  obtain r cpu' s1 where e: "init_exceptions entry unimpl cpu s = Some (Ok (r, cpu', s1))" "head_free 0x100000 (4331 * 4096 - 528928) s1"
    using init_exceptions_head [OF s(3) d(3,1,2)] by blast
  obtain L where L: "live_inv s1 L"
    using init_exceptions_spec [OF s(2), of entry unimpl cpu] e(1) by auto
  obtain bs where bs: "heap_inv s1 ((0x100000, 17210848, False) # bs)" using e(2) by (auto simp: head_free_def)
  have "spec_alloc 4096 4096 ((0x100000, 17210848, False) # bs) =
      (0x1168000, (0x100000, Suc 2099 * 0x2000 - 32, False) # (0x1167FE0, 0x1020, True) # (0x1169000, 3552, False) # bs)"
    by (simp add: fits_def alloc_addr_def split_block_def eff_size_def eff_align_def bit_len.simps Let_def)
  then obtain s2 where s2: "box_new_page s1 = Some (Ok (0x1168000, s2))"
      "heap_inv s2 ((0x100000, Suc 2099 * 0x2000 - 32, False) # (0x1167FE0, 0x1020, True) # (0x1169000, 3552, False) # bs)"
    using box_new_page_step [OF bs] by fastforce
  have "page_budget box_new_page (Suc 2099) s1"
    using s2(1) demo_budget [OF s2(2)] by (simp only: page_budget.simps option.case res.case prod.case)
  then have pb: "page_budget box_new_page 2057 s1" by (rule page_budget_mono) simp
  have own: "owned_pages L (vheap \<lparr>vheap = s1, tables = Map.empty\<rparr>) (dom (tables \<lparr>vheap = s1, tables = Map.empty\<rparr>))"
    using L by (simp add: owned_pages_def)
  have "physical_start kernel_descriptor + number_of_pages kernel_descriptor * 4096 < 2 ^ 64" by (simp add: kernel_descriptor_def)
  then obtain root vm' where "init_paging box_new_page kernel_mmap \<lparr>vheap = s1, tables = Map.empty\<rparr> = Some (Ok (root, vm'))"
    using init_paging_spec [OF own kernel_mmap_valid(1)] pb by (auto simp: kernel_mmap_valid(3,4) simp del: page_budget.simps)
  then show ?thesis
    using e(1) s(1) n demo_exit [of h]
    by (cases r) (simp add: boot_memory_def init_basic_runtime_def)
qed

definition demo_cpu :: cpu_tables where
  "demo_cpu = \<lparr>gdtr = (0, 0), idtr = (0, 0), tr = 0, seg_cs = 0x38, seg_ss = 0x30, seg_ds = 0x30, seg_es = 0x30,
     seg_fs = 0x30, seg_gs = 0x30\<rparr>"

theorem boot_memory_ready_witness:
  "\<exists>r. boot_memory (\<lambda>v. word_of_nat (16 * v)) 0x1234 demo_cpu 7 demo_firmware () = Some (Ok (r, ())) \<and>
     memory_ready (\<lambda>v. word_of_nat (16 * v)) 0x1234 r"
proof -
  have s: "mapped_end [kernel_descriptor] \<le> 2 ^ 48" "sum_list (map number_of_pages [kernel_descriptor]) * 4096 < 2 ^ 64"
    by (simp_all add: kernel_mmap_valid(3)) (simp add: kernel_descriptor_def)
  show ?thesis
    using boot_memory_ready [OF demo_exit kernel_mmap_valid(1,2) s, of "\<lambda>v. word_of_nat (16 * v)" "0x1234" demo_cpu 7]
      demo_boot_memory [of "\<lambda>v. word_of_nat (16 * v)" "0x1234" demo_cpu 7] by auto
qed

end
