(* ===== verification/Task_Theorems.thy ===== *)
theory Task_Theorems
  imports Kernel_Main
begin

text \<open>
  The properties of the tasks that \<^verbatim>\<open>efi_main\<close> spawns, over any clock that reads without failing and never goes
  back, and of the panic handler.
\<close>

section \<open>Clocks\<close>

text \<open>\<open>clk d\<close> is the reading in state \<open>d\<close>.\<close>

definition steady :: "'d clock \<Rightarrow> ('d \<Rightarrow> nat) \<Rightarrow> bool" where
  "steady clock clk \<longleftrightarrow> (\<forall>d. \<exists>d'. clock d = Ok (clk d, d') \<and> clk d \<le> clk d' \<and> clk d < 2 ^ 64)"

lemma steadyD:
  assumes "steady clock clk"
  obtains d' where "clock d = Ok (clk d, d')" "clk d \<le> clk d'" "clk d < 2 ^ 64"
  using assms unfolding steady_def by blast

text \<open>The time stamps of a timer whose counter never goes back and does not overflow are such a clock.\<close>

lemma timestamp_steady:
  assumes "\<And>d. \<exists>d'. rd64 bus (hpet_base h + off_main_counter) d = (word_of_nat (c d), d') \<and> c d \<le> c d'"
    and "\<And>d. c d < 2 ^ 64" "\<And>d. c d * 1000000000 div hpet_freq h < 2 ^ 64" "0 < hpet_freq h"
  shows "steady (global_timestamp bus (Some h)) (\<lambda>d. c d * 1000000000 div hpet_freq h)"
proof -
  have "\<exists>d'. global_timestamp bus (Some h) d = Ok (c d * 1000000000 div hpet_freq h, d') \<and>
      c d * 1000000000 div hpet_freq h \<le> c d' * 1000000000 div hpet_freq h" for d
  proof -
    obtain d' where "rd64 bus (hpet_base h + off_main_counter) d = (word_of_nat (c d), d')" "c d \<le> c d'"
      using assms(1) by blast
    moreover have "unat (word_of_nat (c d) :: u64) = c d" using assms(2) [of d] by (intro unat_u64)
    ultimately show ?thesis
      using counter_to_ns_eq [OF assms(2) [of d] assms(4)] assms(3) [of d]
      by (simp add: global_timestamp_def main_counter_def div_le_mono)
  qed
  then show ?thesis using assms(3) unfolding steady_def by blast
qed

lemma begin_sleep_steady:
  assumes "steady clock clk" "dur < 2 ^ 64"
  shows "\<exists>f p d'. begin_sleep clock dur d = Ok (f, p, d') \<and> clk d + dur \<le> time_out f \<and> clk d \<le> clk d' \<and>
    (p = Ready () \<longrightarrow> time_out f < clk d')"
proof -
  obtain d1 where 1: "clock d = Ok (clk d, d1)" "clk d \<le> clk d1" "clk d < 2 ^ 64" using steadyD [OF assms(1)] by blast
  obtain d2 where 2: "clock d1 = Ok (clk d1, d2)" "clk d1 \<le> clk d2" using steadyD [OF assms(1)] by blast
  have "clk d + dur \<le> DURATION_MAX" using 1(3) assms(2) by (simp add: DURATION_MAX_def)
  then show ?thesis using 1 2 by (auto simp: begin_sleep_def TimeoutFuture_new_def TimeoutFuture_poll_def)
qed

section \<open>The counting tasks\<close>

text \<open>Consecutive lines are more than \<open>dur\<close> apart.\<close>

definition spaced :: "nat \<Rightarrow> (nat \<times> nat) list \<Rightarrow> bool" where
  "spaced dur log \<longleftrightarrow> successively (\<lambda>x y. snd x + dur < snd y) log"

lemma spaced_snoc: "spaced dur (log @ [x]) \<longleftrightarrow> spaced dur log \<and> (log \<noteq> [] \<longrightarrow> snd (last log) + dur < snd x)"
  by (auto simp: spaced_def successively_append_iff)

text \<open>The state of a task between two polls: \<open>ns\<close> are all its numbers, \<open>log\<close> its lines, at clock \<open>now\<close>.\<close>

definition count_ok :: "nat \<Rightarrow> nat \<Rightarrow> nat list \<Rightarrow> count_task \<Rightarrow> (nat \<times> nat) list \<Rightarrow> bool \<Rightarrow> nat \<Rightarrow> bool" where
  "count_ok t0 dur ns t log fin now \<longleftrightarrow> map fst log @ count_rest t = ns \<and> spaced dur log \<and> t0 \<le> now \<and>
     (case count_sleep t of None \<Rightarrow> if fin then count_rest t = [] else log = []
      | Some f \<Rightarrow> \<not> fin \<and> log \<noteq> [] \<and> t0 + snd (last log) + dur \<le> time_out f)"

lemma count_loop_spec:
  assumes "steady clock clk" "dur < 2 ^ 64"
    "spaced dur log" "t0 \<le> clk d" "log \<noteq> [] \<longrightarrow> t0 + snd (last log) + dur < clk d"
  shows "\<exists>p t log' d'. count_loop clock t0 dur is log d = Ok (p, t, log', d') \<and> clk d \<le> clk d' \<and>
    count_ok t0 dur (map fst log @ is) t log' (p \<noteq> Pending) (clk d') \<and> (\<forall>r. p = Ready r \<longrightarrow> r = Ok ()) \<and>
    (p = Pending \<longrightarrow> length log < length log')"
  using assms(3-5)
proof (induction "is" arbitrary: log d)
  case Nil
  then show ?case by (auto simp: count_ok_def)
next
  case (Cons i "is")
  obtain d1 where 1: "clock d = Ok (clk d, d1)" "clk d \<le> clk d1" using steadyD [OF assms(1)] by blast
  obtain f p d2 where 2: "begin_sleep clock dur d1 = Ok (f, p, d2)" "clk d1 + dur \<le> time_out f" "clk d1 \<le> clk d2"
      "p = Ready () \<longrightarrow> time_out f < clk d2"
    using begin_sleep_steady [OF assms(1,2)] by blast
  let ?log = "log @ [(i, clk d - t0)]"
  have sp: "spaced dur ?log" using Cons.prems by (auto simp: spaced_snoc)
  show ?case
  proof (cases p)
    case Pending
    then show ?thesis using 1 2 sp Cons.prems(2) by (simp add: sub_duration_def count_ok_def)
  next
    case (Ready u)
    have "t0 \<le> clk d2" "?log \<noteq> [] \<longrightarrow> t0 + snd (last ?log) + dur < clk d2" using 1 2 Ready Cons.prems(2) by auto
    from Cons.IH [OF sp this] show ?thesis using 1 2 Ready Cons.prems(2) by (fastforce simp: sub_duration_def)
  qed
qed

text \<open>
  A run of a counting task from \<open>a\<close> to \<open>b\<close>: it is polled any number of times, and between two polls others move the
  state, whose clock does not go back. The last two arguments tell whether it has completed, and the state.
\<close>

inductive count_run :: "'d clock \<Rightarrow> ('d \<Rightarrow> nat) \<Rightarrow> nat \<Rightarrow> nat \<Rightarrow> nat \<Rightarrow> nat \<Rightarrow> count_task \<Rightarrow> (nat \<times> nat) list \<Rightarrow> bool \<Rightarrow> 'd \<Rightarrow> bool"
  for clock clk t0 dur a b where
  spawned: "t0 \<le> clk d \<Longrightarrow> count_run clock clk t0 dur a b (count_start a b) [] False d"
| polled: "\<lbrakk>count_run clock clk t0 dur a b t log False d; clk d \<le> clk d1;
      count_poll clock t0 dur t log d1 = Ok (p, t', log', d2)\<rbrakk>
    \<Longrightarrow> count_run clock clk t0 dur a b t' log' (p \<noteq> Pending) d2"

lemma count_poll_spec:
  assumes "steady clock clk" "dur < 2 ^ 64" "count_ok t0 dur ns t log False now" "now \<le> clk d"
  shows "\<exists>p t' log' d'. count_poll clock t0 dur t log d = Ok (p, t', log', d') \<and>
    count_ok t0 dur ns t' log' (p \<noteq> Pending) (clk d') \<and> (\<forall>r. p = Ready r \<longrightarrow> r = Ok ()) \<and>
    ((\<forall>f. count_sleep t = Some f \<longrightarrow> time_out f < clk d) \<longrightarrow> p = Ready (Ok ()) \<or> length log < length log')"
proof (cases "count_sleep t")
  case None
  then have l: "log = []" "count_rest t = ns" "t0 \<le> clk d" using assms(3,4) by (auto simp: count_ok_def)
  then obtain p t' log' d' where "count_loop clock t0 dur ns [] d = Ok (p, t', log', d')"
      "count_ok t0 dur ns t' log' (p \<noteq> Pending) (clk d')" "\<forall>r. p = Ready r \<longrightarrow> r = Ok ()" "p = Pending \<longrightarrow> 0 < length log'"
    using count_loop_spec [OF assms(1,2), of "[]" t0 d ns] by (auto simp: spaced_def)
  then show ?thesis using None l by (cases p) (auto simp: count_poll_def)
next
  case (Some f)
  obtain d1 where 1: "clock d = Ok (clk d, d1)" "clk d \<le> clk d1" using steadyD [OF assms(1)] by blast
  have ok: "map fst log @ count_rest t = ns" "spaced dur log" "t0 \<le> now" "log \<noteq> []" "t0 + snd (last log) + dur \<le> time_out f"
    using assms(3) Some by (simp_all add: count_ok_def)
  show ?thesis
  proof (cases "time_out f < clk d")
    case True
    obtain p t' log' d' where "count_loop clock t0 dur (count_rest t) log d1 = Ok (p, t', log', d')"
        "count_ok t0 dur ns t' log' (p \<noteq> Pending) (clk d')" "\<forall>r. p = Ready r \<longrightarrow> r = Ok ()" "p = Pending \<longrightarrow> length log < length log'"
      using count_loop_spec [OF assms(1,2) ok(2), of t0 d1 "count_rest t"] ok True 1(2) assms(4) by auto
    then show ?thesis using Some 1(1) True by (cases p) (auto simp: count_poll_def TimeoutFuture_poll_def)
  next
    case False
    then show ?thesis
      using Some 1 assms(3,4) by (simp add: count_poll_def TimeoutFuture_poll_def count_ok_def)
  qed
qed

lemma count_run_ok:
  assumes "count_run clock clk t0 dur a b t log fin d" "steady clock clk" "dur < 2 ^ 64"
  shows "count_ok t0 dur [a ..< Suc b] t log fin (clk d)"
  using assms(1)
proof induction
  case (spawned d)
  then show ?case by (simp add: count_ok_def count_start_def spaced_def)
next
  case (polled t log d d1 p t' log' d2)
  then show ?case using count_poll_spec [OF assms(2,3) polled.IH polled.hyps(2)] by auto
qed

lemma spaced_elapsed: "spaced dur log \<Longrightarrow> k < length log \<Longrightarrow> k * dur \<le> snd (log ! k)"
proof (induction k)
  case (Suc k)
  have "snd (log ! k) + dur < snd (log ! Suc k)"
    using Suc.prems successively_conv_nth [of "\<lambda>x y. snd x + dur < snd y" log] by (simp add: spaced_def)
  then show ?case using Suc by simp
qed simp

text \<open>
  Property C31 (liveness). A counting task of \<^verbatim>\<open>efi_main\<close> on a clock that never goes back: in every run its lines carry
  the numbers from \<open>a\<close> on in order, the line of number \<open>a + k\<close> shows a time of at least \<open>k\<close> sleeps, consecutive lines are
  more than one sleep apart, and when the task has completed all numbers were printed; until then no poll fails, and
  every poll after the end of the sleep prints a number or completes the task.
\<close>

theorem counting_task:
  assumes "steady clock clk" "dur < 2 ^ 64" "count_run clock clk t0 dur a b t log fin d"
  shows "map fst log = take (length log) [a ..< Suc b] \<and> (\<forall>k < length log. k * dur \<le> snd (log ! k)) \<and>
    (\<forall>k. Suc k < length log \<longrightarrow> snd (log ! k) + dur < snd (log ! Suc k)) \<and> (fin \<longrightarrow> map fst log = [a ..< Suc b]) \<and>
    (\<not> fin \<longrightarrow> (\<forall>d1. clk d \<le> clk d1 \<longrightarrow> (\<exists>p t' log' d'. count_poll clock t0 dur t log d1 = Ok (p, t', log', d') \<and>
       ((\<forall>f. count_sleep t = Some f \<longrightarrow> time_out f < clk d1) \<longrightarrow> p = Ready (Ok ()) \<or> length log < length log'))))"
proof -
  have ok: "count_ok t0 dur [a ..< Suc b] t log fin (clk d)" by (rule count_run_ok [OF assms(3,1,2)])
  then have m: "map fst log @ count_rest t = [a ..< Suc b]" "spaced dur log" by (simp_all add: count_ok_def)
  have "map fst log = take (length log) [a ..< Suc b]" unfolding m(1) [symmetric] by simp
  moreover have "\<forall>k. Suc k < length log \<longrightarrow> snd (log ! k) + dur < snd (log ! Suc k)"
    using m(2) by (simp add: spaced_def successively_conv_nth)
  moreover have "fin \<longrightarrow> map fst log = [a ..< Suc b]"
    using ok m(1) by (auto simp: count_ok_def split: option.splits if_splits)
  moreover have "\<forall>k < length log. k * dur \<le> snd (log ! k)" using spaced_elapsed [OF m(2)] by blast
  moreover have "\<exists>p t' log' d'. count_poll clock t0 dur t log d1 = Ok (p, t', log', d') \<and>
       ((\<forall>f. count_sleep t = Some f \<longrightarrow> time_out f < clk d1) \<longrightarrow> p = Ready (Ok ()) \<or> length log < length log')"
    if "\<not> fin" "clk d \<le> clk d1" for d1
  proof -
    have "count_ok t0 dur [a ..< Suc b] t log False (clk d)" using ok that(1) by simp
    from count_poll_spec [OF assms(1,2) this that(2)] show ?thesis by blast
  qed
  ultimately show ?thesis by blast
qed

text \<open>A timer of 10 MHz whose counter goes up with every read of it, up to 10 seconds.\<close>

definition ticking_bus :: "nat bus" where
  "ticking_bus = \<lparr>rd32 = \<lambda>a d. (0, d), wr32 = \<lambda>a v d. d, rd64 = \<lambda>a d. (word_of_nat (min d 100000000), Suc d), wr64 = \<lambda>a v d. d\<rparr>"

definition ticking_hpet :: Hpet where
  "ticking_hpet = \<lparr>hpet_base = 0xFED00000, num_of_timers = 3, hpet_freq = 10000000\<rparr>"

lemma ticking_clock:
  "steady (global_timestamp ticking_bus (Some ticking_hpet)) (\<lambda>d. min d 100000000 * 1000000000 div 10000000)"
proof -
  have "steady (global_timestamp ticking_bus (Some ticking_hpet)) (\<lambda>d. min d 100000000 * 1000000000 div hpet_freq ticking_hpet)"
  proof (rule timestamp_steady)
    fix d :: nat
    show "\<exists>d'. rd64 ticking_bus (hpet_base ticking_hpet + off_main_counter) d = (word_of_nat (min d 100000000), d') \<and>
        min d 100000000 \<le> min d' 100000000"
      by (simp add: ticking_bus_def)
    have "min d 100000000 * 1000000000 div 10000000 \<le> 100000000 * 1000000000 div (10000000 :: nat)"
      by (intro div_le_mono mult_le_mono1) simp
    then show "min d 100000000 * 1000000000 div hpet_freq ticking_hpet < 2 ^ 64" by (simp add: ticking_hpet_def)
  qed (auto simp: ticking_hpet_def)
  then show ?thesis by (simp add: ticking_hpet_def)
qed

lemma ticking_read:
  assumes "d \<le> 100000000"
  shows "global_timestamp ticking_bus (Some ticking_hpet) d = Ok (d * 100, Suc d)"
proof -
  have "unat (word_of_nat d :: u64) = d" using assms by (intro unat_u64) simp
  then show ?thesis
    using assms by (simp add: global_timestamp_def main_counter_def ticking_bus_def ticking_hpet_def counter_to_ns_def mul_u_def div_u_def)
qed

theorem counting_task_witness:
  "\<exists>t d. count_run (global_timestamp ticking_bus (Some ticking_hpet)) (\<lambda>d. min d 100000000 * 1000000000 div 10000000) 0
       task1_sleep 100 103 t [(100, 0), (101, 2000000100)] False d \<and>
     snd ([(100 :: nat, 0 :: nat), (101, 2000000100)] ! 0) + task1_sleep < snd ([(100 :: nat, 0 :: nat), (101, 2000000100)] ! Suc 0)"
proof -
  let ?clock = "global_timestamp ticking_bus (Some ticking_hpet)" and ?clk = "\<lambda>d. min d 100000000 * 1000000000 div (10000000 :: nat)"
  have ns: "[100 ..< Suc 103] = [100, 101, 102, 103 :: nat]" by (simp add: upt_rec)
  have 0: "count_run ?clock ?clk 0 task1_sleep 100 103 (count_start 100 103) [] False 0" by (intro count_run.spawned) simp
  have "count_poll ?clock 0 task1_sleep (count_start 100 103) [] 0 =
      Ok (Pending, \<lparr>count_rest = [101, 102, 103], count_sleep = Some \<lparr>time_out = 1000000100\<rparr>\<rparr>, [(100, 0)], 3)"
    unfolding count_start_def ns
    by (simp add: count_poll_def ticking_read begin_sleep_def sub_duration_def TimeoutFuture_new_def TimeoutFuture_poll_def
        DURATION_MAX_def task1_sleep_def)
  from count_run.polled [OF 0 _ this]
  have 1: "count_run ?clock ?clk 0 task1_sleep 100 103
      \<lparr>count_rest = [101, 102, 103], count_sleep = Some \<lparr>time_out = 1000000100\<rparr>\<rparr> [(100, 0)] False 3" by simp
  have "count_poll ?clock 0 task1_sleep \<lparr>count_rest = [101, 102, 103], count_sleep = Some \<lparr>time_out = 1000000100\<rparr>\<rparr> [(100, 0)] 20000000 =
      Ok (Pending, \<lparr>count_rest = [102, 103], count_sleep = Some \<lparr>time_out = 3000000200\<rparr>\<rparr>, [(100, 0), (101, 2000000100)], 20000004)"
    by (simp add: count_poll_def ticking_read begin_sleep_def sub_duration_def TimeoutFuture_new_def TimeoutFuture_poll_def
        DURATION_MAX_def task1_sleep_def)
  from count_run.polled [OF 1 _ this]
  have 2: "count_run ?clock ?clk 0 task1_sleep 100 103
      \<lparr>count_rest = [102, 103], count_sleep = Some \<lparr>time_out = 3000000200\<rparr>\<rparr> [(100, 0), (101, 2000000100)] False 20000004" by simp
  have "task1_sleep < 2 ^ 64" by (simp add: task1_sleep_def)
  from counting_task [OF ticking_clock this 2] show ?thesis using 2 by fastforce
qed

end
