(* ===== verification/Formatting.thy ===== *)
theory Formatting
  imports X86_Interrupts Pci Executor Serial_Print
begin

text \<open>
  How the kernel writes its values: the \<^verbatim>\<open>Display\<close> and \<^verbatim>\<open>Debug\<close> implementations over the format directives of
  \<^verbatim>\<open>core::fmt\<close> that they use, the log macros of \<^verbatim>\<open>print.rs\<close> and the report of \<^verbatim>\<open>inthandler\<close>. Text is a
  \<open>string\<close>; \<open>code_points\<close> turns it into a piece for the writers of \<open>Serial_Print\<close>. The lemmas read the text
  back: \<open>scan_hex\<close> collects the numbers written after a \<^verbatim>\<open>0x\<close>.
\<close>

section \<open>Format directives\<close>

definition code_points :: "string \<Rightarrow> nat list" where
  "code_points s = map of_char s"

text \<open>\<^verbatim>\<open>{:w}\<close> of a number and \<^verbatim>\<open>{:<w}\<close>.\<close>

definition pad_left :: "nat \<Rightarrow> string \<Rightarrow> string" where
  "pad_left w s = replicate (w - length s) CHR '' '' @ s"

definition pad_right :: "nat \<Rightarrow> string \<Rightarrow> string" where
  "pad_right w s = s @ replicate (w - length s) CHR '' ''"

text \<open>\<^verbatim>\<open>{}\<close> of an unsigned number.\<close>

fun dec :: "nat \<Rightarrow> string" where
  "dec n = (if n < 10 then [''0123456789'' ! n] else dec (n div 10) @ [''0123456789'' ! (n mod 10)])"

declare dec.simps [simp del]

text \<open>\<^verbatim>\<open>{:#X}\<close> and \<^verbatim>\<open>{:#0wX}\<close>: the width counts the prefix.\<close>

definition hex :: "nat \<Rightarrow> string" where
  "hex n = ''0x'' @ hex_upper n"

definition hex0 :: "nat \<Rightarrow> nat \<Rightarrow> string" where
  "hex0 w n = ''0x'' @ fmt_hex (w - 2) n"

text \<open>\<^verbatim>\<open>{:#p}\<close>: sixteen digits in lower case.\<close>

definition lower_case :: "char \<Rightarrow> char" where
  "lower_case c = (if 65 \<le> (of_char c :: nat) \<and> (of_char c :: nat) \<le> 90 then char_of (of_char c + 32 :: nat) else c)"

definition pointer :: "usize \<Rightarrow> string" where
  "pointer a = ''0x'' @ map lower_case (fmt_hex 16 a)"

definition fmt_bool :: "bool \<Rightarrow> string" where
  "fmt_bool b = (if b then ''true'' else ''false'')"

definition newline :: string where
  "newline = [CHR 0x0A]"

section \<open>Page tables\<close>

text \<open>\<open>level\<close> is \<^verbatim>\<open>LEVEL\<close>, \<open>self\<close> the address of the entry or the table.\<close>

definition Entry_format :: "nat \<Rightarrow> usize \<Rightarrow> u64 \<Rightarrow> string" where
  "Entry_format level self v =
     ''L'' @ dec level @ ''Entry @ '' @ pointer self @ '' { '' @ hex0 18 (unat v) @ '' '' @
     (if is_present v then ''P'' else ''p'') @ (if is_writable v then ''W'' else ''w'') @
     (if is_user v then ''U'' else ''S'') @ '' }''"

definition Table_row :: "nat \<Rightarrow> usize \<Rightarrow> entries \<Rightarrow> nat \<Rightarrow> string" where
  "Table_row level self es i =
     (if is_present (es i) then []
      else '' entry['' @ pad_left 3 (dec i) @ ''] = '' @ Entry_format level (self + 8 * i) (es i) @ newline)"

definition Table_format :: "nat \<Rightarrow> usize \<Rightarrow> entries \<Rightarrow> string" where
  "Table_format level self es =
     ''L'' @ dec level @ ''Table @ '' @ pointer self @ '' {'' @ newline @
     concat (map (Table_row level self es) [0 ..< 512]) @ ''}'' @ newline"

definition GdtSegmentDescriptor_fmt :: "u64 \<Rightarrow> string" where
  "GdtSegmentDescriptor_fmt v = pad_left 18 (hex (unat v))"

section \<open>The register dump\<close>

text \<open>\<^verbatim>\<open>InterruptInfo\<close> as it lies in memory: 512 bytes of FPU state and one word precede the registers.\<close>

record InterruptInfo =
  ii_greg :: "reg \<Rightarrow> u64"
  ii_error_code :: u64
  ii_rip :: u64
  ii_cs :: u64
  ii_rflags :: u64
  ii_rsp :: u64
  ii_ss :: u64

definition greg_order :: "reg list" where
  "greg_order = [RAX, RDX, RBX, RBP, RSI, RDI, R8, R9, R10, R11, R12, R13, R14, R15, RCX]"

definition info_word :: "(u64 \<Rightarrow> u64) \<Rightarrow> u64 \<Rightarrow> nat \<Rightarrow> u64" where
  "info_word f info i = f (info + 520 + 8 * word_of_nat i)"

definition info_at :: "(u64 \<Rightarrow> u64) \<Rightarrow> u64 \<Rightarrow> InterruptInfo" where
  "info_at f info =
     \<lparr>ii_greg = (\<lambda>r. case map_of (zip greg_order [0 ..< 15]) r of None \<Rightarrow> 0 | Some i \<Rightarrow> info_word f info i),
      ii_error_code = info_word f info 15, ii_rip = info_word f info 16, ii_cs = info_word f info 17,
      ii_rflags = info_word f info 18, ii_rsp = info_word f info 19, ii_ss = info_word f info 20\<rparr>"

definition indent :: "nat \<Rightarrow> string" where
  "indent n = newline @ replicate n CHR '' ''"

definition InterruptInfo_fmt :: "InterruptInfo \<Rightarrow> string" where
  "InterruptInfo_fmt ii =
     (let x = (\<lambda>r. hex0 18 (unat (ii_greg ii r))) in
      indent 12 @ ''{'' @
      indent 16 @ ''rip: '' @ hex0 18 (unat (ii_rip ii)) @ '', CS: '' @ hex0 6 (unat (ii_cs ii)) @ '','' @
      indent 16 @ ''rsp: '' @ hex0 18 (unat (ii_rsp ii)) @ '', SS: '' @ hex0 6 (unat (ii_ss ii)) @ '','' @
      indent 16 @ ''rbp: '' @ x RBP @ '','' @
      newline @ indent 16 @ ''rflags: '' @ hex0 18 (unat (ii_rflags ii)) @ '','' @
      indent 16 @ ''error_code: '' @ hex0 18 (unat (ii_error_code ii)) @ '','' @
      newline @ indent 16 @ ''rax: '' @ x RAX @ '', rcx: '' @ x RCX @ '','' @
      indent 16 @ ''rdx: '' @ x RDX @ '', rbx: '' @ x RBX @ '','' @
      indent 16 @ ''rsi: '' @ x RSI @ '', rdi: '' @ x RDI @ '','' @
      indent 16 @ ''r8: '' @ x R8 @ '', r9: '' @ x R9 @ '','' @
      indent 16 @ ''r10: '' @ x R10 @ '', r11: '' @ x R11 @ '','' @
      indent 16 @ ''r12: '' @ x R12 @ '', r13: '' @ x R13 @ '','' @
      indent 16 @ ''r14: '' @ x R14 @ '', r15: '' @ x R15 @ '','' @
      indent 12 @ ''}'')"

section \<open>Headers, PCI, ACPI, tasks and locks\<close>

definition Header_fmt :: "usize \<Rightarrow> Header \<Rightarrow> string" where
  "Header_fmt self h =
     ''Header @ '' @ hex0 18 self @ '' { size: '' @ hex0 18 (hdr_size h) @ '', is_allocated: '' @
     fmt_bool (is_allocated h) @ '' }''"

definition VendorDeviceId_fmt :: "u16 \<times> u16 \<Rightarrow> string" where
  "VendorDeviceId_fmt vd = ''Vendor: '' @ hex0 6 (unat (fst vd)) @ '', Device: '' @ hex0 6 (unat (snd vd))"

definition BusDeviceFunction_fmt :: "BusDeviceFunction \<Rightarrow> string" where
  "BusDeviceFunction_fmt bdf =
     ''/pci/bus/'' @ hex0 4 (bdf_bus bdf) @ ''/device/'' @ hex0 4 (bdf_device bdf) @
     ''/function/'' @ hex0 3 (bdf_function bdf)"

definition BarMem64_fmt :: "BarMem64 \<Rightarrow> string res" where
  "BarMem64_fmt bar =
     and_then (add64 (unat (bar_addr bar)) (unat (bar_size bar))) (\<lambda>e.
     Ok (''BarMem64['' @ hex0 18 (unat (bar_addr bar)) @ ''..'' @ hex0 18 e @ '']''))"

definition EcamEntry_fmt :: "memory \<Rightarrow> usize \<Rightarrow> string res" where
  "EcamEntry_fmt m self =
     and_then (mem_nat m self 8) (\<lambda>base.
     and_then (mem_nat m (self + 10) 1) (\<lambda>bus_start.
     and_then (mem_nat m (self + 11) 1) (\<lambda>bus_end.
     Ok (''ECAM: Bus ['' @ dec bus_start @ ''..='' @ dec bus_end @ ''] is mapped at '' @ hex base))))"

definition Task_fmt :: "'f Task \<Rightarrow> string" where
  "Task_fmt t = ''Task('' @ task_file t @ '':'' @ dec (unat (task_line t)) @ '')''"

definition Mutex_fmt :: "'a Mutex \<Rightarrow> string" where
  "Mutex_fmt m = ''Mutex @ '' @ created_at_file m @ '':'' @ dec (unat (created_at_line m))"

section \<open>The log macros\<close>

definition println_text :: "string \<Rightarrow> string" where
  "println_text msg = msg @ newline"

definition log_text :: "string \<Rightarrow> string \<Rightarrow> nat \<Rightarrow> string \<Rightarrow> string" where
  "log_text tag file line msg = tag @ file @ '':'' @ pad_right 3 (dec line) @ '': '' @ msg @ newline"

definition info_text :: "string \<Rightarrow> nat \<Rightarrow> string \<Rightarrow> string" where
  "info_text = log_text ''[INFO]  ''"

definition warn_text :: "string \<Rightarrow> nat \<Rightarrow> string \<Rightarrow> string" where
  "warn_text = log_text ''[WARN]  ''"

definition error_text :: "string \<Rightarrow> nat \<Rightarrow> string \<Rightarrow> string" where
  "error_text = log_text ''[ERROR] ''"

section \<open>The report of inthandler\<close>

text \<open>\<^verbatim>\<open>{bytes:02X?}\<close> of a slice of bytes.\<close>

fun commas :: "string list \<Rightarrow> string" where
  "commas [] = []"
| "commas [s] = s"
| "commas (s # rest) = s @ '', '' @ commas rest"

definition fmt_bytes :: "u8 list \<Rightarrow> string" where
  "fmt_bytes bs = ''['' @ commas (map (\<lambda>b. fmt_hex 2 (unat b)) bs) @ '']''"

text \<open>
  Each message has the number of its source line; \<open>file\<close> is \<^verbatim>\<open>file!()\<close>, \<open>cr2\<close> the value of the register and
  \<open>bytes\<close> the sixteen bytes at \<^verbatim>\<open>rip\<close>.
\<close>

definition inthandler_messages :: "InterruptInfo \<Rightarrow> nat \<Rightarrow> u64 \<Rightarrow> u8 list \<Rightarrow> (nat \<times> string) list" where
  "inthandler_messages ii index cr2 bytes =
     [(527, ''Interrupt Info: '' @ InterruptInfo_fmt ii), (528, ''Exception '' @ hex0 4 index @ '': '')] @
     (if index = 3 then [(531, ''Breakpoint'')]
      else if index = 6 then [(534, ''Invalid Opcode'')]
      else if index = 8 then [(535, ''Double Fault'')]
      else if index = 13
      then [(537, ''General Protection Fault''), (539, ''Bytes @ RIP('' @ hex0 18 (unat (ii_rip ii)) @ ''): ''),
            (542, '' = '' @ fmt_bytes bytes)]
      else if index = 14
      then [(545, ''Page Fault''), (546, ''CR2 = '' @ hex0 18 (unat cr2)),
            (547, let c = page_fault_cause (ii_error_code ii) in
              ''Caused by: A '' @ c ! 0 @ '' mode '' @ c ! 1 @ '' on a '' @ c ! 2 @
              '' page, page structures are '' @ c ! 3)]
      else [(571, ''Not handled'')])"

definition inthandler_report :: "string \<Rightarrow> InterruptInfo \<Rightarrow> nat \<Rightarrow> u64 \<Rightarrow> u8 list \<Rightarrow> string list" where
  "inthandler_report file ii index cr2 bytes =
     map (\<lambda>(line, msg). error_text file line msg) (inthandler_messages ii index cr2 bytes)"

section \<open>Reading the text back\<close>

definition is_digit16 :: "char \<Rightarrow> bool" where
  "is_digit16 c \<longleftrightarrow> c \<in> set ''0123456789ABCDEFabcdef''"

definition digit_value :: "char \<Rightarrow> nat" where
  "digit_value c =
     (let n = of_char c in if n < 58 then n - 48 else if n < 71 then n - 55 else n - 87)"

definition read_digits :: "string \<Rightarrow> nat" where
  "read_digits s = foldl (\<lambda>v c. 16 * v + digit_value c) 0 s"

text \<open>The numbers of a text: the digits after each \<^verbatim>\<open>0x\<close>.\<close>

function scan_hex :: "string \<Rightarrow> nat list" where
  "scan_hex [] = []"
| "scan_hex (c # s) =
     (if c = CHR ''0'' \<and> take 1 s = ''x''
      then read_digits (takeWhile is_digit16 (tl s)) # scan_hex (dropWhile is_digit16 (tl s))
      else scan_hex s)"
  by pat_completeness auto
termination
proof (relation "measure length")
  fix c :: char and s :: string
  have "length (dropWhile is_digit16 (tl s)) \<le> length s"
    by (rule order_trans [OF length_dropWhile_le]) simp
  then show "(dropWhile is_digit16 (tl s), c # s) \<in> measure length" by simp
qed simp_all

declare scan_hex.simps(2) [simp del]

lemma is_digit16_cases: "n < 16 \<Longrightarrow> is_digit16 (''0123456789ABCDEF'' ! n) \<and> digit_value (''0123456789ABCDEF'' ! n) = n"
proof -
  have "\<forall>n \<in> {..< 16}. is_digit16 (''0123456789ABCDEF'' ! n) \<and> digit_value (''0123456789ABCDEF'' ! n) = n"
    by code_simp
  then show "n < 16 \<Longrightarrow> is_digit16 (''0123456789ABCDEF'' ! n) \<and> digit_value (''0123456789ABCDEF'' ! n) = n" by blast
qed

lemma lower_case_digit: "is_digit16 c \<Longrightarrow> is_digit16 (lower_case c) \<and> digit_value (lower_case c) = digit_value c"
proof -
  have "\<forall>c \<in> set ''0123456789ABCDEFabcdef''. is_digit16 (lower_case c) \<and> digit_value (lower_case c) = digit_value c"
    by code_simp
  then show "is_digit16 c \<Longrightarrow> is_digit16 (lower_case c) \<and> digit_value (lower_case c) = digit_value c"
    unfolding is_digit16_def [of c] by blast
qed

lemma read_digits_snoc: "read_digits (s @ [c]) = 16 * read_digits s + digit_value c"
  by (simp add: read_digits_def)

lemma hex_upper_reads: "list_all is_digit16 (hex_upper n) \<and> read_digits (hex_upper n) = n"
proof (induction n rule: hex_upper.induct)
  case (1 n)
  have "n mod 16 < 16" by simp
  note d = is_digit16_cases [OF this]
  show ?case
  proof (cases "n < 16")
    case True
    then show ?thesis using is_digit16_cases [OF True]
      by (subst (1 2) hex_upper.simps) (simp add: read_digits_def)
  next
    case False
    then show ?thesis using 1 d
      by (subst (1 2) hex_upper.simps) (simp add: read_digits_snoc)
  qed
qed

lemma read_digits_zeros: "read_digits (replicate k CHR ''0'' @ s) = read_digits s"
  by (induction k) (simp_all add: read_digits_def digit_value_def)

lemma fmt_hex_reads: "list_all is_digit16 (fmt_hex w n) \<and> read_digits (fmt_hex w n) = n"
proof -
  have "list_all is_digit16 (replicate k CHR ''0'')" for k by (induction k) (simp_all add: is_digit16_def)
  then show ?thesis using hex_upper_reads [of n] by (simp add: fmt_hex_def read_digits_zeros)
qed

lemma lower_case_reads: "list_all is_digit16 s \<Longrightarrow> list_all is_digit16 (map lower_case s) \<and> read_digits (map lower_case s) = read_digits s"
proof (induction s rule: rev_induct)
  case (snoc c s)
  then show ?case using lower_case_digit [of c] by (simp add: read_digits_snoc)
qed simp

text \<open>\<open>hex_free s\<close>: the text that follows a number does not go on with a digit.\<close>

definition hex_free :: "string \<Rightarrow> bool" where
  "hex_free s \<longleftrightarrow> (case s of [] \<Rightarrow> True | c # _ \<Rightarrow> \<not> is_digit16 c)"

lemma scan_number:
  assumes "list_all is_digit16 ds" "hex_free s"
  shows "scan_hex (CHR ''0'' # CHR ''x'' # ds @ s) = read_digits ds # scan_hex s"
proof -
  have t: "takeWhile is_digit16 s = []" "dropWhile is_digit16 s = s"
    using assms(2) by (cases s, simp_all add: hex_free_def)+
  have "\<And>d. d \<in> set ds \<Longrightarrow> is_digit16 d" using assms(1) by (simp add: list_all_iff)
  then show ?thesis using t
    by (simp add: scan_hex.simps(2) takeWhile_append2 dropWhile_append2)
qed

lemma scan_hex0: "hex_free s \<Longrightarrow> scan_hex (hex0 w n @ s) = n # scan_hex s"
  using scan_number [of "fmt_hex (w - 2) n" s] fmt_hex_reads [of "w - 2" n] by (simp add: hex0_def)

lemma scan_hex_alt: "hex_free s \<Longrightarrow> scan_hex (hex n @ s) = n # scan_hex s"
  using scan_number [of "hex_upper n" s] hex_upper_reads [of n] by (simp add: hex_def)

lemma scan_pointer: "hex_free s \<Longrightarrow> scan_hex (pointer n @ s) = n # scan_hex s"
  using scan_number [of "map lower_case (fmt_hex 16 n)" s] lower_case_reads [of "fmt_hex 16 n"] fmt_hex_reads [of 16 n]
  by (simp add: pointer_def)

text \<open>Text without a number in it: no \<open>x\<close>, or no zero.\<close>

definition wordy :: "string \<Rightarrow> bool" where
  "wordy t \<longleftrightarrow> CHR ''0'' \<notin> set t \<or> CHR ''x'' \<notin> set t \<and> last t \<noteq> CHR ''0''"

lemma scan_other: "c \<noteq> CHR ''0'' \<or> take 1 s \<noteq> ''x'' \<Longrightarrow> scan_hex (c # s) = scan_hex s"
  by (subst scan_hex.simps(2), subst if_not_P) blast+

lemma scan_skip: "CHR ''0'' \<notin> set t \<Longrightarrow> scan_hex (t @ s) = scan_hex s"
proof (induction t)
  case (Cons c t)
  then have "c \<noteq> CHR ''0''" by auto
  then show ?case using Cons by (simp add: scan_other)
qed simp

lemma scan_skip_no_x: "CHR ''x'' \<notin> set t \<Longrightarrow> t \<noteq> [] \<Longrightarrow> last t \<noteq> CHR ''0'' \<Longrightarrow> scan_hex (t @ s) = scan_hex s"
proof (induction t)
  case (Cons c t)
  have "c \<noteq> CHR ''0'' \<or> take 1 (t @ s) \<noteq> ''x''" using Cons.prems by (cases t) auto
  then have "scan_hex ((c # t) @ s) = scan_hex (t @ s)" by (simp add: scan_other)
  also have "scan_hex (t @ s) = scan_hex s" using Cons by (cases "t = []") auto
  finally show ?case .
qed simp

lemma scan_text: "wordy t \<Longrightarrow> scan_hex (t @ s) = scan_hex s"
  using scan_skip [of t s] scan_skip_no_x [of t s] unfolding wordy_def by (cases "t = []") auto

end
