(* ===== verification/Formatting_Theorems.thy ===== *)
theory Formatting_Theorems
  imports Formatting X86_Theorems Print_Theorems
begin

text \<open>The properties of the text that the kernel prints.\<close>

section \<open>Page table dumps\<close>

lemma dec_no_x: "CHR ''x'' \<notin> set (dec n)"
proof (induction n rule: dec.induct)
  case (1 n)
  have d: "i < 10 \<Longrightarrow> ''0123456789'' ! i \<noteq> CHR ''x''" for i
  proof -
    have "\<forall>i \<in> {..< 10}. ''0123456789'' ! i \<noteq> CHR ''x''" by code_simp
    then show "i < 10 \<Longrightarrow> ''0123456789'' ! i \<noteq> CHR ''x''" by blast
  qed
  have "n mod 10 < 10" by simp
  from d [OF this] d [of n] 1 show ?case by (subst dec.simps) auto
qed

lemma hex_free_simps [simp]: "hex_free []" "hex_free (c # s) \<longleftrightarrow> \<not> is_digit16 c"
  by (simp_all add: hex_free_def)

lemma scan_dec: "CHR ''x'' \<notin> set (u @ t) \<Longrightarrow> t \<noteq> [] \<Longrightarrow> last t \<noteq> CHR ''0'' \<Longrightarrow> scan_hex (u @ dec n @ t @ s) = scan_hex s"
  using scan_skip_no_x [of "u @ dec n @ t" s] dec_no_x [of n] by simp

lemma entry_scan: "scan_hex (Entry_format level a v @ s) = a # unat v # scan_hex s"
proof -
  let ?flags = "'' '' @ (if is_present v then ''P'' else ''p'') @ (if is_writable v then ''W'' else ''w'') @
     (if is_user v then ''U'' else ''S'') @ '' }''"
  have "scan_hex (Entry_format level a v @ s) =
      scan_hex (''L'' @ dec level @ ''Entry @ '' @ pointer a @ '' { '' @ hex0 18 (unat v) @ ?flags @ s)"
    by (simp only: Entry_format_def append_assoc)
  also have "\<dots> = scan_hex (pointer a @ '' { '' @ hex0 18 (unat v) @ ?flags @ s)"
    by (rule scan_dec) simp_all
  also have "\<dots> = a # scan_hex ('' { '' @ hex0 18 (unat v) @ ?flags @ s)"
    by (rule scan_pointer) (simp add: is_digit16_def)
  also have "scan_hex ('' { '' @ hex0 18 (unat v) @ ?flags @ s) = unat v # scan_hex s"
    by (subst scan_skip, simp, subst scan_hex0, simp add: is_digit16_def, subst scan_skip, simp, rule refl)
  finally show ?thesis .
qed

lemma rows_scan:
  "scan_hex (concat (map (Table_row level self es) is) @ s) =
     concat (map (\<lambda>i. [self + 8 * i, unat (es i)]) (filter (\<lambda>i. \<not> is_present (es i)) is)) @ scan_hex s"
proof (induction "is")
  case (Cons i "is")
  show ?case
  proof (cases "is_present (es i)")
    case False
    let ?rest = "newline @ concat (map (Table_row level self es) is) @ s"
    have "scan_hex (Table_row level self es i @ concat (map (Table_row level self es) is) @ s) =
        scan_hex (('' entry['' @ replicate (3 - length (dec i)) CHR '' '') @ dec i @ ''] = '' @
          Entry_format level (self + 8 * i) (es i) @ ?rest)"
      using False by (simp add: Table_row_def pad_left_def)
    also have "\<dots> = scan_hex (Entry_format level (self + 8 * i) (es i) @ ?rest)"
      by (rule scan_dec) auto
    also have "\<dots> = (self + 8 * i) # unat (es i) # scan_hex (concat (map (Table_row level self es) is) @ s)"
      using scan_skip [of newline] by (simp add: entry_scan newline_def)
    finally show ?thesis using False Cons.IH by simp
  qed (use Cons.IH in \<open>simp add: Table_row_def\<close>)
qed simp

text \<open>
  Property C40 (roundtrip). The dump of a page table, read back, is the address of the table and the address and value of
  every entry that is not present, in order, and nothing else: the entries that map something are missing from
  it.
\<close>

theorem table_dump_reads_back:
  "scan_hex (Table_format level self es) =
     self # concat (map (\<lambda>i. [self + 8 * i, unat (es i)]) (filter (\<lambda>i. \<not> is_present (es i)) [0 ..< 512]))"
proof -
  let ?rows = "concat (map (Table_row level self es) [0 ..< 512])"
  have "scan_hex (Table_format level self es) =
      scan_hex (''L'' @ dec level @ ''Table @ '' @ pointer self @ ('' {'' @ newline) @ ?rows @ ''}'' @ newline)"
    by (simp add: Table_format_def)
  also have "\<dots> = scan_hex (pointer self @ ('' {'' @ newline) @ ?rows @ ''}'' @ newline)"
    by (rule scan_dec) simp_all
  also have "\<dots> = self # scan_hex (('' {'' @ newline) @ ?rows @ ''}'' @ newline)"
    by (rule scan_pointer) (simp add: is_digit16_def)
  also have "scan_hex (('' {'' @ newline) @ ?rows @ ''}'' @ newline) = scan_hex (?rows @ ''}'' @ newline)"
    by (rule scan_skip) (simp add: newline_def)
  also have "\<dots> = concat (map (\<lambda>i. [self + 8 * i, unat (es i)]) (filter (\<lambda>i. \<not> is_present (es i)) [0 ..< 512])) @
      scan_hex (''}'' @ newline)"
    by (rule rows_scan)
  also have "scan_hex (''}'' @ newline) = []"
    using scan_skip [of "''}'' @ newline" "[]"] by (simp add: newline_def)
  finally show ?thesis by simp
qed

section \<open>The register dump\<close>

text \<open>A text of labelled numbers.\<close>

definition fields_text :: "(string \<times> nat \<times> nat) list \<Rightarrow> string" where
  "fields_text fs = concat (map (\<lambda>(t, w, n). t @ hex0 w n) fs)"

definition label_ok :: "string \<Rightarrow> bool" where
  "label_ok t \<longleftrightarrow> wordy t \<and> t \<noteq> [] \<and> hex_free t"

lemma fields_text_simps [simp]:
  "fields_text [] = []" "fields_text ((t, w, n) # fs) = t @ hex0 w n @ fields_text fs"
  by (simp_all add: fields_text_def)

lemma hex_free_append: "t \<noteq> [] \<Longrightarrow> hex_free (t @ s) = hex_free t"
  by (cases t) simp_all

lemma scan_fields:
  "list_all (\<lambda>(t, _, _). label_ok t) fs \<Longrightarrow> hex_free s \<Longrightarrow>
     scan_hex (fields_text fs @ s) = map (\<lambda>(_, _, n). n) fs @ scan_hex s"
proof (induction fs)
  case (Cons f fs)
  obtain t w n where f: "f = (t, w, n)" by (cases f) auto
  have "hex_free (fields_text fs @ s)"
    using Cons.prems by (cases fs) (auto simp: label_ok_def hex_free_append)
  then show ?case using Cons by (simp add: f label_ok_def scan_text scan_hex0)
qed simp

definition dump_order :: "reg list" where
  "dump_order = [RAX, RCX, RDX, RBX, RSI, RDI, R8, R9, R10, R11, R12, R13, R14, R15]"

definition dump_fields :: "InterruptInfo \<Rightarrow> (string \<times> nat \<times> nat) list" where
  "dump_fields ii =
     (let x = (\<lambda>r. unat (ii_greg ii r)) in
      [(indent 12 @ ''{'' @ indent 16 @ ''rip: '', 18, unat (ii_rip ii)), ('', CS: '', 6, unat (ii_cs ii)),
       ('','' @ indent 16 @ ''rsp: '', 18, unat (ii_rsp ii)), ('', SS: '', 6, unat (ii_ss ii)),
       ('','' @ indent 16 @ ''rbp: '', 18, x RBP),
       ('','' @ newline @ indent 16 @ ''rflags: '', 18, unat (ii_rflags ii)),
       ('','' @ indent 16 @ ''error_code: '', 18, unat (ii_error_code ii)),
       ('','' @ newline @ indent 16 @ ''rax: '', 18, x RAX), ('', rcx: '', 18, x RCX),
       ('','' @ indent 16 @ ''rdx: '', 18, x RDX), ('', rbx: '', 18, x RBX),
       ('','' @ indent 16 @ ''rsi: '', 18, x RSI), ('', rdi: '', 18, x RDI),
       ('','' @ indent 16 @ ''r8: '', 18, x R8), ('', r9: '', 18, x R9),
       ('','' @ indent 16 @ ''r10: '', 18, x R10), ('', r11: '', 18, x R11),
       ('','' @ indent 16 @ ''r12: '', 18, x R12), ('', r13: '', 18, x R13),
       ('','' @ indent 16 @ ''r14: '', 18, x R14), ('', r15: '', 18, x R15)])"

lemma dump_text: "InterruptInfo_fmt ii = fields_text (dump_fields ii) @ '','' @ indent 12 @ ''}''"
  by (simp only: InterruptInfo_fmt_def dump_fields_def fields_text_simps Let_def append_assoc append_Nil)

lemma indent_label: "CHR ''0'' \<notin> set t \<Longrightarrow> CHR ''0'' \<notin> set (indent n @ t)"
  by (simp add: indent_def newline_def)

lemma dump_labels: "list_all (\<lambda>(t, _, _). label_ok t) (dump_fields ii)"
  by (simp add: dump_fields_def Let_def label_ok_def wordy_def indent_def newline_def is_digit16_def)

lemma dump_scan:
  assumes "hex_free s"
  shows "scan_hex (InterruptInfo_fmt ii @ s) =
    map unat ([ii_rip ii, ii_cs ii, ii_rsp ii, ii_ss ii, ii_greg ii RBP, ii_rflags ii, ii_error_code ii] @
      map (ii_greg ii) dump_order) @ scan_hex s"
proof -
  have "scan_hex (InterruptInfo_fmt ii @ s) =
      scan_hex (fields_text (dump_fields ii) @ ('','' @ indent 12 @ ''}'') @ s)"
    by (simp only: dump_text append_assoc)
  also have "\<dots> = map (\<lambda>(_, _, n). n) (dump_fields ii) @ scan_hex (('','' @ indent 12 @ ''}'') @ s)"
    by (rule scan_fields [OF dump_labels]) (simp add: is_digit16_def)
  also have "scan_hex (('','' @ indent 12 @ ''}'') @ s) = scan_hex s"
    by (rule scan_skip) (simp add: indent_def newline_def)
  finally show ?thesis by (simp add: dump_fields_def Let_def dump_order_def)
qed

text \<open>What the handler finds at its argument.\<close>

lemma at_call_word:
  assumes "at_call m p v (frame_words m ec) mc" "i < 21"
  shows "info_word (mem mc) p i = (map (gpr m) greg_order @ [ec, rip m, cs m, rflags m, gpr m RSP, ss m]) ! i"
proof -
  have "map (gpr m) (rev saved_regs) @ frame_words m ec =
      map (gpr m) greg_order @ [ec, rip m, cs m, rflags m, gpr m RSP, ss m]"
    by (simp add: saved_regs_def greg_order_def frame_words_def)
  then have "holds_at (mem mc) (p + 520) (map (gpr m) greg_order @ [ec, rip m, cs m, rflags m, gpr m RSP, ss m])"
    using assms(1) by (simp only: at_call_def)
  moreover have "length (map (gpr m) greg_order @ [ec, rip m, cs m, rflags m, gpr m RSP, ss m]) = 21"
    by (simp add: greg_order_def)
  ultimately show ?thesis using assms(2) unfolding holds_at_def info_word_def by metis
qed

lemma greg_found: "r \<noteq> RSP \<Longrightarrow> \<exists>i < 15. map_of (zip greg_order [0 ..< 15]) r = Some i \<and> greg_order ! i = r"
proof -
  have n: "distinct greg_order" "length greg_order = 15" by (simp_all add: greg_order_def)
  assume "r \<noteq> RSP"
  then have "r \<in> set greg_order" by (cases r) (simp_all add: greg_order_def)
  then obtain i where i: "i < 15" "greg_order ! i = r" using n(2) by (auto simp: in_set_conv_nth)
  have "map_of (zip greg_order [0 ..< 15]) (greg_order ! i) = Some ([0 ..< 15] ! i)"
    by (rule map_of_zip_nth) (use n i in simp_all)
  then show ?thesis using i by auto
qed

lemma at_call_dump:
  assumes "at_call m p v (frame_words m ec) mc"
  shows "r \<noteq> RSP \<Longrightarrow> ii_greg (info_at (mem mc) p) r = gpr m r"
    and "ii_error_code (info_at (mem mc) p) = ec" "ii_rip (info_at (mem mc) p) = rip m"
    and "ii_cs (info_at (mem mc) p) = cs m" "ii_rflags (info_at (mem mc) p) = rflags m"
    and "ii_rsp (info_at (mem mc) p) = gpr m RSP" "ii_ss (info_at (mem mc) p) = ss m"
proof -
  have l: "length greg_order = 15" by (simp add: greg_order_def)
  note w = at_call_word [OF assms]
  show "ii_greg (info_at (mem mc) p) r = gpr m r" if "r \<noteq> RSP"
    using greg_found [OF that] w l by (auto simp: info_at_def nth_append)
  show "ii_error_code (info_at (mem mc) p) = ec" "ii_rip (info_at (mem mc) p) = rip m"
      "ii_cs (info_at (mem mc) p) = cs m" "ii_rflags (info_at (mem mc) p) = rflags m"
      "ii_rsp (info_at (mem mc) p) = gpr m RSP" "ii_ss (info_at (mem mc) p) = ss m"
    using w [of 15] w [of 16] w [of 17] w [of 18] w [of 19] w [of 20] l by (simp_all add: info_at_def nth_append)
qed

text \<open>The messages after the dump.\<close>

definition machine_dump :: "'f machine \<Rightarrow> u64 \<Rightarrow> u64 list" where
  "machine_dump m ec =
     [rip m, cs m, gpr m RSP, ss m, gpr m RBP, rflags m, ec] @ map (gpr m) dump_order"

lemma info_dump:
  assumes "at_call m p v (frame_words m ec) mc" "hex_free s"
  shows "scan_hex (InterruptInfo_fmt (info_at (mem mc) p) @ s) = map unat (machine_dump m ec) @ scan_hex s"
proof -
  have "map (ii_greg (info_at (mem mc) p)) dump_order = map (gpr m) dump_order"
    by (rule map_cong [OF refl], rule at_call_dump(1) [OF assms(1)]) (auto simp: dump_order_def)
  then show ?thesis
    by (simp add: dump_scan [OF assms(2)] machine_dump_def at_call_dump [OF assms(1)])
qed

lemma scan_line: "scan_hex (a @ newline @ s) = scan_hex a @ scan_hex s"
proof (induction a rule: scan_hex.induct)
  case 1
  then show ?case by (simp add: newline_def scan_other)
next
  case (2 c a)
  have nl: "\<not> is_digit16 (CHR 0x0A)" by (simp add: is_digit16_def)
  have t: "takeWhile is_digit16 (ds @ newline @ s) = takeWhile is_digit16 ds"
      "dropWhile is_digit16 (ds @ newline @ s) = dropWhile is_digit16 ds @ newline @ s" for ds
    using nl by (induction ds) (simp_all add: newline_def)
  have x: "take 1 (a @ newline @ s) = ''x'' \<longleftrightarrow> take 1 a = ''x''"
    by (cases a) (simp_all add: newline_def)
  show ?case
  proof (cases "c = CHR ''0'' \<and> take 1 a = ''x''")
    case True
    then have tl: "tl (a @ newline @ s) = tl a @ newline @ s" by (cases a) auto
    have "scan_hex ((c # a) @ newline @ s) =
        read_digits (takeWhile is_digit16 (tl a)) # scan_hex (dropWhile is_digit16 (tl a) @ newline @ s)"
      by (subst append_Cons, subst scan_hex.simps(2), subst if_P) (use True in \<open>simp_all only: x tl t simp_thms\<close>)
    also have "\<dots> = read_digits (takeWhile is_digit16 (tl a)) # scan_hex (dropWhile is_digit16 (tl a)) @ scan_hex s"
      using 2(1) [OF True] by simp
    also have "\<dots> = scan_hex (c # a) @ scan_hex s"
      by (subst scan_hex.simps(2), subst if_P [OF True]) simp
    finally show ?thesis .
  next
    case False
    then have "c \<noteq> CHR ''0'' \<or> take 1 (a @ newline @ s) \<noteq> ''x''" by (simp only: x) blast
    then show ?thesis using 2(2) [OF False] scan_other [of c a] False by (simp add: scan_other)
  qed
qed

lemma log_scan:
  assumes "CHR ''0'' \<notin> set file" "CHR ''0'' \<notin> set (dec line)"
  shows "scan_hex (error_text file line msg @ s) = scan_hex msg @ scan_hex s"
proof -
  have "scan_hex (error_text file line msg @ s) =
      scan_hex ((''[ERROR] '' @ file @ '':'' @ pad_right 3 (dec line) @ '': '') @ msg @ newline @ s)"
    by (simp only: error_text_def log_text_def append_assoc)
  also have "\<dots> = scan_hex (msg @ newline @ s)"
    by (rule scan_skip) (use assms in \<open>simp add: pad_right_def\<close>)
  finally show ?thesis by (simp only: scan_line)
qed

lemma report_scan:
  assumes "CHR ''0'' \<notin> set file" "\<forall>(line, msg) \<in> set ms. CHR ''0'' \<notin> set (dec line)"
  shows "scan_hex (concat (map (\<lambda>(line, msg). error_text file line msg) ms)) =
    concat (map (\<lambda>(line, msg). scan_hex msg) ms)"
  using assms(2) by (induction ms) (auto simp: log_scan [OF assms(1)])

lemma commas_no_x: "\<forall>t \<in> set ts. CHR ''x'' \<notin> set t \<Longrightarrow> CHR ''x'' \<notin> set (commas ts)"
  by (induction ts rule: commas.induct) auto

lemma fmt_bytes_scan: "scan_hex (fmt_bytes bs) = []"
proof -
  have "\<not> is_digit16 (CHR ''x'')" by (simp add: is_digit16_def)
  then have "CHR ''x'' \<notin> set (fmt_hex 2 n)" for n
    using fmt_hex_reads [of 2 n] unfolding list_all_iff by blast
  then have "CHR ''x'' \<notin> set (commas (map (\<lambda>b. fmt_hex 2 (unat b)) bs))" by (intro commas_no_x) auto
  then have "CHR ''x'' \<notin> set (fmt_bytes bs)" by (simp add: fmt_bytes_def)
  moreover have "last (fmt_bytes bs) \<noteq> CHR ''0''" by (simp add: fmt_bytes_def)
  ultimately show ?thesis using scan_skip_no_x [of "fmt_bytes bs" "[]"] by (simp add: fmt_bytes_def)
qed

text \<open>The report as a whole.\<close>

definition report_numbers :: "nat \<Rightarrow> u64 \<Rightarrow> u64 \<Rightarrow> nat list" where
  "report_numbers index rip_value cr2 =
     index # (if index = 13 then [unat rip_value] else if index = 14 then [unat cr2] else [])"

lemma scan_msg: "CHR ''0'' \<notin> set t \<Longrightarrow> hex_free s \<Longrightarrow> scan_hex (t @ hex0 w n @ s) = n # scan_hex s"
  by (simp add: scan_skip scan_hex0)

lemma scan_plain: "CHR ''0'' \<notin> set t \<Longrightarrow> scan_hex t = []"
  using scan_skip [of t "[]"] by simp

lemma page_fault_plain:
  "CHR ''0'' \<notin> set (''Caused by: A '' @ page_fault_cause ec ! 0 @ '' mode '' @ page_fault_cause ec ! 1 @ '' on a '' @
      page_fault_cause ec ! 2 @ '' page, page structures are '' @ page_fault_cause ec ! 3)"
  by (simp add: page_fault_cause_def)

lemma message_lines: "\<forall>(line, msg) \<in> set (inthandler_messages ii index cr2 bytes). CHR ''0'' \<notin> set (dec line)"
proof -
  have "\<forall>n \<in> {527, 528, 531, 534, 535, 537, 539, 542, 545, 546, 547, 571}. CHR ''0'' \<notin> set (dec n)"
    by (simp add: dec.simps)
  then show ?thesis by (auto simp: inthandler_messages_def)
qed

lemma inthandler_report_scan:
  assumes "CHR ''0'' \<notin> set file"
  shows "scan_hex (concat (inthandler_report file ii index cr2 bytes)) =
    scan_hex (InterruptInfo_fmt ii) @ report_numbers index (ii_rip ii) cr2"
proof -
  have "scan_hex (concat (inthandler_report file ii index cr2 bytes)) =
      concat (map (\<lambda>(line, msg). scan_hex msg) (inthandler_messages ii index cr2 bytes))"
    unfolding inthandler_report_def by (rule report_scan [OF assms message_lines])
  moreover have "scan_hex (''Interrupt Info: '' @ InterruptInfo_fmt ii) = scan_hex (InterruptInfo_fmt ii)"
    by (rule scan_skip) simp
  moreover have "scan_hex (''Exception '' @ hex0 4 index @ '': '') = [index]"
      "scan_hex (''CR2 = '' @ hex0 18 (unat cr2) @ []) = [unat cr2]"
      "scan_hex (''Bytes @ RIP('' @ hex0 18 (unat (ii_rip ii)) @ ''): '') = [unat (ii_rip ii)]"
    by (subst scan_msg, simp, simp add: is_digit16_def, simp add: scan_plain)+
  moreover have "scan_hex ('' = '' @ fmt_bytes bytes) = []"
    using scan_skip [of "'' = ''" "fmt_bytes bytes"] by (simp add: fmt_bytes_scan)
  moreover note scan_plain [OF page_fault_plain [of "ii_error_code ii"]]
  ultimately show ?thesis
    by (simp add: inthandler_messages_def report_numbers_def Let_def scan_plain del: append_Cons)
qed

text \<open>
  Property C35 (functional). What the fault handler logs shows the machine that was interrupted: from the entry stub to the
  call, and through the memory layout of \<^verbatim>\<open>InterruptInfo\<close>, the numbers of the report, read back from its text,
  are the registers at the interrupt, the error code or 0, the vector, and \<^verbatim>\<open>rip\<close> again for a general
  protection fault or \<^verbatim>\<open>cr2\<close> for a page fault.
\<close>

theorem fault_report_shows_machine:
  assumes "v \<in> {3, 6, 13, 14, 32}" "respects_abi h" "CHR ''0'' \<notin> set file"
  shows "\<exists>code mc. entry_code v = Some code \<and>
    exec h code (cpu_interrupt stack v ecode m) =
      map_option (\<lambda>mh. m\<lparr>mem := mem mh, fpu_area := fpu_area mh\<rparr>) (h mc) \<and>
    scan_hex (concat (inthandler_report file (info_at (mem mc) (gpr mc RDI)) (unat (gpr mc RSI)) cr2 bytes)) =
      map unat ([rip m, cs m, gpr m RSP, ss m, gpr m RBP, rflags m, if has_error_code v then ecode else 0] @
        map (gpr m) [RAX, RCX, RDX, RBX, RSI, RDI, R8, R9, R10, R11, R12, R13, R14, R15]) @
      v # (if v = 13 then [unat (rip m)] else if v = 14 then [unat cr2] else [])"
proof -
  obtain code mc where c: "entry_code v = Some code"
      "exec h code (cpu_interrupt stack v ecode m) =
        map_option (\<lambda>mh. m\<lparr>mem := mem mh, fpu_area := fpu_area mh\<rparr>) (h mc)"
      "at_call m (info_address stack) v (frame_words m (reported_error_code v ecode)) mc"
    using interrupt_round [OF assms(1,2)] by blast
  have regs: "gpr mc RDI = info_address stack" "gpr mc RSI = word_of_nat v"
    using c(3) by (simp_all add: at_call_def)
  have v: "unat (word_of_nat v :: u64) = v" using assms(1) by auto
  have "scan_hex (InterruptInfo_fmt (info_at (mem mc) (info_address stack))) =
      map unat (machine_dump m (reported_error_code v ecode))"
    using info_dump [OF c(3), of "[]"] by simp
  then have "scan_hex (concat (inthandler_report file (info_at (mem mc) (gpr mc RDI)) (unat (gpr mc RSI)) cr2 bytes)) =
      map unat (machine_dump m (reported_error_code v ecode)) @ report_numbers v (rip m) cr2"
    using inthandler_report_scan [OF assms(3)] at_call_dump(3) [OF c(3)] by (simp add: regs v)
  then show ?thesis using c(1,2)
    by (intro exI [of _ code] exI [of _ mc])
      (simp add: machine_dump_def dump_order_def report_numbers_def reported_error_code_def)
qed

theorem fault_report_shows_machine_witness:
  "\<exists>code mc. entry_code 14 = Some code \<and>
    exec demo_handler code (cpu_interrupt 0x20008 14 2 demo_machine) =
      map_option (\<lambda>mh. demo_machine\<lparr>mem := mem mh, fpu_area := fpu_area mh\<rparr>) (demo_handler mc) \<and>
    scan_hex (concat (inthandler_report ''src/x86.rs'' (info_at (mem mc) (gpr mc RDI)) (unat (gpr mc RSI)) 0xdead [])) =
      [0x1000, 8, 0x7FF0, 16, 1, 0x202, 2, 5, 1, 1, 1, 1, 1, 1, 1, 1, 1, 1, 1, 1, 1, 14, 0xdead]"
proof -
  have "respects_abi demo_handler" by (auto simp: respects_abi_def demo_handler_def)
  from fault_report_shows_machine [OF _ this, of 14 "''src/x86.rs''" "0x20008" 2 demo_machine "0xdead" "[]"]
  obtain code mc where "entry_code 14 = Some code"
      "exec demo_handler code (cpu_interrupt 0x20008 14 2 demo_machine) =
        map_option (\<lambda>mh. demo_machine\<lparr>mem := mem mh, fpu_area := fpu_area mh\<rparr>) (demo_handler mc)"
      "scan_hex (concat (inthandler_report ''src/x86.rs'' (info_at (mem mc) (gpr mc RDI)) (unat (gpr mc RSI)) 0xdead [])) =
        [0x1000, 8, 0x7FF0, 16, 1, 0x202, 2, 5, 1, 1, 1, 1, 1, 1, 1, 1, 1, 1, 1, 1, 1, 14, 0xdead]"
    by (auto simp: demo_machine_def has_error_code_def)
  then show ?thesis by blast
qed

section \<open>Names of devices and memory\<close>

lemma BDF_of_fields: "BDF_new (bdf_bus x) (bdf_device x) (bdf_function x) = Ok x"
proof -
  let ?n = "unat x"
  have n: "?n < 2 ^ 16" using unsigned_less [of x] by simp
  then have "?n div 256 < 256" "?n div 8 mod 32 < 32" "?n mod 8 < 8" by simp_all
  from BDF_fields [OF this] obtain y where y:
      "BDF_new (?n div 256) (?n div 8 mod 32) (?n mod 8) = Ok y" "bdf_bus y = ?n div 256"
      "bdf_device y = ?n div 8 mod 32" "bdf_function y = ?n mod 8"
      "unat y = ?n div 256 * 256 + ?n div 8 mod 32 * 8 + ?n mod 8" by blast
  have "?n div 256 = ?n div 8 div 32" by (simp add: div_mult2_eq [symmetric])
  then have "?n div 256 * 32 + ?n div 8 mod 32 = ?n div 8" by simp
  then have "?n div 256 * 256 + ?n div 8 mod 32 * 8 + ?n mod 8 = ?n div 8 * 8 + ?n mod 8" by linarith
  then have "unat y = ?n" using y(5) by simp
  then have "y = x" by (simp add: word_unat_eq_iff)
  then show ?thesis using y(1-4) by simp
qed

lemma scan_fields_only: "list_all (\<lambda>(t, _, _). label_ok t) fs \<Longrightarrow> CHR ''0'' \<notin> set t \<Longrightarrow> hex_free t \<Longrightarrow>
    scan_hex (fields_text fs @ t) = map (\<lambda>(_, _, n). n) fs"
  by (simp add: scan_fields scan_plain)

lemma BDF_text: "scan_hex (BusDeviceFunction_fmt x) = [bdf_bus x, bdf_device x, bdf_function x]"
proof -
  let ?fs = "[(''/pci/bus/'', 4, bdf_bus x), (''/device/'', 4, bdf_device x), (''/function/'', 3, bdf_function x)] :: (string \<times> nat \<times> nat) list"
  have "BusDeviceFunction_fmt x = fields_text ?fs @ []"
    by (simp only: BusDeviceFunction_fmt_def fields_text_simps append_assoc append_Nil append_Nil2)
  moreover have "scan_hex (fields_text ?fs @ []) = map (\<lambda>(_, _, n). n) ?fs"
    by (rule scan_fields_only) (simp_all add: label_ok_def wordy_def is_digit16_def)
  ultimately show ?thesis by simp
qed

text \<open>
  The name that the log gives a PCI function identifies it: read back, it is the bus, the
  device and the function that \<^verbatim>\<open>BusDeviceFunction::new\<close> turns into the same function; the identity line gives the
  vendor and the device, and the line of a BAR its first address and the one behind its last, unless that
  overflows, which panics.
\<close>

theorem pci_names_read_back:
  "scan_hex (BusDeviceFunction_fmt x) = [bdf_bus x, bdf_device x, bdf_function x] \<and>
   BDF_new (bdf_bus x) (bdf_device x) (bdf_function x) = Ok x \<and>
   scan_hex (VendorDeviceId_fmt (vid, did)) = [unat vid, unat did] \<and>
   (if unat (bar_addr bar) + unat (bar_size bar) < 2 ^ 64
    then \<exists>t. BarMem64_fmt bar = Ok t \<and>
      scan_hex t = [unat (bar_addr bar), unat (bar_addr bar) + unat (bar_size bar)]
    else BarMem64_fmt bar = Panic ''attempt to add with overflow'')"
proof -
  let ?v = "[(''Vendor: '', 6, unat vid), ('', Device: '', 6, unat did)] :: (string \<times> nat \<times> nat) list"
  have "VendorDeviceId_fmt (vid, did) = fields_text ?v @ []"
    by (simp only: VendorDeviceId_fmt_def fields_text_simps append_assoc append_Nil append_Nil2 fst_conv snd_conv)
  moreover have "scan_hex (fields_text ?v @ []) = map (\<lambda>(_, _, n). n) ?v"
    by (rule scan_fields_only) (simp_all add: label_ok_def wordy_def is_digit16_def)
  ultimately have v: "scan_hex (VendorDeviceId_fmt (vid, did)) = [unat vid, unat did]" by simp
  let ?e = "unat (bar_addr bar) + unat (bar_size bar)"
  let ?t = "''BarMem64['' @ hex0 18 (unat (bar_addr bar)) @ ''..'' @ hex0 18 ?e @ '']''"
  have "scan_hex ?t = [unat (bar_addr bar), ?e]"
    by (subst scan_msg, simp, simp add: is_digit16_def, subst scan_msg, simp, simp add: is_digit16_def)
      (simp add: scan_plain)
  moreover have "?e < 2 ^ 64 \<Longrightarrow> BarMem64_fmt bar = Ok ?t"
    by (simp only: BarMem64_fmt_def add_u_def if_True and_then.simps)
  ultimately have fits: "?e < 2 ^ 64 \<Longrightarrow> \<exists>t. BarMem64_fmt bar = Ok t \<and> scan_hex t = [unat (bar_addr bar), ?e]"
    by blast
  have panics: "\<not> ?e < 2 ^ 64 \<Longrightarrow> BarMem64_fmt bar = Panic ''attempt to add with overflow''"
    by (simp only: BarMem64_fmt_def add_u_def if_False and_then.simps)
  show ?thesis by (intro conjI BDF_text BDF_of_fields v) (use fits panics in \<open>simp only: split: if_splits, blast\<close>)
qed

text \<open>The text of a header, and of the entry of the MCFG table, whose bus numbers are decimal.\<close>

lemma header_text_reads_back: "scan_hex (Header_fmt self h) = [self, hdr_size h]"
proof -
  let ?h = "[(''Header @ '', 18, self), ('' { size: '', 18, hdr_size h)] :: (string \<times> nat \<times> nat) list"
  have "Header_fmt self h = fields_text ?h @ '', is_allocated: '' @ fmt_bool (is_allocated h) @ '' }''"
    by (simp only: Header_fmt_def fields_text_simps append_assoc append_Nil)
  then show ?thesis
    using scan_fields_only [of ?h "'', is_allocated: '' @ fmt_bool (is_allocated h) @ '' }''"]
    by (simp add: label_ok_def wordy_def is_digit16_def fmt_bool_def)
qed

lemma ecam_text_reads_back:
  assumes "EcamEntry_fmt m self = Ok t"
  shows "\<exists>base. ecam_base_address m self = Ok base \<and> scan_hex t = [base]"
proof -
  obtain base s e where b: "mem_nat m self 8 = Ok base"
      "t = ''ECAM: Bus ['' @ dec s @ ''..='' @ dec e @ ''] is mapped at '' @ hex base"
    using assms by (auto simp: EcamEntry_fmt_def res_simps)
  have "scan_hex t = scan_hex ((''ECAM: Bus ['' @ dec s @ ''..='') @ dec e @ ''] is mapped at '' @ hex base)"
    by (simp add: b(2))
  also have "\<dots> = scan_hex (hex base)"
    by (rule scan_dec) (simp_all add: dec_no_x)
  also have "\<dots> = [base]" using scan_hex_alt [of "[]" base] by simp
  finally show ?thesis using b(1) by (simp add: ecam_base_address_def)
qed

end
