(* ===== verification/Heap_Bytes.thy ===== *)
theory Heap_Bytes
  imports Heap_Theorems
begin

text \<open>
  The heap with the contents of its memory. A byte that a header covers holds part of that header, whose
  representation the compiler chooses (\<open>enc\<close>); every other byte holds what was stored there last. The
  lemmas show that on the heaps the kernel reaches every header in memory belongs to a block of the
  chain, so no operation of the allocator changes the contents of a live object, and that an allocation
  succeeds while some free block is large enough. The locale \<open>byte_memory\<close> states what the users of the
  heap rely on.
\<close>

section \<open>Memory contents\<close>

record byte_heap =
  bh_heap :: heap_state
  bh_bytes :: "usize \<Rightarrow> u8"

definition covered :: "heap_state \<Rightarrow> usize \<Rightarrow> bool" where
  "covered s a \<longleftrightarrow> list_ex (\<lambda>d. d \<le> a \<and> headers s (a - d) \<noteq> None) [0 ..< HEADER_SIZE]"

definition settle :: "(heap_state \<Rightarrow> usize \<Rightarrow> u8) \<Rightarrow> heap_state \<Rightarrow> (usize \<Rightarrow> u8) \<Rightarrow> usize \<Rightarrow> u8" where
  "settle enc s f = (\<lambda>a. if covered s a then enc s a else f a)"

definition bh_alloc :: "(heap_state \<Rightarrow> usize \<Rightarrow> u8) \<Rightarrow> byte_heap \<Rightarrow> usize \<Rightarrow> usize \<Rightarrow> (usize \<times> byte_heap) res option" where
  "bh_alloc enc w n align =
     and_then_opt (alloc_with_options (bh_heap w) n align) (\<lambda>(p, s).
     Some (Ok (p, \<lparr>bh_heap = s, bh_bytes = settle enc s (bh_bytes w)\<rparr>)))"

definition bh_dealloc :: "(heap_state \<Rightarrow> usize \<Rightarrow> u8) \<Rightarrow> byte_heap \<Rightarrow> usize \<Rightarrow> byte_heap res" where
  "bh_dealloc enc w p =
     and_then (dealloc (bh_heap w) p) (\<lambda>s. Ok \<lparr>bh_heap = s, bh_bytes = settle enc s (bh_bytes w)\<rparr>)"

definition bh_store :: "byte_heap \<Rightarrow> usize \<Rightarrow> u8 \<Rightarrow> byte_heap" where
  "bh_store w a v = \<lparr>bh_heap = write_bytes (bh_heap w) a 1, bh_bytes = (bh_bytes w)(a := v)\<rparr>"

section \<open>Every header belongs to a block\<close>

lemma link_allocated_dom: "link_allocated m self ha z = Ok m2 \<Longrightarrow> dom m2 \<subseteq> insert ha (dom m)"
  by (auto simp: link_allocated_def Let_def res_simps header_defs split: option.splits if_splits)

lemma link_padding_dom: "link_padding m2 ha z he e = Ok (m4, used) \<Longrightarrow> dom m4 \<subseteq> (if he = e then {} else {he}) \<union> dom m2"
  by (auto simp: link_padding_def Let_def res_simps header_defs split: option.splits if_splits)

lemma shrink_self_dom: "shrink_self m4 self ha used = Ok m5 \<Longrightarrow> dom m5 \<subseteq> dom m4"
  by (auto simp: shrink_self_def res_simps get_header_def split: option.splits if_splits)

lemma provide_dom:
  assumes "provide m a n align = Ok (Some p, m')" "m a = Some h" "n < 2 ^ 64"
  shows "dom m' \<subseteq> dom m \<union> {p - 32} \<union> (if p + eff_size n = a + hdr_size h then {} else {p + eff_size n})"
proof -
  have "0 < n \<and> n \<le> 2 ^ 63" using assms(1) by (auto simp: provide_def round_up_eq [OF assms(3)] split: if_splits)
  then have r: "round_up_to_nearest_pow2 n = Ok (2 ^ bit_len (n - 1))" by (simp add: round_up_eq [OF assms(3)])
  have sz: "max (2 ^ bit_len (n - 1)) HEADER_SIZE = eff_size n" by (simp add: eff_size_def HEADER_SIZE_def)
  obtain ha m2 m4 used where m: "32 \<le> p" "ha = p - 32" "link_allocated m a ha (eff_size n + 32) = Ok m2"
      "link_padding m2 ha (eff_size n + 32) (ha + (eff_size n + 32)) (a + hdr_size h) = Ok (m4, used)"
      "shrink_self m4 a ha used = Ok m'"
    using assms(1,2) unfolding provide_def r res.case Let_def sz
    by (auto simp: res_simps get_header_def end_addr_def add_u_def sub_u_def HEADER_SIZE_def split: if_splits)
  have "ha + (eff_size n + 32) = p + eff_size n" using m(1,2) by simp
  then have "dom m4 \<subseteq> (if p + eff_size n = a + hdr_size h then {} else {p + eff_size n}) \<union> dom m2"
    using link_padding_dom [OF m(4)] by (simp only:)
  then show ?thesis using link_allocated_dom [OF m(3)] shrink_self_dom [OF m(5)] unfolding m(2) by blast
qed

lemma alloc_loop_dom:
  assumes "chain m p bs" "list_all wf_block bs" "sorted_wrt blk_disj bs" "layout_ok n align"
    and "alloc_loop m p n align = Some (Ok (q, m'))"
  shows "dom m' \<subseteq> dom m \<union> fst ` set (snd (spec_alloc n align bs))"
  using assms(1-3,5)
proof (induction bs arbitrary: p)
  case Nil
  then show ?case by (cases p) (auto simp: alloc_loop.simps)
next
  case (Cons b bs)
  then obtain a h where p: "p = Some a" and h: "m a = Some h"
    and b: "b = (a, hdr_size h, is_allocated h)" and ch: "chain m (next_header h) bs"
    by (cases p) (auto simp: chain_Some)
  note n64 = layout_ok_64 [OF assms(4)]
  show ?case
  proof (cases "fits n align b")
    case True
    obtain m1 where pr: "provide m a n align = Ok (Some (alloc_addr n align b), m1)"
      using provide_Some [of m a, OF h assms(4) n64, folded b] True Cons.prems(2) by auto
    then have "m1 = m'" using Cons.prems(4) by (simp add: p alloc_loop.simps [of m "Some a"])
    then have "dom m' \<subseteq> dom m \<union> {alloc_addr n align b - 32} \<union>
        (if alloc_addr n align b + eff_size n = a + hdr_size h then {} else {alloc_addr n align b + eff_size n})"
      using provide_dom [where m = m and a = a, OF pr h n64] by simp
    moreover have "alloc_addr n align b - 32 \<in> fst ` set (split_block n align b)"
        "alloc_addr n align b + eff_size n \<noteq> a + hdr_size h \<longrightarrow>
          alloc_addr n align b + eff_size n \<in> fst ` set (split_block n align b)"
      by (auto simp: split_block_def b Let_def image_iff)
    ultimately show ?thesis using True by (auto simp: image_Un split: if_splits)
  next
    case False
    then have pr: "provide m a n align = Ok (None, m)"
      using provide_None [of m a, OF h assms(4) _ n64] b by simp
    then have "alloc_loop m (next_header h) n align = Some (Ok (q, m'))"
      using Cons.prems(4) by (simp add: p alloc_loop.simps [of m "Some a"] get_header_def h)
    from Cons.IH [OF ch _ _ this] Cons.prems(2,3)
    have "dom m' \<subseteq> dom m \<union> fst ` set (snd (spec_alloc n align bs))" by simp
    moreover have "snd (spec_alloc n align (b # bs)) = b # snd (spec_alloc n align bs)"
      using False by (simp split: prod.splits)
    ultimately show ?thesis by (simp only: set_simps image_insert) blast
  qed
qed

lemma spec_alloc_starts: "fst ` set bs \<subseteq> fst ` set (snd (spec_alloc n align bs))"
proof (induction bs)
  case (Cons b bs)
  have "fst b \<in> fst ` set (split_block n align b)"
    by (cases b) (simp add: split_block_def Let_def)
  moreover have "snd (spec_alloc n align (b # bs)) =
      (if fits n align b then split_block n align b @ bs else b # snd (spec_alloc n align bs))"
    by (simp split: prod.splits)
  ultimately show ?case using Cons unfolding set_simps image_insert by (auto simp only: set_append image_Un set_simps image_insert split: if_splits)
qed simp

definition neat :: "heap_state \<Rightarrow> block list \<Rightarrow> bool" where
  "neat s bs \<longleftrightarrow> heap_inv s bs \<and> dom (headers s) \<subseteq> fst ` set bs"

lemma neat_alloc:
  assumes "neat s bs" "layout_ok n align" "alloc_with_options s n align = Some (Ok (p, s'))"
  shows "neat s' (snd (spec_alloc n align bs)) \<and> p = fst (spec_alloc n align bs)"
proof -
  have h: "heap_inv s' (snd (spec_alloc n align bs))" "p = fst (spec_alloc n align bs)"
    using alloc_with_options_spec [of s bs n align] assms by (auto simp: neat_def)
  obtain m' where m': "alloc_loop (headers s) (first_header s) n align = Some (Ok (p, m'))" "headers s' = m'"
    using assms(3) by (auto simp: alloc_with_options_def res_simps)
  have "dom m' \<subseteq> dom (headers s) \<union> fst ` set (snd (spec_alloc n align bs))"
    using alloc_loop_dom [OF _ _ _ assms(2) m'(1)] assms(1) by (auto simp: neat_def heap_inv_def)
  then have "dom (headers s') \<subseteq> fst ` set (snd (spec_alloc n align bs))"
    using spec_alloc_starts [of bs n align] assms(1) unfolding m'(2) neat_def by blast
  then show ?thesis using h by (simp add: neat_def)
qed

lemma neat_dealloc:
  assumes "neat s bs" "(p - 32, z, al) \<in> set bs" "32 \<le> p"
  shows "\<exists>s'. dealloc s p = Ok s' \<and> neat s' (mark_free (p - 32) bs)"
proof -
  obtain s' where s': "dealloc s p = Ok s'" "heap_inv s' (mark_free (p - 32) bs)"
    using dealloc_spec [of s bs p z al] assms by (auto simp: neat_def)
  then have "dom (headers s') = dom (headers s)"
    by (auto simp: dealloc_def res_simps get_header_def HEADER_SIZE_def sub_u_def split: option.splits if_splits)
  moreover have "fst ` set (mark_free (p - 32) bs) = fst ` set bs"
    unfolding mark_free_def set_map image_image by (rule image_cong) simp_all
  ultimately show ?thesis using s' assms(1) by (auto simp: neat_def)
qed

lemma neat_write:
  assumes "neat s bs" "(a, z, True) \<in> set bs" "a + 32 \<le> q" "q + n \<le> a + z"
  shows "neat (write_bytes s q n) bs"
proof -
  have "dom (headers (write_bytes s q n)) \<subseteq> dom (headers s)"
    by (auto simp: write_bytes_def clobber_def split: if_splits)
  moreover have "heap_inv (write_bytes s q n) bs"
    using clobber_payload [of s bs] assms by (simp add: neat_def write_bytes_def)
  ultimately show ?thesis using assms(1) by (auto simp: neat_def)
qed

lemma add_free_dom:
  "add_free_from_descriptor s d = Ok s' \<Longrightarrow>
     dom (headers s') \<subseteq> dom (headers s) \<union> fst ` set (region_blocks d) \<or> memory_type d \<noteq> CONVENTIONAL_MEMORY"
  by (auto simp: add_free_from_descriptor_def region_blocks_def mul_u_def saturating_sub_def Let_def res_simps
      header_defs split: if_splits)

lemma neat_boot:
  assumes "mmap_ok ds" "valid_mmap mm ds" "init_with_mmap ALLOCATOR mm = Some (Ok s)"
  shows "neat s (boot_blocks ds)"
proof -
  let ?f = "\<lambda>s e. if memory_type e \<noteq> CONVENTIONAL_MEMORY then Ok s else add_free_from_descriptor s e"
  have inv: "fold_res ?f ALLOCATOR ds = Ok s" "heap_inv s (boot_blocks ds)"
    using init_fold_spec [OF assms(1)] assms(3) by (auto simp: init_with_mmap_def for_mmap_valid [OF assms(2)])
  have "fold_res ?f ALLOCATOR ds = Ok s \<Longrightarrow> dom (headers s) \<subseteq> fst ` set (boot_blocks ds)" for s
  proof (induction ds arbitrary: s rule: rev_induct)
    case Nil
    then show ?case by (auto simp: ALLOCATOR_def)
  next
    case (snoc d ds)
    then obtain s1 where s1: "fold_res ?f ALLOCATOR ds = Ok s1" "?f s1 d = Ok s"
      by (auto simp: fold_res_append res_simps)
    have "boot_blocks (ds @ [d]) = region_blocks d @ boot_blocks ds" by (simp add: boot_blocks_def)
    moreover have "dom (headers s) \<subseteq> dom (headers s1) \<union> fst ` set (region_blocks d)"
      using s1(2) add_free_dom [of s1 d s] by (cases "memory_type d = CONVENTIONAL_MEMORY") auto
    ultimately show ?case using snoc.IH [OF s1(1)] by auto
  qed
  then show ?thesis using inv by (simp add: neat_def)
qed

text \<open>\<open>live_neat s L c\<close>: the live objects are \<open>L\<close>, and some free block has \<open>c\<close> bytes (or \<open>c\<close> is 0).\<close>

definition spare :: "block list \<Rightarrow> nat \<Rightarrow> bool" where
  "spare bs c \<longleftrightarrow> c = 0 \<or> (\<exists>b \<in> set bs. \<not> snd (snd b) \<and> c \<le> fst (snd b))"

definition live_neat :: "heap_state \<Rightarrow> (usize \<times> usize) set \<Rightarrow> nat \<Rightarrow> bool" where
  "live_neat s L c \<longleftrightarrow> (\<exists>bs. neat s bs \<and> allocated bs = block_of ` L \<and> spare bs c) \<and> live_inv s L"

definition alloc_cost :: "usize \<Rightarrow> usize \<Rightarrow> nat" where
  "alloc_cost n align = eff_size n + eff_align align + 64"

lemma spare_fits:
  assumes "spare bs c" "alloc_cost n align \<le> c" "0 < n"
  shows "\<not> list_all (\<lambda>b. \<not> fits n align b) bs"
proof -
  have "c \<noteq> 0" using assms(2) by (simp add: alloc_cost_def)
  then obtain a z where b: "(a, z, False) \<in> set bs" "c \<le> z" using assms(1) by (force simp: spare_def)
  have "fits n align (a, z, False)" using b(2) assms(2,3) by (simp add: fits_def alloc_cost_def)
  then show ?thesis using b(1) by (auto simp: list_all_iff)
qed

lemma split_keeps:
  assumes "fits n align b" "wf_block b" "layout_ok n align"
  shows "\<exists>c \<in> set (split_block n align b). \<not> snd (snd c) \<and> fst (snd b) - alloc_cost n align \<le> fst (snd c)"
proof -
  obtain a z al where b: "b = (a, z, al)" by (cases b) auto
  let ?top = "a + z - eff_size n"
  have "0 < eff_align align" by (simp add: eff_align_def)
  then have "?top mod eff_align align < eff_align align" by simp
  moreover have "eff_size n + 64 + eff_align align \<le> z" using assms(1) by (simp add: b fits_def)
  ultimately have "z - alloc_cost n align \<le> alloc_addr n align b - 32 - a"
    by (simp add: b alloc_addr_def alloc_cost_def Let_def)
  moreover have "(a, alloc_addr n align b - 32 - a, False) \<in> set (split_block n align b)"
    by (simp add: b split_block_def Let_def)
  ultimately show ?thesis by (intro bexI [of _ "(a, alloc_addr n align b - 32 - a, False)"]) (simp_all add: b)
qed

lemma spare_alloc:
  assumes "spare bs c" "list_all wf_block bs" "layout_ok n align"
  shows "spare (snd (spec_alloc n align bs)) (c - alloc_cost n align)"
proof -
  have "\<exists>b' \<in> set (snd (spec_alloc n align bs)). \<not> snd (snd b') \<and> fst (snd b) - alloc_cost n align \<le> fst (snd b')"
    if "b \<in> set bs" "\<not> snd (snd b)" for b
    using assms(2) that
  proof (induction bs)
    case (Cons d bs)
    have next_bs: "snd (spec_alloc n align (d # bs)) =
        (if fits n align d then split_block n align d @ bs else d # snd (spec_alloc n align bs))"
      by (simp split: prod.splits)
    show ?case
    proof (cases "fits n align d")
      case True
      show ?thesis
      proof (cases "b = d")
        case eq: True
        then show ?thesis using Cons.prems split_keeps [OF True _ assms(3)] True
          by (auto simp: next_bs simp del: spec_alloc.simps)
      next
        case False
        then show ?thesis using Cons.prems True
          by (intro bexI [of _ b]) (simp_all add: next_bs del: spec_alloc.simps)
      qed
    next
      case False
      then show ?thesis using Cons by (cases "b = d") (auto simp: next_bs simp del: spec_alloc.simps)
    qed
  qed simp
  note kept = this
  show ?thesis
  proof (cases "c = 0")
    case False
    then obtain b where b: "b \<in> set bs" "\<not> snd (snd b)" "c \<le> fst (snd b)" using assms(1) by (auto simp: spare_def)
    from kept [OF b(1,2)] obtain b' where "b' \<in> set (snd (spec_alloc n align bs))" "\<not> snd (snd b')"
        "fst (snd b) - alloc_cost n align \<le> fst (snd b')" by blast
    then show ?thesis using diff_le_mono [OF b(3), of "alloc_cost n align"] unfolding spare_def
      by (intro disjI2 bexI [of _ b']) simp_all
  qed (simp add: spare_def)
qed

lemma spare_free: "spare bs c \<Longrightarrow> spare (mark_free a bs) c"
  unfolding spare_def mark_free_def by force

section \<open>Live objects and their contents\<close>

lemma payload_uncovered:
  assumes "neat s bs" "(p - 32, eff_size n + 32, True) \<in> set bs" "32 \<le> p" "p \<le> a" "a < p + n"
  shows "\<not> covered s a"
proof
  assume "covered s a"
  then obtain d y where d: "d < 32" "d \<le> a" and y: "headers s (a - d) = Some y"
    by (auto simp: covered_def list_ex_iff HEADER_SIZE_def)
  have "a - d \<in> fst ` set bs" using assms(1) y by (auto simp: neat_def)
  then obtain z al where c: "(a - d, z, al) \<in> set bs" by force
  show False
  proof (cases "(a - d, z, al) = (p - 32, eff_size n + 32, True)")
    case True
    then have "a - d = p - 32" by simp
    then show False using assms(3,4) d by linarith
  next
    case False
    have bs: "sorted_wrt blk_disj bs" "list_all wf_block bs" using assms(1) by (simp_all add: neat_def heap_inv_def)
    have "blk_disj (a - d, z, al) (p - 32, eff_size n + 32, True)"
      by (rule sorted_wrt_sym_mem [OF bs(1) blk_disj_sym c assms(2) False])
    moreover have "wf_block (a - d, z, al)" using bs(2) c unfolding list_all_iff by blast
    ultimately have "a - d + z \<le> p - 32 \<or> p - 32 + (eff_size n + 32) \<le> a - d" "32 \<le> z" by simp_all
    then show False using assms(3-5) d eff_size_ge [of n] by linarith
  qed
qed

lemma live_neatE:
  assumes "live_neat s L c"
  obtains bs where "neat s bs" "heap_inv s bs" "allocated bs = block_of ` L" "spare bs c" "live_inv s L"
    "\<And>p n. (p, n) \<in> L \<Longrightarrow> (p - 32, eff_size n + 32, True) \<in> set bs \<and> 32 \<le> p"
proof -
  obtain bs where bs: "neat s bs" "allocated bs = block_of ` L" "spare bs c" "live_inv s L"
    using assms by (auto simp: live_neat_def)
  have "(p - 32, eff_size n + 32, True) \<in> set bs \<and> 32 \<le> p" if "(p, n) \<in> L" for p n
    using block_of_mem [OF bs(2) that] bs(4) that by (auto simp: block_of_def live_inv_def)
  then show thesis using that [OF bs(1) _ bs(2-4)] bs(1) by (auto simp: neat_def)
qed

lemma live_uncovered: "live_neat s L c \<Longrightarrow> (p, n) \<in> L \<Longrightarrow> p \<le> a \<Longrightarrow> a < p + n \<Longrightarrow> \<not> covered s a"
  using payload_uncovered by (elim live_neatE) blast

lemma live_neat_alloc:
  assumes L: "live_neat s L c" and lay: "layout_ok n align" and n: "0 < n" "alloc_cost n align \<le> c"
  shows "\<exists>p s'. alloc_with_options s n align = Some (Ok (p, s')) \<and> p \<noteq> 0 \<and> align dvd p \<and> p \<notin> fst ` L \<and>
    live_neat s' (insert (p, n) L) (c - alloc_cost n align)"
proof -
  obtain bs where bs: "neat s bs" "heap_inv s bs" "allocated bs = block_of ` L" "spare bs c" "live_inv s L"
    using live_neatE [OF L] by metis
  have wf: "list_all wf_block bs" using bs(2) by (simp add: heap_inv_def)
  obtain p bs' where q: "spec_alloc n align bs = (p, bs')" by fastforce
  obtain s' where s': "alloc_with_options s n align = Some (Ok (p, s'))"
    using alloc_with_options_spec [OF bs(2) lay] q by auto
  note R = spec_alloc_result [OF wf lay q]
  have p: "p \<noteq> 0" using R spare_fits [OF bs(4) n(2,1)] by blast
  have "allocated bs' = block_of ` insert (p, n) L" using R p bs(3) by (simp add: block_of_def)
  moreover have "neat s' bs'" using neat_alloc [OF bs(1) lay s'] q by simp
  moreover have "spare bs' (c - alloc_cost n align)" using spare_alloc [OF bs(4) wf lay] q by simp
  ultimately have "live_neat s' (insert (p, n) L) (c - alloc_cost n align)"
    using heap.alloc_live [OF bs(5) lay s' p] by (auto simp: live_neat_def)
  then show ?thesis using s' p heap.alloc_live [OF bs(5) lay s' p] by blast
qed

lemma live_neat_free:
  assumes L: "live_neat s L c" and p: "(p, n) \<in> L"
  shows "\<exists>s'. dealloc s p = Ok s' \<and> live_neat s' (L - {(p, n)}) c"
proof -
  obtain bs where bs: "neat s bs" "heap_inv s bs" "allocated bs = block_of ` L" "spare bs c" "live_inv s L"
      "(p - 32, eff_size n + 32, True) \<in> set bs" "32 \<le> p"
    using live_neatE [OF L] p by metis
  obtain s' where s': "dealloc s p = Ok s'" "neat s' (mark_free (p - 32) bs)"
    using neat_dealloc [OF bs(1,6,7)] by blast
  have l': "live_inv s' (L - {(p, n)})" using heap.free_live [OF bs(5) p] s'(1) by auto
  have "allocated (mark_free (p - 32) bs) = block_of ` L - {block_of (p, n)}"
    using allocated_mark_free [OF _ _ bs(6)] bs(2,3) by (simp add: heap_inv_def block_of_def)
  moreover have "block_of ` L - {block_of (p, n)} = block_of ` (L - {(p, n)})"
  proof -
    have "(q, k) = (p, n)" if q: "(q, k) \<in> L" "block_of (q, k) = block_of (p, n)" for q k
    proof (rule ccontr)
      assume ne: "(q, k) \<noteq> (p, n)"
      have "32 \<le> q" using bs(5) q(1) by (auto simp: live_inv_def)
      moreover have "q - 32 = p - 32" using q(2) by (simp add: block_of_def)
      ultimately have "q = p" using bs(7) by linarith
      moreover have "inj_on fst L" using bs(5) by (auto simp: live_inv_def)
      ultimately show False using ne inj_onD [of fst L "(q, k)" "(p, n)"] q(1) p by simp
    qed
    then show ?thesis by auto
  qed
  ultimately show ?thesis using s' l' spare_free [OF bs(4)] by (auto simp: live_neat_def)
qed

lemma live_neat_write:
  assumes L: "live_neat s L c" and p: "(p, n) \<in> L" and a: "p \<le> a" "a + k \<le> p + n"
  shows "live_neat (write_bytes s a k) L c"
proof -
  obtain bs where bs: "neat s bs" "heap_inv s bs" "allocated bs = block_of ` L" "spare bs c" "live_inv s L"
      "(p - 32, eff_size n + 32, True) \<in> set bs" "32 \<le> p"
    using live_neatE [OF L] p by metis
  have "neat (write_bytes s a k) bs"
    by (rule neat_write [OF bs(1,6)]) (use bs(7) a eff_size_ge [of n] in linarith)+
  moreover have "live_inv (write_bytes s a k) L"
    by (rule heap.write_live [OF bs(5) p]) (use a in simp_all)
  ultimately show ?thesis using bs(3,4) by (auto simp: live_neat_def)
qed

text \<open>The heaps that the kernel reaches.\<close>

lemma kernel_heap_neat: "kernel_heap s L \<Longrightarrow> live_neat s L 0"
proof (induction rule: kernel_heap.induct)
  case (boot mm ds s)
  have "allocated (boot_blocks ds) = {}"
    by (auto simp: allocated_def boot_blocks_def region_blocks_def Let_def split: if_splits)
  then show ?case
    using neat_boot [OF boot(2,1,3)] kernel_heap_live_inv [OF kernel_heap.boot [OF boot]]
    by (auto simp: live_neat_def spare_def)
next
  case (alloc s L n align p s')
  obtain bs where bs: "neat s bs" "heap_inv s bs" "allocated bs = block_of ` L" "live_inv s L"
    using live_neatE [OF alloc.IH] by metis
  obtain q bs' where q: "spec_alloc n align bs = (q, bs')" by fastforce
  have wf: "list_all wf_block bs" using bs(2) by (simp add: heap_inv_def)
  have "neat s' bs'" "q = p" using neat_alloc [OF bs(1) alloc.hyps(2,3)] q by simp_all
  moreover have "allocated bs' = block_of ` insert (p, n) L"
    using spec_alloc_result [OF wf alloc.hyps(2) q] bs(3) alloc.hyps(4) \<open>q = p\<close> by (simp add: block_of_def)
  ultimately show ?case using live_alloc(1) [OF bs(4) alloc.hyps(2-4)] by (auto simp: live_neat_def spare_def)
next
  case (free s L p n s')
  then show ?case using live_neat_free by fastforce
next
  case (payload s L p n q k)
  then show ?case by (intro live_neat_write)
qed

lemma live_neat_keeps:
  assumes "kernel_heap s L" "layout_ok n align" "alloc_with_options s n align = Some (Ok (p, s'))"
  shows "\<exists>L'. live_neat s' L' 0 \<and> L \<subseteq> L'"
proof (cases "p = 0")
  case True
  obtain bs where bs: "neat s bs" "heap_inv s bs" "allocated bs = block_of ` L" "live_inv s L"
    using live_neatE [OF kernel_heap_neat [OF assms(1)]] by metis
  have "list_all wf_block bs" using bs(2) by (simp add: heap_inv_def)
  from spec_alloc_result [OF this assms(2), of p "snd (spec_alloc n align bs)"] True
  have "snd (spec_alloc n align bs) = bs" using neat_alloc [OF bs(1) assms(2,3)] by (cases "spec_alloc n align bs") auto
  then have "neat s' bs" using neat_alloc [OF bs(1) assms(2,3)] by simp
  moreover have "live_inv s' L" using heap.alloc_returns [OF bs(4) assms(2)] assms(3) True by auto
  ultimately show ?thesis using bs(3) by (intro exI [of _ L]) (auto simp: live_neat_def spare_def)
next
  case False
  then show ?thesis using kernel_heap_neat [OF kernel_heap.alloc [OF assms False]] by blast
qed

lemma kernel_heap_spare:
  assumes "kernel_heap s L" "heap_inv s bs" "spare bs c"
  shows "live_neat s L c"
proof -
  obtain cs where cs: "neat s cs" "heap_inv s cs" "allocated cs = block_of ` L" "live_inv s L"
    using live_neatE [OF kernel_heap_neat [OF assms(1)]] by metis
  then have "cs = bs" using assms(2) heap_inv_unique by blast
  then show ?thesis using cs assms(3) by (auto simp: live_neat_def)
qed

text \<open>
  The contract of a heap whose contents matter: \<open>owns w L c\<close> says that \<open>L\<close> are the live objects and that
  allocations of total cost \<open>c\<close> will succeed.
\<close>

locale byte_memory =
  fixes balloc :: "'w \<Rightarrow> usize \<Rightarrow> usize \<Rightarrow> (usize \<times> 'w) res option"
    and bfree :: "'w \<Rightarrow> usize \<Rightarrow> 'w res"
    and store :: "'w \<Rightarrow> usize \<Rightarrow> u8 \<Rightarrow> 'w"
    and load :: "'w \<Rightarrow> usize \<Rightarrow> u8"
    and owns :: "'w \<Rightarrow> (usize \<times> usize) set \<Rightarrow> nat \<Rightarrow> bool"
  assumes alloc_owns: "owns w L c \<Longrightarrow> layout_ok n align \<Longrightarrow> 0 < n \<Longrightarrow> alloc_cost n align \<le> c \<Longrightarrow>
      \<exists>p w'. balloc w n align = Some (Ok (p, w')) \<and> p \<noteq> 0 \<and> align dvd p \<and> p \<notin> fst ` L \<and>
        owns w' (insert (p, n) L) (c - alloc_cost n align) \<and>
        (\<forall>(q, k) \<in> L. \<forall>a. q \<le> a \<and> a < q + k \<longrightarrow> load w' a = load w a)"
    and free_owns: "owns w L c \<Longrightarrow> (p, n) \<in> L \<Longrightarrow>
      \<exists>w'. bfree w p = Ok w' \<and> owns w' (L - {(p, n)}) c \<and>
        (\<forall>(q, k) \<in> L - {(p, n)}. \<forall>a. q \<le> a \<and> a < q + k \<longrightarrow> load w' a = load w a)"
    and store_owns: "owns w L c \<Longrightarrow> (p, n) \<in> L \<Longrightarrow> p \<le> a \<Longrightarrow> a < p + n \<Longrightarrow>
      owns (store w a v) L c \<and> load (store w a v) = (load w)(a := v)"
    and owns_apart: "owns w L c \<Longrightarrow> (p, n) \<in> L \<Longrightarrow> (q, k) \<in> L \<Longrightarrow> (p, n) \<noteq> (q, k) \<Longrightarrow>
      p + n \<le> q \<or> q + k \<le> p"

interpretation bytes: byte_memory "bh_alloc enc" "bh_dealloc enc" bh_store bh_bytes "\<lambda>w. live_neat (bh_heap w)" for enc
proof
  fix w :: byte_heap and L c n align p q k a and v :: u8
  show "\<exists>p w'. bh_alloc enc w n align = Some (Ok (p, w')) \<and> p \<noteq> 0 \<and> align dvd p \<and> p \<notin> fst ` L \<and>
      live_neat (bh_heap w') (insert (p, n) L) (c - alloc_cost n align) \<and>
      (\<forall>(q, k) \<in> L. \<forall>a. q \<le> a \<and> a < q + k \<longrightarrow> bh_bytes w' a = bh_bytes w a)"
    if L: "live_neat (bh_heap w) L c" and req: "layout_ok n align" "0 < n" "alloc_cost n align \<le> c"
  proof -
    obtain p s where s: "alloc_with_options (bh_heap w) n align = Some (Ok (p, s))" "p \<noteq> 0" "align dvd p"
        "p \<notin> fst ` L" "live_neat s (insert (p, n) L) (c - alloc_cost n align)"
      using live_neat_alloc [OF L req] by blast
    then show ?thesis using live_uncovered [OF s(5)]
      by (intro exI [of _ p] exI [of _ "\<lparr>bh_heap = s, bh_bytes = settle enc s (bh_bytes w)\<rparr>"])
        (auto simp: bh_alloc_def settle_def)
  qed
  show "\<exists>w'. bh_dealloc enc w p = Ok w' \<and> live_neat (bh_heap w') (L - {(p, n)}) c \<and>
      (\<forall>(q, k) \<in> L - {(p, n)}. \<forall>a. q \<le> a \<and> a < q + k \<longrightarrow> bh_bytes w' a = bh_bytes w a)"
    if L: "live_neat (bh_heap w) L c" and p: "(p, n) \<in> L"
  proof -
    obtain s where s: "dealloc (bh_heap w) p = Ok s" "live_neat s (L - {(p, n)}) c"
      using live_neat_free [OF L p] by blast
    then show ?thesis using live_uncovered [OF s(2)]
      by (intro exI [of _ "\<lparr>bh_heap = s, bh_bytes = settle enc s (bh_bytes w)\<rparr>"])
        (auto simp: bh_dealloc_def settle_def)
  qed
  show "live_neat (bh_heap w) L c \<Longrightarrow> (p, n) \<in> L \<Longrightarrow> p \<le> a \<Longrightarrow> a < p + n \<Longrightarrow>
      live_neat (bh_heap (bh_store w a v)) L c \<and> bh_bytes (bh_store w a v) = (bh_bytes w)(a := v)"
    using live_neat_write [of "bh_heap w" L c p n a 1] by (simp add: bh_store_def)
  show "live_neat (bh_heap w) L c \<Longrightarrow> (p, n) \<in> L \<Longrightarrow> (q, k) \<in> L \<Longrightarrow> (p, n) \<noteq> (q, k) \<Longrightarrow>
      p + n \<le> q \<or> q + k \<le> p"
    unfolding live_neat_def by (elim conjE) (rule heap.live_apart)
qed

end
