(* ===== verification/Unit_Tests.thy ===== *)
theory Unit_Tests
  imports Heap_Bytes Formatting Boot
begin

text \<open>
  The kernel's own tests: the unit tests of \<^verbatim>\<open>allocator.rs\<close> and \<^verbatim>\<open>bits.rs\<close> on the heap with its contents, and
  the runner of \<^verbatim>\<open>test_runner.rs\<close> that reports over the serial port and leaves the emulator. A layout is a
  size and an alignment. \<open>cap\<close> is the growth policy of \<^verbatim>\<open>Vec\<close>.
\<close>

section \<open>Tests of the allocator\<close>

text \<open>Writing the \<open>n\<close> bytes of an object through its pointer, which may be null.\<close>

definition fill :: "byte_heap \<Rightarrow> usize \<Rightarrow> nat \<Rightarrow> (nat \<Rightarrow> u8) \<Rightarrow> byte_heap res" where
  "fill w p n f = fold_res (\<lambda>w k. if p = 0 then UB else Ok (bh_store w (p + k) (f k))) w [0 ..< n]"

definition check_object :: "byte_heap \<Rightarrow> usize \<Rightarrow> nat \<Rightarrow> u8 \<Rightarrow> unit res" where
  "check_object w p n v =
     fold_res (\<lambda>_ k. if p = 0 then UB else assert_that (bh_bytes w (p + k) = v) ''assertion failed'') () [0 ..< n]"

type_synonym layout = "usize \<times> usize"

definition fill_step where
  "fill_step enc ls st i =
     (case st of (ps, w) \<Rightarrow>
      and_then_opt (bh_alloc enc w (fst (ls ! i)) (snd (ls ! i))) (\<lambda>(p, w1).
      Some (and_then (fill w1 p (fst (ls ! i)) (\<lambda>_. word_of_nat i)) (\<lambda>w2. Ok (ps[i := p], w2)))))"

definition check_all :: "layout list \<Rightarrow> usize list \<Rightarrow> byte_heap \<Rightarrow> nat list \<Rightarrow> unit res" where
  "check_all ls ps w is = fold_res (\<lambda>_ i. check_object w (ps ! i) (fst (ls ! i)) (word_of_nat i)) () is"

definition free_step where
  "free_step enc ps w i = bh_dealloc enc w (ps ! i)"

text \<open>\<^verbatim>\<open>vec![null_mut(); n]\<close> and its end.\<close>

definition vec_of_nulls where
  "vec_of_nulls enc n w =
     (if n = 0 then Some (Ok (None, w)) else
      and_then_opt (bh_alloc enc w (8 * n) 8) (\<lambda>(p, w1).
      Some (if p = 0 then Panic ''memory allocation failed'' else
        and_then (fill w1 p (8 * n) (\<lambda>_. 0)) (\<lambda>w2. Ok (Some p, w2)))))"

definition vec_drop where
  "vec_drop enc v w = (case v of None \<Rightarrow> Ok w | Some p \<Rightarrow> bh_dealloc enc w p)"

definition overlap_test where
  "overlap_test enc ls w =
     (let all = [0 ..< length ls] in
      and_then_opt (vec_of_nulls enc (length ls) w) (\<lambda>(v, w0).
      and_then_opt (fold_opt (fill_step enc ls) (replicate (length ls) 0, w0) all) (\<lambda>(ps1, w1).
      and_then_opt (Some (check_all ls ps1 w1 all)) (\<lambda>_.
      and_then_opt (Some (fold_res (free_step enc ps1) w1 (filter even all))) (\<lambda>w2.
      and_then_opt (Some (check_all ls ps1 w2 (filter odd all))) (\<lambda>_.
      and_then_opt (fold_opt (fill_step enc ls) (ps1, w2) (filter even all)) (\<lambda>(ps3, w3).
      and_then_opt (Some (check_all ls ps3 w3 all)) (\<lambda>_.
      Some (vec_drop enc v w3)))))))))"

definition overlap_layouts :: "layout list" where
  "overlap_layouts =
     [(128, 128), (32, 32), (8, 8), (16, 16), (6000, 64), (4, 4), (2, 2), (600000, 64), (64, 64), (1, 1)] @
     replicate 6 (6000, 64) @ replicate 10 (3, 64) @
     [(6000, 64), (6000, 64), (600000, 64), (6000, 64), (60000, 64), (60000, 64), (60000, 64), (60000, 64)]"

definition allocated_objects_have_no_overlap where
  "allocated_objects_have_no_overlap enc w = overlap_test enc overlap_layouts w"

definition align_step where
  "align_step enc align w (k :: nat) =
     and_then_opt (bh_alloc enc w 1234 align) (\<lambda>(p, w').
     Some (and_then (assert_that (p \<noteq> 0) ''assertion failed'') (\<lambda>_.
     and_then (assert_that (p mod align = 0) ''assertion failed'') (\<lambda>_. Ok w'))))"

definition align_test where
  "align_test enc w aligns = fold_opt (\<lambda>w align. fold_opt (align_step enc align) w [0 ..< 100]) w aligns"

definition malloc_align where
  "malloc_align enc w = align_test enc w [1, 2, 4, 8, 16, 32, 4096]"

definition malloc_align_random_order where
  "malloc_align_random_order enc w = align_test enc w [32, 4096, 8, 4, 16, 2, 1]"

text \<open>One turn of \<^verbatim>\<open>malloc_iterate_free_and_alloc\<close>: a vector of \<open>i\<close> numbers 10 is made and dropped.\<close>

definition iterate_step where
  "iterate_step enc (cap :: nat \<Rightarrow> nat) w i =
     (if i = 0 then Some (Ok w) else
      and_then_opt (bh_alloc enc w (4 * cap i) 4) (\<lambda>(p, w1).
      if p = 0 then Some (Panic ''memory allocation failed'') else
      Some (and_then (fill w1 p (4 * i) (\<lambda>k. if k mod 4 = 0 then 10 else 0)) (\<lambda>w2. bh_dealloc enc w2 p))))"

definition malloc_iterate_free_and_alloc where
  "malloc_iterate_free_and_alloc enc cap w = fold_opt (iterate_step enc cap) w [0 ..< 1000]"

section \<open>Tests of pure functions\<close>

definition assert_all :: "bool list \<Rightarrow> unit res" where
  "assert_all bs = fold_res (\<lambda>_ b. assert_that b ''assertion failed'') () bs"

definition round_up_to_nearest_pow2_tests :: "unit res" where
  "round_up_to_nearest_pow2_tests =
     assert_all (map (\<lambda>(v, r). round_up_to_nearest_pow2 v = r)
       [(0, Err ''Out of range''), (1, Ok 1), (2, Ok 2), (3, Ok 4), (4, Ok 4), (5, Ok 8), (6, Ok 8), (7, Ok 8),
        (8, Ok 8), (9, Ok 16), (9, Ok 16)])"

definition extract_bits_tests :: "unit res" where
  "extract_bits_tests =
     assert_all ((extract_bits (push_bit 24 (30 :: u32)) 24 8 = 30) #
       map (\<lambda>(v, shift, width, r). extract_bits (v :: u64) shift width = r)
       [(0x123, 0, 12, 0x123), (0x123, 4, 12, 0x12), (0x123, 4, 8, 0x12), (0x123, 4, 4, 0x2), (0x123, 4, 0, 0),
        (0x1234567812345678, 60, 4, 1), (0x1234567812345678, 64, 0, 0),
        (0x1234567812345678, 0, 64, 0x1234567812345678), (0x1234567812345678, 0, 65, 0x1234567812345678)])"

section \<open>The runner\<close>

text \<open>
  A test is its type name and its body. \<open>panic_text\<close> is the text of \<^verbatim>\<open>PanicInfo\<close> for a message. The result is
  the exit code and the state of the machine, which halts.
\<close>

type_synonym 'w test = "string \<times> ('w \<Rightarrow> 'w res option)"

definition running_line :: "string \<Rightarrow> nat list" where
  "running_line name = code_points (''[RUNNING] >>> '' @ name @ newline)"

definition pass_line :: "string \<Rightarrow> nat list" where
  "pass_line name = code_points (''[PASS   ] <<< '' @ name @ newline)"

definition start_line :: "nat \<Rightarrow> nat list" where
  "start_line n = code_points (''Running '' @ dec n @ '' tests...'' @ newline)"

definition end_line :: "nat \<Rightarrow> nat list" where
  "end_line n = code_points (''Completed '' @ dec n @ '' tests!'' @ newline)"

definition panic_line :: "string \<Rightarrow> nat list" where
  "panic_line text = code_points (''PANIC during test: '' @ text @ newline)"

definition leave :: "'d io_ports \<Rightarrow> QemuExitCode \<Rightarrow> 'd \<Rightarrow> (QemuExitCode \<times> 'd) res option" where
  "leave io code d = Some (Ok (code, exit_qemu io code d))"

definition panic :: "'d io_ports \<Rightarrow> (string \<Rightarrow> string) \<Rightarrow> string \<Rightarrow> 'd \<Rightarrow> (QemuExitCode \<times> 'd) res option" where
  "panic io panic_text msg d =
     and_then_opt (SerialPort_write_str io d (panic_line (panic_text msg))) (\<lambda>d'.
     leave io QemuFail d')"

text \<open>\<^verbatim>\<open>Testable::run\<close>: the outcome of the test is kept next to the state of the port.\<close>

definition run_test :: "'d io_ports \<Rightarrow> 'w test \<Rightarrow> 'w \<times> 'd \<Rightarrow> ('w res \<times> 'd) res option" where
  "run_test io test st =
     (case st of (w, d) \<Rightarrow>
      and_then_opt (SerialPort_write_str io d (running_line (fst test))) (\<lambda>d1.
      case snd test w of
        None \<Rightarrow> None
      | Some (Ok w') \<Rightarrow> and_then_opt (SerialPort_write_str io d1 (pass_line (fst test))) (\<lambda>d2. Some (Ok (Ok w', d2)))
      | Some r \<Rightarrow> Some (Ok (r, d1))))"

fun run_tests :: "'d io_ports \<Rightarrow> 'w test list \<Rightarrow> 'w \<times> 'd \<Rightarrow> ('w res \<times> 'd) res option" where
  "run_tests io [] st = Some (Ok (Ok (fst st), snd st))"
| "run_tests io (t # ts) st =
     and_then_opt (run_test io t st) (\<lambda>(r, d).
     case r of Ok w \<Rightarrow> run_tests io ts (w, d) | _ \<Rightarrow> Some (Ok (r, d)))"

definition test_runner :: "'d io_ports \<Rightarrow> (string \<Rightarrow> string) \<Rightarrow> 'w test list \<Rightarrow> 'w \<Rightarrow> 'd \<Rightarrow>
    (QemuExitCode \<times> 'd) res option" where
  "test_runner io panic_text tests w d =
     and_then_opt (SerialPort_write_str io d (start_line (length tests))) (\<lambda>d1.
     and_then_opt (run_tests io tests (w, d1)) (\<lambda>(r, d2).
     case r of
       Ok _ \<Rightarrow>
         and_then_opt (SerialPort_write_str io d2 (end_line (length tests))) (\<lambda>d3.
         leave io QemuSuccess d3)
     | Panic msg \<Rightarrow> panic io panic_text msg d2
     | _ \<Rightarrow> Some UB))"

text \<open>The tests of \<^verbatim>\<open>allocator.rs\<close> and \<^verbatim>\<open>bits.rs\<close> by name.\<close>

definition pure_test :: "unit res \<Rightarrow> 'w \<Rightarrow> 'w res option" where
  "pure_test r w = Some (and_then r (\<lambda>_. Ok w))"

definition unit_tests :: "(heap_state \<Rightarrow> usize \<Rightarrow> u8) \<Rightarrow> (nat \<Rightarrow> nat) \<Rightarrow> byte_heap test list" where
  "unit_tests enc cap =
     [(''wasabi::allocator::round_up_to_nearest_pow2_tests'', pure_test round_up_to_nearest_pow2_tests),
      (''wasabi::allocator::test::malloc_iterate_free_and_alloc'', malloc_iterate_free_and_alloc enc cap),
      (''wasabi::allocator::test::malloc_align'', malloc_align enc),
      (''wasabi::allocator::test::malloc_align_random_order'', malloc_align_random_order enc),
      (''wasabi::allocator::test::allocated_objects_have_no_overlap'', allocated_objects_have_no_overlap enc),
      (''wasabi::bits::extract_bits_tests'', pure_test extract_bits_tests)]"

text \<open>\<^verbatim>\<open>efi_main\<close> of the test build; \<open>bytes\<close> is what the memory holds at first.\<close>

definition test_efi_main where
  "test_efi_main io panic_text enc cap bytes image_handle bs fw d =
     and_then_opt (init_basic_runtime image_handle bs fw) (\<lambda>(_, s, _).
     test_runner io panic_text (unit_tests enc cap) \<lparr>bh_heap = s, bh_bytes = bytes\<rparr> d)"

section \<open>Lemmas: users of the heap\<close>

text \<open>The objects of the layouts in \<open>A\<close>, and that each of them holds its number in every byte.\<close>

definition objects :: "layout list \<Rightarrow> usize list \<Rightarrow> nat set \<Rightarrow> (usize \<times> usize) set" where
  "objects ls ps A = (\<lambda>i. (ps ! i, fst (ls ! i))) ` A"

definition numbered :: "(usize \<Rightarrow> u8) \<Rightarrow> layout list \<Rightarrow> usize list \<Rightarrow> nat set \<Rightarrow> bool" where
  "numbered bytes ls ps A \<longleftrightarrow> (\<forall>i \<in> A. ps ! i \<noteq> 0 \<and> (\<forall>k < fst (ls ! i). bytes (ps ! i + k) = word_of_nat i))"

definition layouts_ok :: "layout list \<Rightarrow> bool" where
  "layouts_ok ls \<longleftrightarrow> list_all (\<lambda>(n, align). layout_ok n align \<and> 0 < n) ls"

definition costs :: "layout list \<Rightarrow> nat list \<Rightarrow> nat" where
  "costs ls is = sum_list (map (\<lambda>i. alloc_cost (fst (ls ! i)) (snd (ls ! i))) is)"

context byte_memory begin

lemma stores_own:
  assumes "owns w L c" "(p, n) \<in> L" "p \<noteq> 0" "m \<le> n"
  shows "\<exists>w'. fold_res (\<lambda>w k. if p = 0 then UB else Ok (store w (p + k) (f k))) w [0 ..< m] = Ok w' \<and> owns w' L c \<and>
    (\<forall>a. load w' a = (if p \<le> a \<and> a < p + m then f (a - p) else load w a))"
  using assms(4)
proof (induction m)
  case 0
  then show ?case using assms(1) by auto
next
  case (Suc m)
  then obtain w' where w': "fold_res (\<lambda>w k. if p = 0 then UB else Ok (store w (p + k) (f k))) w [0 ..< m] = Ok w'"
      "owns w' L c" "\<forall>a. load w' a = (if p \<le> a \<and> a < p + m then f (a - p) else load w a)" by auto
  have "p + m < p + n" using Suc.prems by simp
  note st = store_owns [OF w'(2) assms(2) _ this, of "f m"]
  have "load (store w' (p + m) (f m)) a = (if p \<le> a \<and> a < p + Suc m then f (a - p) else load w a)" for a
    using st w'(3) by auto
  then show ?case using w'(1) st assms(3) by (auto simp: fold_res_append)
qed

definition step where
  "step ls st i =
     (case st of (ps, w) \<Rightarrow>
      and_then_opt (balloc w (fst (ls ! i)) (snd (ls ! i))) (\<lambda>(p, w1).
      Some (and_then (fold_res (\<lambda>w k. if p = 0 then UB else Ok (store w (p + k) (word_of_nat i))) w1 [0 ..< fst (ls ! i)])
        (\<lambda>w2. Ok (ps[i := p], w2)))))"

definition holding :: "(usize \<times> usize) set \<Rightarrow> layout list \<Rightarrow> usize list \<Rightarrow> nat set \<Rightarrow> nat \<Rightarrow> 'w \<Rightarrow> bool" where
  "holding L ls ps A c w \<longleftrightarrow> owns w (L \<union> objects ls ps A) c \<and> L \<inter> objects ls ps A = {} \<and>
     inj_on (\<lambda>i. ps ! i) A \<and> numbered (load w) ls ps A \<and> A \<subseteq> {..< length ls} \<and> length ps = length ls"

lemma step_holding:
  assumes H: "holding L ls ps A c w" and i: "i < length ls" "i \<notin> A" and ls: "layouts_ok ls"
    and c: "alloc_cost (fst (ls ! i)) (snd (ls ! i)) \<le> c"
  shows "\<exists>p w'. step ls (ps, w) i = Some (Ok (ps[i := p], w')) \<and>
    holding L ls (ps[i := p]) (insert i A) (c - alloc_cost (fst (ls ! i)) (snd (ls ! i))) w'"
proof -
  let ?n = "fst (ls ! i)" and ?al = "snd (ls ! i)" and ?L = "L \<union> objects ls ps A"
  have lay: "layout_ok ?n ?al" "0 < ?n" using ls i(1) by (auto simp: layouts_ok_def list_all_length case_prod_unfold)
  have h: "owns w ?L c" "L \<inter> objects ls ps A = {}" "inj_on (\<lambda>i. ps ! i) A" "numbered (load w) ls ps A"
      "A \<subseteq> {..< length ls}" "length ps = length ls"
    using H by (simp_all add: holding_def)
  obtain p w1 where p: "balloc w ?n ?al = Some (Ok (p, w1))" "p \<noteq> 0" "p \<notin> fst ` ?L"
      "owns w1 (insert (p, ?n) ?L) (c - alloc_cost ?n ?al)"
      "\<And>q k a. (q, k) \<in> ?L \<Longrightarrow> q \<le> a \<Longrightarrow> a < q + k \<Longrightarrow> load w1 a = load w a"
    using alloc_owns [OF h(1) lay c] by blast
  obtain w2 where w2: "fold_res (\<lambda>w k. if p = 0 then UB else Ok (store w (p + k) (word_of_nat i))) w1 [0 ..< ?n] = Ok w2"
      "owns w2 (insert (p, ?n) ?L) (c - alloc_cost ?n ?al)"
      "\<forall>a. load w2 a = (if p \<le> a \<and> a < p + ?n then word_of_nat i else load w1 a)"
    using stores_own [OF p(4) insertI1 p(2) order_refl, of "\<lambda>_. word_of_nat i"] by blast
  let ?ps = "ps[i := p]"
  have other: "?ps ! j = ps ! j" if "j \<in> A" for j using that i(2) by (cases "j = i") auto
  have new: "?ps ! i = p" using i(1) h(6) by simp
  have obj: "objects ls ?ps (insert i A) = insert (p, ?n) (objects ls ps A)"
    using other new by (auto simp: objects_def)
  have "numbered (load w2) ls ?ps (insert i A)"
    unfolding numbered_def
  proof (intro ballI conjI allI impI)
    fix j assume j: "j \<in> insert i A"
    show "?ps ! j \<noteq> 0" using j new other p(2) h(4) by (auto simp: numbered_def)
    fix k assume k: "k < fst (ls ! j)"
    show "load w2 (?ps ! j + k) = word_of_nat j"
    proof (cases "j = i")
      case True
      then show ?thesis using w2(3) new k by simp
    next
      case False
      then have jA: "j \<in> A" using j by simp
      have m: "(ps ! j, fst (ls ! j)) \<in> ?L" using jA by (auto simp: objects_def)
      then have "(ps ! j, fst (ls ! j)) \<noteq> (p, ?n)" using p(3) by (metis fst_conv image_eqI)
      then have "ps ! j + fst (ls ! j) \<le> p \<or> p + ?n \<le> ps ! j"
        using owns_apart [OF w2(2), of "ps ! j" "fst (ls ! j)" p ?n] m by blast
      then have "load w2 (ps ! j + k) = load w1 (ps ! j + k)" using w2(3) k by auto
      also have "\<dots> = load w (ps ! j + k)" by (rule p(5) [OF m]) (use k in simp_all)
      also have "\<dots> = word_of_nat j" using h(4) jA k by (simp add: numbered_def)
      finally show ?thesis by (simp add: other [OF jA])
    qed
  qed
  moreover have "inj_on (\<lambda>i. ?ps ! i) (insert i A)"
  proof -
    have "ps ! j \<noteq> p" if "j \<in> A" for j
    proof -
      have "(ps ! j, fst (ls ! j)) \<in> ?L" using that by (auto simp: objects_def)
      then show ?thesis using p(3) by (metis fst_conv image_eqI)
    qed
    then show ?thesis using h(3) other new unfolding inj_on_def by (metis insertE)
  qed
  moreover have "L \<inter> objects ls ?ps (insert i A) = {}" using h(2) p(3) unfolding obj by force
  ultimately have "holding L ls ?ps (insert i A) (c - alloc_cost ?n ?al) w2"
    using w2(2) i(1) h(5,6) obj by (simp add: holding_def Un_commute insert_commute)
  then show ?thesis using p(1) w2(1) by (intro exI [of _ p] exI [of _ w2]) (simp add: step_def)
qed

lemma steps_holding:
  assumes "holding L ls ps A c w" "distinct is" "\<forall>i \<in> set is. i < length ls \<and> i \<notin> A" "layouts_ok ls" "costs ls is \<le> c"
  shows "\<exists>ps' w'. fold_opt (step ls) (ps, w) is = Some (Ok (ps', w')) \<and> holding L ls ps' (A \<union> set is) (c - costs ls is) w'"
  using assms(1-3,5)
proof (induction "is" arbitrary: ps A c w)
  case (Cons i "is")
  have "alloc_cost (fst (ls ! i)) (snd (ls ! i)) \<le> c" using Cons.prems(4) by (simp add: costs_def)
  then obtain p w1 where p: "step ls (ps, w) i = Some (Ok (ps[i := p], w1))"
      "holding L ls (ps[i := p]) (insert i A) (c - alloc_cost (fst (ls ! i)) (snd (ls ! i))) w1"
    using step_holding [OF Cons.prems(1) _ _ assms(4), of i] Cons.prems(3) by auto
  then show ?case using Cons.IH [OF p(2)] Cons.prems(2-4) by (fastforce simp: costs_def)
qed (simp add: costs_def)

lemma free_holding:
  assumes H: "holding L ls ps A c w" and i: "i \<in> A"
  shows "\<exists>w'. bfree w (ps ! i) = Ok w' \<and> holding L ls ps (A - {i}) c w'"
proof -
  let ?ob = "(ps ! i, fst (ls ! i))" and ?L = "L \<union> objects ls ps A"
  have h: "owns w ?L c" "L \<inter> objects ls ps A = {}" "inj_on (\<lambda>i. ps ! i) A" "numbered (load w) ls ps A"
    using H by (simp_all add: holding_def)
  have m: "?ob \<in> ?L" using i by (auto simp: objects_def)
  obtain w' where w': "bfree w (ps ! i) = Ok w'" "owns w' (?L - {?ob}) c"
      "\<And>q k a. (q, k) \<in> ?L - {?ob} \<Longrightarrow> q \<le> a \<Longrightarrow> a < q + k \<Longrightarrow> load w' a = load w a"
    using free_owns [OF h(1) m] by blast
  have "objects ls ps (A - {i}) = objects ls ps A - {?ob}"
    using h(3) i by (auto simp: objects_def inj_on_def)
  moreover have "L - {?ob} = L" using h(2) i by (auto simp: objects_def)
  ultimately have L': "?L - {?ob} = L \<union> objects ls ps (A - {i})" "L \<inter> objects ls ps (A - {i}) = {}"
    using h(2) by auto
  have "numbered (load w') ls ps (A - {i})"
    unfolding numbered_def
  proof (intro ballI conjI allI impI)
    fix j k assume j: "j \<in> A - {i}"
    show "ps ! j \<noteq> 0" using j h(4) by (simp add: numbered_def)
    assume k: "k < fst (ls ! j)"
    have "(ps ! j, fst (ls ! j)) \<in> ?L - {?ob}" using j unfolding L'(1) by (auto simp: objects_def)
    then have "load w' (ps ! j + k) = load w (ps ! j + k)" by (rule w'(3)) (use k in simp_all)
    then show "load w' (ps ! j + k) = word_of_nat j" using h(4) j k by (simp add: numbered_def)
  qed
  then have "holding L ls ps (A - {i}) c w'"
    using w'(2) H L' inj_on_subset [OF h(3), of "A - {i}"] by (auto simp: holding_def)
  then show ?thesis using w'(1) by blast
qed

lemma frees_holding:
  "holding L ls ps A c w \<Longrightarrow> distinct is \<Longrightarrow> \<forall>i \<in> set is. i \<in> A \<Longrightarrow>
     \<exists>w'. fold_res (\<lambda>w i. bfree w (ps ! i)) w is = Ok w' \<and> holding L ls ps (A - set is) c w'"
proof (induction "is" arbitrary: A w)
  case (Cons i "is")
  then obtain w1 where w1: "bfree w (ps ! i) = Ok w1" "holding L ls ps (A - {i}) c w1"
    using free_holding [OF Cons.prems(1), of i] by auto
  have "\<forall>j \<in> set is. j \<in> A - {i}" using Cons.prems(2,3) by auto
  from Cons.IH [OF w1(2) _ this] Cons.prems(2) w1(1) show ?case
    by (auto simp: Diff_insert2 [symmetric])
qed auto

lemma holding_start:
  "owns w L c \<Longrightarrow> holding L ls (replicate (length ls) 0) {} c w"
  by (simp add: holding_def objects_def numbered_def)

end

lemma fold_res_unit: "(\<And>x. x \<in> set xs \<Longrightarrow> f () x = Ok ()) \<Longrightarrow> fold_res f () xs = Ok ()"
  by (induction xs) auto

lemma check_all_ok:
  assumes "numbered (bh_bytes w) ls ps A" "set is \<subseteq> A"
  shows "check_all ls ps w is = Ok ()"
  unfolding check_all_def
proof (rule fold_res_unit)
  fix i assume "i \<in> set is"
  then have i: "i \<in> A" using assms(2) by blast
  show "check_object w (ps ! i) (fst (ls ! i)) (word_of_nat i) = Ok ()"
    unfolding check_object_def using assms(1) i by (intro fold_res_unit) (simp add: numbered_def)
qed

lemma fill_step_step: "fill_step enc ls = bytes.step enc ls"
  by (rule ext)+ (simp add: fill_step_def bytes.step_def fill_def)

lemma free_step_step: "free_step enc ps = (\<lambda>w i. bh_dealloc enc w (ps ! i))"
  by (rule ext)+ (simp add: free_step_def)

lemma vec_of_nulls_spec:
  assumes "live_neat (bh_heap w) L c" "n \<noteq> 0" "layout_ok (8 * n) 8" "alloc_cost (8 * n) 8 \<le> c"
  shows "\<exists>p w'. vec_of_nulls enc n w = Some (Ok (Some p, w')) \<and> (p, 8 * n) \<notin> L \<and>
    live_neat (bh_heap w') (insert (p, 8 * n) L) (c - alloc_cost (8 * n) 8)"
proof -
  have n: "0 < 8 * n" using assms(2) by simp
  obtain p w1 where p: "bh_alloc enc w (8 * n) 8 = Some (Ok (p, w1))" "p \<noteq> 0" "p \<notin> fst ` L"
      "live_neat (bh_heap w1) (insert (p, 8 * n) L) (c - alloc_cost (8 * n) 8)"
    using bytes.alloc_owns [OF assms(1,3) n assms(4)] by blast
  from bytes.stores_own [OF p(4) insertI1 p(2) order_refl, of "\<lambda>_. 0"]
  obtain w2 where "fill w1 p (8 * n) (\<lambda>_. 0) = Ok w2" "live_neat (bh_heap w2) (insert (p, 8 * n) L) (c - alloc_cost (8 * n) 8)"
    by (auto simp: fill_def)
  then show ?thesis using p assms(2) by (intro exI [of _ p] exI [of _ w2]) (auto simp: vec_of_nulls_def image_iff)
qed

lemma overlap_test_passes:
  assumes H: "live_neat (bh_heap w) L c" and ls: "layouts_ok ls" "ls \<noteq> []" "layout_ok (8 * length ls) 8"
    and c: "alloc_cost (8 * length ls) 8 + costs ls [0 ..< length ls] + costs ls (filter even [0 ..< length ls]) \<le> c"
  shows "\<exists>w' L'. overlap_test enc ls w = Some (Ok w') \<and> live_neat (bh_heap w') L'
    (c - (alloc_cost (8 * length ls) 8 + costs ls [0 ..< length ls] + costs ls (filter even [0 ..< length ls])))"
proof -
  let ?all = "[0 ..< length ls]" and ?c0 = "alloc_cost (8 * length ls) 8"
  let ?evens = "filter even ?all" and ?odds = "filter odd ?all"
  obtain v w0 where v: "vec_of_nulls enc (length ls) w = Some (Ok (Some v, w0))" "(v, 8 * length ls) \<notin> L"
      "live_neat (bh_heap w0) (insert (v, 8 * length ls) L) (c - ?c0)"
    using vec_of_nulls_spec [where enc = enc, OF H _ ls(3)] ls(2) c by auto
  let ?L = "insert (v, 8 * length ls) L"
  have "costs ls ?all \<le> c - ?c0" using c by simp
  from bytes.steps_holding [OF bytes.holding_start [OF v(3)] _ _ ls(1) this, of enc] obtain ps1 w1 where
      s1: "fold_opt (fill_step enc ls) (replicate (length ls) 0, w0) ?all = Some (Ok (ps1, w1))"
      "bytes.holding ?L ls ps1 (set ?all) (c - ?c0 - costs ls ?all) w1"
    by (auto simp: fill_step_step)
  have all: "check_all ls ps1 w1 ?all = Ok ()"
    using s1(2) by (intro check_all_ok) (auto simp: bytes.holding_def)
  obtain w2 where w2: "fold_res (free_step enc ps1) w1 ?evens = Ok w2"
      "bytes.holding ?L ls ps1 (set ?all - set ?evens) (c - ?c0 - costs ls ?all) w2"
    using bytes.frees_holding [OF s1(2), of ?evens enc] by (auto simp: free_step_step)
  have odds: "check_all ls ps1 w2 ?odds = Ok ()"
    using w2(2) by (intro check_all_ok [where A = "set ?all - set ?evens"]) (auto simp: bytes.holding_def)
  have fits: "costs ls ?evens \<le> c - ?c0 - costs ls ?all" using c by simp
  have "\<exists>ps3 w3. fold_opt (fill_step enc ls) (ps1, w2) ?evens = Some (Ok (ps3, w3)) \<and>
      bytes.holding ?L ls ps3 (set ?all - set ?evens \<union> set ?evens) (c - ?c0 - costs ls ?all - costs ls ?evens) w3"
    unfolding fill_step_step by (rule bytes.steps_holding [OF w2(2) _ _ ls(1) fits]) simp_all
  then obtain ps3 w3 where
      s3: "fold_opt (fill_step enc ls) (ps1, w2) ?evens = Some (Ok (ps3, w3))"
      "bytes.holding ?L ls ps3 (set ?all - set ?evens \<union> set ?evens) (c - ?c0 - costs ls ?all - costs ls ?evens) w3"
    by blast
  have "check_all ls ps3 w3 ?all = Ok ()"
    using s3(2) by (intro check_all_ok [where A = "set ?all - set ?evens \<union> set ?evens"]) (auto simp: bytes.holding_def)
  moreover have "live_neat (bh_heap w3) (?L \<union> objects ls ps3 (set ?all - set ?evens \<union> set ?evens))
      (c - ?c0 - costs ls ?all - costs ls ?evens)"
    using s3(2) by (simp add: bytes.holding_def)
  then obtain w4 L4 where w4: "bh_dealloc enc w3 v = Ok w4" "live_neat (bh_heap w4) L4 (c - ?c0 - costs ls ?all - costs ls ?evens)"
    using bytes.free_owns [where enc = enc and w = w3 and p = v and n = "8 * length ls"] by blast
  ultimately have "overlap_test enc ls w = Some (Ok w4)"
    using v(1) s1(1) w2(1) odds all s3(1) by (simp add: overlap_test_def Let_def vec_drop_def)
  then show ?thesis using w4(2) by (intro exI [of _ w4] exI [of _ L4]) (simp add: diff_diff_left)
qed

text \<open>The tests that only look at the pointers.\<close>

lemma align_step_passes:
  assumes "live_neat (bh_heap w) L c" "layout_ok 1234 align" "alloc_cost 1234 align \<le> c"
  shows "\<exists>w' L'. align_step enc align w k = Some (Ok w') \<and> live_neat (bh_heap w') L' (c - alloc_cost 1234 align)"
proof -
  obtain p w1 where p: "bh_alloc enc w 1234 align = Some (Ok (p, w1))" "p \<noteq> 0" "align dvd p"
      "live_neat (bh_heap w1) (insert (p, 1234) L) (c - alloc_cost 1234 align)"
    using bytes.alloc_owns [where enc = enc, OF assms(1,2) _ assms(3)] by auto
  then show ?thesis by (intro exI [of _ w1] exI [of _ "insert (p, 1234) L"]) (simp add: align_step_def)
qed

lemma align_steps_pass:
  assumes "layout_ok 1234 align"
  shows "live_neat (bh_heap w) L c \<Longrightarrow> length ks * alloc_cost 1234 align \<le> c \<Longrightarrow>
    \<exists>w' L'. fold_opt (align_step enc align) w ks = Some (Ok w') \<and>
      live_neat (bh_heap w') L' (c - length ks * alloc_cost 1234 align)"
proof (induction ks arbitrary: w L c)
  case (Cons k ks)
  have "alloc_cost 1234 align \<le> c" using Cons.prems(2) by simp
  then obtain w1 L1 where w1: "align_step enc align w k = Some (Ok w1)"
      "live_neat (bh_heap w1) L1 (c - alloc_cost 1234 align)"
    using align_step_passes [OF Cons.prems(1) assms] by blast
  have "length ks * alloc_cost 1234 align \<le> c - alloc_cost 1234 align" using Cons.prems(2) by simp
  from Cons.IH [OF w1(2) this] w1(1) show ?case by (fastforce simp: diff_diff_left)
qed auto

lemma align_test_passes:
  "live_neat (bh_heap w) L c \<Longrightarrow> list_all (layout_ok 1234) aligns \<Longrightarrow>
     sum_list (map (\<lambda>align. 100 * alloc_cost 1234 align) aligns) \<le> c \<Longrightarrow>
     \<exists>w' L'. align_test enc w aligns = Some (Ok w') \<and>
       live_neat (bh_heap w') L' (c - sum_list (map (\<lambda>align. 100 * alloc_cost 1234 align) aligns))"
proof (induction aligns arbitrary: w L c)
  case (Cons align aligns)
  have "length [0 ..< 100] * alloc_cost 1234 align \<le> c" using Cons.prems(3) by simp
  from align_steps_pass [where enc = enc, OF _ Cons.prems(1) this] Cons.prems(2) obtain w1 L1 where
      w1: "fold_opt (align_step enc align) w [0 ..< 100] = Some (Ok w1)"
      "live_neat (bh_heap w1) L1 (c - 100 * alloc_cost 1234 align)"
    by auto
  have "sum_list (map (\<lambda>align. 100 * alloc_cost 1234 align) aligns) \<le> c - 100 * alloc_cost 1234 align"
    using Cons.prems(3) by simp
  from Cons.IH [OF w1(2) _ this] Cons.prems(2) w1(1) show ?case
    by (fastforce simp: align_test_def diff_diff_left)
qed (auto simp: align_test_def)

lemma live_neat_less: "live_neat s L c \<Longrightarrow> c' \<le> c \<Longrightarrow> live_neat s L c'"
  by (fastforce simp: live_neat_def spare_def)

lemma iterate_step_passes:
  assumes "live_neat (bh_heap w) L c" "i = 0 \<or> i \<le> cap i \<and> layout_ok (4 * cap i) 4" "alloc_cost (4 * cap i) 4 \<le> c"
  shows "\<exists>w'. iterate_step enc cap w i = Some (Ok w') \<and> live_neat (bh_heap w') L (c - alloc_cost (4 * cap i) 4)"
proof (cases "i = 0")
  case True
  then show ?thesis using assms(1) live_neat_less [OF assms(1)] by (simp add: iterate_step_def)
next
  case False
  then have i: "i \<le> cap i" "layout_ok (4 * cap i) 4" "0 < 4 * cap i" using assms(2) by auto
  obtain p w1 where p: "bh_alloc enc w (4 * cap i) 4 = Some (Ok (p, w1))" "p \<noteq> 0" "p \<notin> fst ` L"
      "live_neat (bh_heap w1) (insert (p, 4 * cap i) L) (c - alloc_cost (4 * cap i) 4)"
    using bytes.alloc_owns [where enc = enc, OF assms(1) i(2,3) assms(3)] by auto
  have "4 * i \<le> 4 * cap i" using i(1) by simp
  from bytes.stores_own [OF p(4) insertI1 p(2) this, of "\<lambda>k. if k mod 4 = 0 then 10 else 0"] obtain w2 where
      w2: "fill w1 p (4 * i) (\<lambda>k. if k mod 4 = 0 then 10 else 0) = Ok w2"
      "live_neat (bh_heap w2) (insert (p, 4 * cap i) L) (c - alloc_cost (4 * cap i) 4)"
    by (auto simp: fill_def)
  have "insert (p, 4 * cap i) L - {(p, 4 * cap i)} = L" using p(3) by force
  then obtain w3 where "bh_dealloc enc w2 p = Ok w3" "live_neat (bh_heap w3) L (c - alloc_cost (4 * cap i) 4)"
    using bytes.free_owns [where enc = enc, OF w2(2) insertI1] by auto
  then show ?thesis using p(1,2) w2(1) False by (simp add: iterate_step_def)
qed

lemma iterate_passes:
  "live_neat (bh_heap w) L c \<Longrightarrow> \<forall>i \<in> set is. i = 0 \<or> i \<le> cap i \<and> layout_ok (4 * cap i) 4 \<Longrightarrow>
     sum_list (map (\<lambda>i. alloc_cost (4 * cap i) 4) is) \<le> c \<Longrightarrow>
     \<exists>w'. fold_opt (iterate_step enc cap) w is = Some (Ok w') \<and>
       live_neat (bh_heap w') L (c - sum_list (map (\<lambda>i. alloc_cost (4 * cap i) 4) is))"
proof (induction "is" arbitrary: w c)
  case (Cons i "is")
  have "alloc_cost (4 * cap i) 4 \<le> c" using Cons.prems(3) by simp
  then obtain w1 where w1: "iterate_step enc cap w i = Some (Ok w1)"
      "live_neat (bh_heap w1) L (c - alloc_cost (4 * cap i) 4)"
    using iterate_step_passes [where enc = enc, OF Cons.prems(1), of i cap] Cons.prems(2) by auto
  have "sum_list (map (\<lambda>i. alloc_cost (4 * cap i) 4) is) \<le> c - alloc_cost (4 * cap i) 4" using Cons.prems(3) by simp
  from Cons.IH [OF w1(2) _ this] Cons.prems(2) w1(1) show ?case by (fastforce simp: diff_diff_left)
qed simp

section \<open>Lemmas: the runner\<close>

lemma write_sends:
  assumes "uart io sent busy"
  shows "\<exists>d'. SerialPort_write_str io d s = Some (Ok d') \<and> sent d' = sent d @ map word_of_nat s"
  unfolding SerialPort_write_str_def by (rule send_str_sends [OF assms])

definition log_bytes :: "nat list \<Rightarrow> u8 list" where
  "log_bytes s = map word_of_nat s"

text \<open>The tests before the first that does not return a value.\<close>

fun passing :: "'w test list \<Rightarrow> 'w \<Rightarrow> 'w option" where
  "passing [] w = Some w"
| "passing (t # ts) w = (case snd t w of Some (Ok w') \<Rightarrow> passing ts w' | _ \<Rightarrow> None)"

definition test_log :: "'w test list \<Rightarrow> nat list" where
  "test_log ts = concat (map (\<lambda>t. running_line (fst t) @ pass_line (fst t)) ts)"

lemma run_tests_pass:
  assumes "uart io sent busy"
  shows "passing ts w = Some w' \<Longrightarrow> \<exists>d'. run_tests io (ts @ us) (w, d) = run_tests io us (w', d') \<and>
    sent d' = sent d @ log_bytes (test_log ts)"
proof (induction ts arbitrary: w d)
  case Nil
  then show ?case by (intro exI [of _ d]) (simp add: test_log_def log_bytes_def)
next
  case (Cons t ts)
  then obtain w1 where w1: "snd t w = Some (Ok w1)" "passing ts w1 = Some w'"
    by (auto split: option.splits res.splits)
  obtain d1 where d1: "SerialPort_write_str io d (running_line (fst t)) = Some (Ok d1)"
      "sent d1 = sent d @ map word_of_nat (running_line (fst t))"
    using write_sends [OF assms] by blast
  obtain d2 where d2: "SerialPort_write_str io d1 (pass_line (fst t)) = Some (Ok d2)"
      "sent d2 = sent d1 @ map word_of_nat (pass_line (fst t))"
    using write_sends [OF assms] by blast
  obtain d' where d': "run_tests io (ts @ us) (w1, d2) = run_tests io us (w', d')"
      "sent d' = sent d2 @ log_bytes (test_log ts)"
    using Cons.IH [OF w1(2)] by blast
  then show ?case using w1(1) d1 d2
    by (intro exI [of _ d']) (simp add: run_test_def test_log_def log_bytes_def)
qed

end
