(* ===== verification/Unit_Test_Theorems.thy ===== *)
theory Unit_Test_Theorems
  imports Unit_Tests Print_Theorems Kernel_Theorems
begin

text \<open>The properties of the heap's contents and of the kernel's own tests.\<close>

section \<open>Contents\<close>

text \<open>
  Property C6 (safety). The contents of live objects are stable: in every state the kernel's heap reaches, an
  allocation, the freeing of another object and a store into another object leave every byte of an object as it
  was, whatever bytes the headers are made of.
\<close>

theorem contents_survive:
  assumes "kernel_heap (bh_heap w) L" "(q, k) \<in> L" "q \<le> a" "a < q + k"
  shows "(layout_ok m align \<and> bh_alloc enc w m align = Some (Ok (r, w1)) \<longrightarrow> bh_bytes w1 a = bh_bytes w a) \<and>
    ((p, n) \<in> L - {(q, k)} \<longrightarrow>
       (\<exists>w2. bh_dealloc enc w p = Ok w2 \<and> bh_bytes w2 a = bh_bytes w a) \<and>
       (p \<le> b \<and> b < p + n \<longrightarrow> bh_bytes (bh_store w b v) a = bh_bytes w a))"
proof (intro conjI impI)
  note L = kernel_heap_neat [OF assms(1)]
  assume al: "layout_ok m align \<and> bh_alloc enc w m align = Some (Ok (r, w1))"
  then obtain s1 where s1: "alloc_with_options (bh_heap w) m align = Some (Ok (r, s1))"
      "w1 = \<lparr>bh_heap = s1, bh_bytes = settle enc s1 (bh_bytes w)\<rparr>"
    by (auto simp: bh_alloc_def and_then_opt_eq_Ok)
  have "\<exists>L'. live_neat s1 L' 0 \<and> (q, k) \<in> L'"
    using live_neat_keeps [OF assms(1) _ s1(1)] al assms(2) by blast
  then show "bh_bytes w1 a = bh_bytes w a"
    using live_uncovered assms(3,4) by (auto simp: s1(2) settle_def)
next
  note L = kernel_heap_neat [OF assms(1)]
  assume p: "(p, n) \<in> L - {(q, k)}"
  then have pL: "(p, n) \<in> L" and qL: "(q, k) \<in> L - {(p, n)}" using assms(2) by auto
  show "\<exists>w2. bh_dealloc enc w p = Ok w2 \<and> bh_bytes w2 a = bh_bytes w a"
    using bytes.free_owns [where enc = enc, OF L pL] qL assms(3,4) by blast
  assume b: "p \<le> b \<and> b < p + n"
  have "p + n \<le> q \<or> q + k \<le> p" using bytes.owns_apart [OF L pL assms(2)] qL by auto
  then show "bh_bytes (bh_store w b v) a = bh_bytes w a"
    using b assms(3,4) by (auto simp: bh_store_def)
qed

theorem contents_survive_witness:
  "\<exists>s w2. kernel_heap s {(0x11E000, 4096), (0x11FF80, 100)} \<and>
    bh_dealloc (\<lambda>_ _. 0xAA) \<lparr>bh_heap = s, bh_bytes = (\<lambda>_. 7)\<rparr> 0x11E000 = Ok w2 \<and> bh_bytes w2 0x11FFE3 = 7"
proof -
  obtain s where s: "kernel_heap s {(0x11E000, 4096), (0x11FF80, 100)}" using demo_run by blast
  then show ?thesis
    using contents_survive [of "\<lparr>bh_heap = s, bh_bytes = (\<lambda>_. 7)\<rparr>" "{(0x11E000, 4096), (0x11FF80, 100)}"
        "0x11FF80" 100 "0x11FFE3" 1 1 "\<lambda>_ _. 0xAA" 0 _ "0x11E000" 4096 0 0]
    by auto
qed

section \<open>The tests\<close>

text \<open>The memory that the tests need in one free block.\<close>

definition iterate_cost :: "(nat \<Rightarrow> nat) \<Rightarrow> nat" where
  "iterate_cost cap = sum_list (map (\<lambda>i. alloc_cost (4 * cap i) 4) [0 ..< 1000])"

definition align_cost :: nat where
  "align_cost = sum_list (map (\<lambda>align. 100 * alloc_cost 1234 align) [1, 2, 4, 8, 16, 32, 4096])"

definition overlap_cost :: "layout list \<Rightarrow> nat" where
  "overlap_cost ls = alloc_cost (8 * length ls) 8 + costs ls [0 ..< length ls] + costs ls (filter even [0 ..< length ls])"

definition unit_tests_cost :: "(nat \<Rightarrow> nat) \<Rightarrow> nat" where
  "unit_tests_cost cap = iterate_cost cap + (align_cost + (align_cost + overlap_cost overlap_layouts))"

lemma round_up_tests_ok: "round_up_to_nearest_pow2_tests = Ok ()"
  by (simp add: round_up_to_nearest_pow2_tests_def assert_all_def round_up_eq bit_len.simps)

lemma extract_bits_tests_ok: "extract_bits_tests = Ok ()"
  by (simp add: extract_bits_tests_def assert_all_def)
    (simp add: extract_bits_eq word_unat_eq_iff unsigned_take_bit_eq unsigned_drop_bit_eq take_bit_eq_mod
      drop_bit_eq_div push_bit_eq_mult)

lemma small_layouts: "n \<le> 2 ^ 62 \<Longrightarrow> align \<in> {1, 2, 4, 8, 16, 32, 64, 128, 4096} \<Longrightarrow> layout_ok n align"
proof -
  have "\<forall>align \<in> {1, 2, 4, 8, 16, 32, 64, 128, 4096}. is_pow2 align"
    by (simp add: is_pow2_def bit_len.simps)
  moreover assume "n \<le> 2 ^ 62" "align \<in> {1, 2, 4, 8, 16, 32, 64, 128, 4096}"
  moreover from this have "align \<le> 4096" by auto
  ultimately show ?thesis by (auto simp: layout_ok_def)
qed

lemma overlap_layouts_ok: "layouts_ok overlap_layouts" "overlap_layouts \<noteq> []" "layout_ok (8 * length overlap_layouts) 8"
proof -
  have "\<forall>(n, align) \<in> set overlap_layouts. n \<le> 2 ^ 62 \<and> align \<in> {1, 2, 4, 8, 16, 32, 64, 128, 4096} \<and> 0 < n"
    by (simp add: overlap_layouts_def)
  then show "layouts_ok overlap_layouts"
    unfolding layouts_ok_def list_all_iff using small_layouts by fast
  show "layout_ok (8 * length overlap_layouts) 8" by (rule small_layouts) (simp_all add: overlap_layouts_def)
qed (simp add: overlap_layouts_def)

lemma aligns_ok: "list_all (layout_ok 1234) [1, 2, 4, 8, 16, 32, 4096]" "list_all (layout_ok 1234) [32, 4096, 8, 4, 16, 2, 1]"
  by (simp_all add: small_layouts)

lemma unit_tests_pass:
  assumes "live_neat (bh_heap w) L c" "unit_tests_cost cap \<le> c"
    and "\<forall>i \<in> {1 ..< 1000}. i \<le> cap i \<and> cap i \<le> 2 ^ 60"
  shows "\<exists>w'. passing (unit_tests enc cap) w = Some w'"
proof -
  have c: "iterate_cost cap \<le> c" "align_cost \<le> c - iterate_cost cap" "align_cost \<le> c - iterate_cost cap - align_cost"
      "overlap_cost overlap_layouts \<le> c - iterate_cost cap - align_cost - align_cost"
    using assms(2) by (simp_all add: unit_tests_cost_def)
  have r: "sum_list (map (\<lambda>align. 100 * alloc_cost 1234 align) [32, 4096, 8, 4, 16, 2, 1]) = align_cost"
    by (simp add: align_cost_def)
  have "\<forall>i \<in> set [0 ..< 1000]. i = 0 \<or> i \<le> cap i \<and> layout_ok (4 * cap i) 4"
    using assms(3) by (auto intro!: small_layouts)
  from iterate_passes [where enc = enc, OF assms(1) this c(1) [unfolded iterate_cost_def], folded iterate_cost_def]
  obtain w1 where w1: "malloc_iterate_free_and_alloc enc cap w = Some (Ok w1)" "live_neat (bh_heap w1) L (c - iterate_cost cap)"
    by (auto simp: malloc_iterate_free_and_alloc_def)
  from align_test_passes [where enc = enc, OF w1(2) aligns_ok(1) c(2) [unfolded align_cost_def], folded align_cost_def]
  obtain w2 L2 where w2: "malloc_align enc w1 = Some (Ok w2)" "live_neat (bh_heap w2) L2 (c - iterate_cost cap - align_cost)"
    by (auto simp: malloc_align_def)
  from align_test_passes [where enc = enc, OF w2(2) aligns_ok(2)] c(3) r
  obtain w3 L3 where w3: "malloc_align_random_order enc w2 = Some (Ok w3)"
      "live_neat (bh_heap w3) L3 (c - iterate_cost cap - align_cost - align_cost)"
    by (auto simp: malloc_align_random_order_def)
  from overlap_test_passes [where enc = enc, OF w3(2) overlap_layouts_ok] c(4)
  obtain w4 where w4: "allocated_objects_have_no_overlap enc w3 = Some (Ok w4)"
    by (auto simp: allocated_objects_have_no_overlap_def overlap_cost_def)
  show ?thesis
    by (simp add: unit_tests_def pure_test_def round_up_tests_ok extract_bits_tests_ok w1(1) w2(1) w3(1) w4)
qed

lemma runner_success:
  assumes "uart io sent busy" "passing ts w = Some w'"
  shows "\<exists>d'. test_runner io panic_text ts w d = Some (Ok (QemuSuccess, exit_qemu io QemuSuccess d')) \<and>
      sent d' = sent d @ log_bytes (start_line (length ts) @ test_log ts @ end_line (length ts))"
proof -
  obtain d1 where d1: "SerialPort_write_str io d (start_line (length ts)) = Some (Ok d1)"
      "sent d1 = sent d @ log_bytes (start_line (length ts))"
    using write_sends [OF assms(1)] by (auto simp: log_bytes_def)
  obtain d2 where d2: "run_tests io ts (w, d1) = Some (Ok (Ok w', d2))" "sent d2 = sent d1 @ log_bytes (test_log ts)"
    using run_tests_pass [OF assms, of "[]" d1] by auto
  obtain d3 where "SerialPort_write_str io d2 (end_line (length ts)) = Some (Ok d3)"
      "sent d3 = sent d2 @ log_bytes (end_line (length ts))"
    using write_sends [OF assms(1)] by (auto simp: log_bytes_def)
  then show ?thesis
    using d1 d2 by (intro exI [of _ d3]) (simp add: test_runner_def leave_def log_bytes_def)
qed

text \<open>
  Property C39 (functional). The runner reports truthfully. When all tests return, the serial line shows the count, a pair
  of lines for each test and the completion, and the emulator is left with the code for success; when the first
  tests return and the next one panics, the line shows the tests that ran, the panic and nothing of the tests
  behind it, and the code is the one for failure.
\<close>

theorem test_runner_reports:
  assumes "uart io sent busy" "passing ts w = Some w'"
  shows "(\<exists>d'. test_runner io panic_text ts w d = Some (Ok (QemuSuccess, exit_qemu io QemuSuccess d')) \<and>
      sent d' = sent d @ log_bytes (start_line (length ts) @ test_log ts @ end_line (length ts))) \<and>
    (snd t w' = Some (Panic msg) \<longrightarrow>
      (\<exists>d'. test_runner io panic_text (ts @ t # us) w d = Some (Ok (QemuFail, exit_qemu io QemuFail d')) \<and>
        sent d' = sent d @ log_bytes (start_line (length ts + 1 + length us) @ test_log ts @ running_line (fst t) @
          panic_line (panic_text msg))))"
proof (intro conjI impI)
  show "\<exists>d'. test_runner io panic_text ts w d = Some (Ok (QemuSuccess, exit_qemu io QemuSuccess d')) \<and>
      sent d' = sent d @ log_bytes (start_line (length ts) @ test_log ts @ end_line (length ts))"
    by (rule runner_success [OF assms])
next
  assume t: "snd t w' = Some (Panic msg)"
  let ?n = "length ts + 1 + length us"
  obtain d1 where d1: "SerialPort_write_str io d (start_line ?n) = Some (Ok d1)"
      "sent d1 = sent d @ log_bytes (start_line ?n)"
    using write_sends [OF assms(1)] by (auto simp: log_bytes_def)
  obtain d2 where d2: "run_tests io (ts @ t # us) (w, d1) = run_tests io (t # us) (w', d2)"
      "sent d2 = sent d1 @ log_bytes (test_log ts)"
    using run_tests_pass [OF assms] by blast
  obtain d3 where d3: "SerialPort_write_str io d2 (running_line (fst t)) = Some (Ok d3)"
      "sent d3 = sent d2 @ log_bytes (running_line (fst t))"
    using write_sends [OF assms(1)] by (auto simp: log_bytes_def)
  obtain d4 where "SerialPort_write_str io d3 (panic_line (panic_text msg)) = Some (Ok d4)"
      "sent d4 = sent d3 @ log_bytes (panic_line (panic_text msg))"
    using write_sends [OF assms(1)] by (auto simp: log_bytes_def)
  then show "\<exists>d'. test_runner io panic_text (ts @ t # us) w d = Some (Ok (QemuFail, exit_qemu io QemuFail d')) \<and>
      sent d' = sent d @ log_bytes (start_line ?n @ test_log ts @ running_line (fst t) @ panic_line (panic_text msg))"
    using d1 d2 d3 t
    by (intro exI [of _ d4]) (simp add: test_runner_def run_test_def panic_def leave_def log_bytes_def)
qed

theorem test_runner_reports_witness:
  "\<exists>d'. test_runner demo_io (\<lambda>m. m) [(''t'', \<lambda>w. Some (Ok (w + 1))), (''u'', \<lambda>w. Some (Panic ''no'')), (''v'', Some \<circ> Ok)] (0 :: nat) (0, []) =
      Some (Ok (QemuFail, exit_qemu demo_io QemuFail d')) \<and>
    snd d' = log_bytes (start_line 3 @ running_line ''t'' @ pass_line ''t'' @ running_line ''u'' @ panic_line ''no'')"
  using test_runner_reports [OF demo_uart, of "[(''t'', \<lambda>w. Some (Ok (w + 1)))]" "0 :: nat" 1 "\<lambda>m. m" "(0, [])"
      "(''u'', \<lambda>w. Some (Panic ''no''))" "''no''" "[(''v'', Some \<circ> Ok)]"]
  by (simp add: test_log_def numeral_3_eq_3)

lemma unit_tests_run:
  assumes "kernel_heap (bh_heap w) L" "heap_inv (bh_heap w) bs" "(a, z, False) \<in> set bs" "unit_tests_cost cap \<le> z"
    and "\<forall>i \<in> {1 ..< 1000}. i \<le> cap i \<and> cap i \<le> 2 ^ 60" "uart io sent busy"
  shows "\<exists>d'. test_runner io panic_text (unit_tests enc cap) w d = Some (Ok (QemuSuccess, exit_qemu io QemuSuccess d')) \<and>
    sent d' = sent d @ log_bytes (start_line 6 @ test_log (unit_tests enc cap) @ end_line 6)"
proof -
  have "spare bs z" using assms(3) by (force simp: spare_def)
  then have "live_neat (bh_heap w) L z" by (rule kernel_heap_spare [OF assms(1,2)])
  then obtain w' where "passing (unit_tests enc cap) w = Some w'"
    using unit_tests_pass [OF _ assms(4,5)] by blast
  moreover have "length (unit_tests enc cap) = 6" by (simp add: unit_tests_def)
  ultimately show ?thesis using runner_success [OF assms(6)] by metis
qed


text \<open>The memory of the witness is the region of 4331 pages.\<close>

lemma unit_cost_bound: "unit_tests_cost (\<lambda>_. 1000) \<le> 4331 * 4096"
proof -
  have i: "iterate_cost (\<lambda>_. 1000) = 4192000"
    by (simp add: iterate_cost_def sum_list_triv alloc_cost_def eff_size_def eff_align_def bit_len.simps)
  have a: "align_cost = 1907200"
    by (simp add: align_cost_def alloc_cost_def eff_size_def eff_align_def bit_len.simps)
  have one: "alloc_cost n al \<le> 2 * n + 256" if "0 < n" "al \<le> 128" for n al
  proof -
    have "n \<le> 2 ^ bit_len (n - 1)" "bit_len (n - 1) = 0 \<or> 2 ^ (bit_len (n - 1) - 1) \<le> n - 1"
      using le_pow2_bit_len [OF that(1)] bit_len_le_iff [of "n - 1" "bit_len (n - 1) - 1"] by auto
    then have "2 ^ bit_len (n - 1) \<le> 2 * n" using that(1) by (cases "bit_len (n - 1)") auto
    then show ?thesis using that by (simp add: alloc_cost_def eff_size_def eff_align_def max_def)
  qed
  define cost where "cost = (\<lambda>l :: layout. alloc_cost (fst l) (snd l))"
  have l: "length overlap_layouts = 34" by (simp add: overlap_layouts_def)
  have "list_all (\<lambda>(n, al). 0 < n \<and> al \<le> 128) overlap_layouts" by (simp add: overlap_layouts_def list_all_iff)
  then have "\<forall>x \<in> set overlap_layouts. cost x \<le> 2 * fst x + 256"
    using one unfolding cost_def list_all_iff by fastforce
  then have "sum_list (map cost overlap_layouts) \<le> sum_list (map (\<lambda>x. 2 * fst x + 256) overlap_layouts)"
    by (intro sum_list_mono) blast
  also have "\<dots> = 3009274" by (simp add: overlap_layouts_def sum_list_replicate)
  finally have sum: "sum_list (map cost overlap_layouts) \<le> 3009274" .
  have "map (\<lambda>i. cost (overlap_layouts ! i)) [0 ..< 34] = map cost overlap_layouts"
    by (rule nth_equalityI) (simp_all add: l)
  then have "costs overlap_layouts [0 ..< 34] = sum_list (map cost overlap_layouts)"
    by (simp add: costs_def cost_def)
  with sum have all: "costs overlap_layouts [0 ..< 34] \<le> 3009274" by simp
  have "costs overlap_layouts (filter even xs) \<le> costs overlap_layouts xs" for xs
    by (induction xs) (auto simp: costs_def)
  then have evens: "costs overlap_layouts (filter even [0 ..< 34]) \<le> 3009274" using all by (rule le_trans)
  have vec: "alloc_cost (8 * 34) 8 \<le> 1024"
    by (simp add: alloc_cost_def eff_size_def eff_align_def bit_len.simps)
  have "overlap_cost overlap_layouts \<le> 1024 + 3009274 + 3009274"
    unfolding overlap_cost_def l by (rule add_mono [OF add_mono [OF vec all] evens])
  then show ?thesis by (simp add: unit_tests_cost_def i a)
qed


end
