(* ===== verification/Slices.thy ===== *)
theory Slices
  imports Unit_Tests
begin

text \<open>
  The byte views of objects, \<^verbatim>\<open>pin.rs\<close> and \<^verbatim>\<open>slice.rs\<close>: an object of \<open>size_of\<close> bytes at the address \<open>self\<close>, and a
  mutable slice as the address and the number of bytes that may be written through it. Decoding an object
  from bytes (\<^verbatim>\<open>copy_from_slice\<close>) is with the descriptors in \<^theory_text>\<open>Usb\<close>.
\<close>

definition as_slice :: "(usize \<Rightarrow> u8) \<Rightarrow> usize \<Rightarrow> nat \<Rightarrow> u8 list" where
  "as_slice bytes self size_of = map (\<lambda>k. bytes (self + k)) [0 ..< size_of]"

definition as_mut_slice :: "usize \<Rightarrow> nat \<Rightarrow> usize \<times> nat" where
  "as_mut_slice self size_of = (self, size_of)"

definition as_mut_slice_sized :: "usize \<Rightarrow> nat \<Rightarrow> nat \<Rightarrow> (usize \<times> nat) res" where
  "as_mut_slice_sized self size_of sz =
     (if sz > size_of then Err ''Cannot take mut slice longer than the object'' else Ok (self, sz))"

text \<open>
  Whatever is written through a slice of a live object, of any length that is granted, reads back; the rest of the
  object and every other live object keep their contents.
\<close>

theorem slice_writes_stay_inside:
  assumes "live_neat (bh_heap w) L c" "(self, size_of) \<in> L" "self \<noteq> 0"
    and "as_mut_slice_sized self size_of (length data) = Ok (p, n)"
  shows "\<exists>w'. fill w p n (\<lambda>k. data ! k) = Ok w' \<and> live_neat (bh_heap w') L c \<and>
    as_slice (bh_bytes w') self size_of = data @ drop (length data) (as_slice (bh_bytes w) self size_of) \<and>
    (\<forall>(q, m) \<in> L - {(self, size_of)}. as_slice (bh_bytes w') q m = as_slice (bh_bytes w) q m)"
proof -
  have p: "p = self" "n = length data" "length data \<le> size_of"
    using assms(4) by (auto simp: as_mut_slice_sized_def split: if_splits)
  from bytes.stores_own [OF assms(1-3) p(3), of "\<lambda>k. data ! k"] obtain w' where
      w': "fill w p n (\<lambda>k. data ! k) = Ok w'" "live_neat (bh_heap w') L c"
      "\<And>a. bh_bytes w' a = (if self \<le> a \<and> a < self + length data then data ! (a - self) else bh_bytes w a)"
    by (auto simp: fill_def p)
  have "as_slice (bh_bytes w') self size_of = data @ drop (length data) (as_slice (bh_bytes w) self size_of)"
    by (rule nth_equalityI) (use p(3) in \<open>auto simp: as_slice_def w'(3) nth_append\<close>)
  moreover have "as_slice (bh_bytes w') q m = as_slice (bh_bytes w) q m" if "(q, m) \<in> L - {(self, size_of)}" for q m
  proof -
    have "self + size_of \<le> q \<or> q + m \<le> self"
      using bytes.owns_apart [OF assms(1,2), of q m] that by blast
    then show ?thesis using p(3) by (auto simp: as_slice_def w'(3))
  qed
  ultimately show ?thesis using w'(1,2) by blast
qed

theorem slice_writes_stay_inside_witness:
  "\<exists>s w'. kernel_heap s {(0x11E000, 4096), (0x11FF80, 100)} \<and>
    fill \<lparr>bh_heap = s, bh_bytes = (\<lambda>_. 0)\<rparr> 0x11FF80 3 (\<lambda>k. [7, 8, 9] ! k) = Ok w' \<and>
    take 4 (as_slice (bh_bytes w') 0x11FF80 100) = [7, 8, 9, 0] \<and>
    as_mut_slice_sized 0x11FF80 100 101 = Err ''Cannot take mut slice longer than the object''"
proof -
  obtain s where s: "kernel_heap s {(0x11E000, 4096), (0x11FF80, 100)}" using demo_run by blast
  let ?w = "\<lparr>bh_heap = s, bh_bytes = (\<lambda>_. 0)\<rparr>"
  have L: "live_neat (bh_heap ?w) {(0x11E000, 4096), (0x11FF80, 100)} 0" using kernel_heap_neat [OF s] by simp
  have m: "(0x11FF80, 100) \<in> {(0x11E000, 4096), (0x11FF80, 100 :: nat)}" "0x11FF80 \<noteq> (0 :: usize)" by simp_all
  have g: "as_mut_slice_sized 0x11FF80 100 (length [7, 8, 9 :: u8]) = Ok (0x11FF80, 3)"
    by (simp add: as_mut_slice_sized_def)
  obtain w' where w': "fill ?w 0x11FF80 3 (\<lambda>k. [7, 8, 9] ! k) = Ok w'"
      "as_slice (bh_bytes w') 0x11FF80 100 = [7, 8, 9] @ drop (length [7, 8, 9 :: u8]) (as_slice (bh_bytes ?w) 0x11FF80 100)"
    using slice_writes_stay_inside [OF L m g] by blast
  have "take 4 (as_slice (bh_bytes w') 0x11FF80 100) = [7, 8, 9, 0]"
    unfolding w'(2) by (simp add: as_slice_def drop_map take_map)
  then show ?thesis using s w'(1) by (auto simp: as_mut_slice_sized_def)
qed

end
