(* ===== verification/Spec2Isabelle.thy ===== *)
theory Spec2Isabelle
  imports Heap_Theorems Paging_Theorems Xhci_Theorems Usb_Theorems Executor_Theorems Devices_Theorems X86_Theorems
    Boot_Theorems Io_Box Print_Theorems Driver_Theorems Usb_Strings Keyboard_Kernel Kernel_Theorems Task_Theorems
    Formatting_Theorems Unit_Test_Theorems Slices
begin

text \<open>
  A verification development for the \<^verbatim>\<open>wasabi\<close> kernel, \<^verbatim>\<open>src/HelloWorld/wasabi/src/\<close>: a UEFI program for x86-64
  that sets up a heap, page tables and interrupts, then runs asynchronous tasks and a USB host controller driver.

  \<^bold>\<open>Conventions.\<close>

  \<^item> The code is taken as built by \<^verbatim>\<open>cargo run\<close> (the dev profile): integer overflow and indices out of range
    panic. Machine words whose bits matter are words (\<open>u8\<close> to \<open>u64\<close>); addresses and sizes are naturals with the
    checked operations \<open>add_u\<close>, \<open>sub_u\<close>, \<open>mul_u\<close>; signed 64-bit values are integers with \<open>chk_i64\<close>.
  \<^item> \<open>'a res\<close> is the outcome of a function: \<open>Ok\<close>, \<open>Err\<close> (\<^verbatim>\<open>Result\<close> of \<^verbatim>\<open>result.rs\<close>), \<open>Panic\<close>, or \<open>UB\<close> for a raw memory
    access that no object backs. \<^verbatim>\<open>?\<close> is \<open>and_then\<close>. A function whose loop might not end has the type
    \<open>'a res option\<close>, with \<open>None\<close> for "does not return", and is a \<open>partial_function\<close>; that it returns is then proved.
  \<^item> State is passed explicitly. Where a function ends in \<open>Err\<close> the state that it leaves is dropped, unless a caller
    goes on with it (\<open>loopback_test\<close>, \<open>try_lock\<close>).
  \<^item> An \<^verbatim>\<open>async\<close> function is modelled up to each \<^verbatim>\<open>.await\<close>; what follows the await is a function of the awaited value.
  \<^item> Parameters, because they are not code of the repository: the firmware, device registers (a bus, reads may change
    the device), I/O ports, the font file, futures that the executor polls, the compiled body of \<^verbatim>\<open>inthandler\<close>. What is
    assumed of them stands in the theorems (\<open>uart\<close>, \<open>valid_mmap\<close> and the like), each with a witness.
    Messages to the log are left out, except where the log is the result (the keyboard, \<^verbatim>\<open>print.rs\<close>).

  \<^bold>\<open>Theories, from the bottom up.\<close>

  \<^item> \<^theory_text>\<open>Prelude\<close>: results, checked arithmetic, bit lengths, masks, folds with errors.
  \<^item> \<^theory_text>\<open>Bit_Fields\<close> (\<^verbatim>\<open>bits.rs\<close>, \<^verbatim>\<open>volatile.rs\<close>), \<^theory_text>\<open>Mmio\<close>: fields of words and of device registers.
  \<^item> \<^theory_text>\<open>Uefi_Memory\<close> (\<^verbatim>\<open>uefi.rs\<close>): the memory map as bytes, its descriptors and iterator.
  \<^item> \<^theory_text>\<open>First_Fit\<close>, \<^theory_text>\<open>Heap_Theorems\<close> (\<^verbatim>\<open>allocator.rs\<close>): the allocator over a memory of headers. The abstract
    specification \<open>spec_alloc\<close> is first fit on a list of blocks; \<open>heap_inv\<close> relates the two, \<open>live_inv\<close> adds the live
    objects. The locale \<open>kernel_allocator\<close> states what a heap promises, \<open>heap\<close> interprets it on the allocator. The
    theorems: disjointness of live objects, termination, refinement, the result on every branch, the state after boot.
  \<^item> \<^theory_text>\<open>Paging\<close>, \<^theory_text>\<open>Paging_Theorems\<close> (\<^verbatim>\<open>x86.rs\<close>): tables in an explicit store, \<open>walk\<close> as the meaning of a table tree.
    The four nested loops of \<^verbatim>\<open>create_mapping\<close> are \<open>map_level\<close> with fuel 512 for each loop over a table; 512 is enough
    because each turn of a loop goes to the next of 512 entries, which the totality in the theorems shows. The locale
    \<open>page_source\<close> is what paging needs of the allocator; \<open>pages\<close> interprets it on the kernel's heap.
    \<open>tables_needed\<close> counts the tables a request may need.
  \<^item> \<^theory_text>\<open>Io_Box\<close> (\<^verbatim>\<open>mmio.rs\<close>, \<^verbatim>\<open>x86.rs\<close>): boxes for device memory and the mapping that disables the cache.
  \<^item> \<^theory_text>\<open>Trb\<close>, \<^theory_text>\<open>Trb_Ring\<close>, \<^theory_text>\<open>Event_Ring\<close>, \<^theory_text>\<open>Xhci_Context\<close>, \<^theory_text>\<open>Xhci_Regs\<close>, \<^theory_text>\<open>Xhci\<close>, \<^theory_text>\<open>Xhci_Theorems\<close> (\<^verbatim>\<open>xhci.rs\<close>):
    transfer request blocks, the producer ring (locale \<open>trb_queue\<close>) and the event ring with their cycle bits against a
    controller that follows the protocol, contexts, registers, the controller object, control transfers, device initialisation.
  \<^item> \<^theory_text>\<open>Usb\<close>, \<^theory_text>\<open>Usb_Input\<close>, \<^theory_text>\<open>Usb_Theorems\<close> (\<^verbatim>\<open>usb.rs\<close>, \<^verbatim>\<open>slice.rs\<close>, \<^verbatim>\<open>keyboard.rs\<close>, \<^verbatim>\<open>tablet.rs\<close>): descriptors and
    their byte format, the choice of an interface, requests, the keyboard loop and what it logs.
  \<^item> \<^theory_text>\<open>Usb_Strings\<close> (\<^verbatim>\<open>usb.rs\<close>): the text of string descriptors, with the lossy UTF-8 decoder of the Rust library.
  \<^item> \<^theory_text>\<open>Xhci_Driver\<close>, \<^theory_text>\<open>Driver_Script\<close>, \<^theory_text>\<open>Driver_Theorems\<close> (\<^verbatim>\<open>PciXhciDriver::run\<close> of \<^verbatim>\<open>xhci.rs\<close> with the drivers it starts):
    the task of the USB driver cut at its awaits, \<open>run_pc\<close> being the control point with the locals alive across it and
    \<open>run_poll\<close> one poll. \<open>flow\<close> is its abstract script; \<open>driven\<close> are its runs, where anything shared may change between
    two polls. The polls refine the script, so that the bound on its awaits, the log and the ring invariant hold in every run.
  \<^item> \<^theory_text>\<open>Spin_Mutex\<close>, \<^theory_text>\<open>Hpet\<close>, \<^theory_text>\<open>Executor\<close>, \<^theory_text>\<open>Executor_Theorems\<close> (\<^verbatim>\<open>mutex.rs\<close>, \<^verbatim>\<open>hpet.rs\<close>, \<^verbatim>\<open>executor.rs\<close>): the spin lock and
    all interleavings of its callers (\<open>mstep\<close>), time stamps, the round-robin queue of tasks, fairness, sleeping.
  \<^item> \<^theory_text>\<open>Keyboard_Path\<close>, \<^theory_text>\<open>Keyboard_Kernel\<close> (\<^verbatim>\<open>xhci.rs\<close>, \<^verbatim>\<open>keyboard.rs\<close>, \<^verbatim>\<open>executor.rs\<close>): the driver task and the task of the
    event ring in the executor's queue among any other tasks, with a controller that fetches the TRBs of the transfer
    ring and posts an event for each that asks for one. \<open>stage_step\<close> says what a successful transfer means, without
    rings and futures; \<open>kernel_poll\<close> polls the futures of the kernel; \<open>keyboard_run\<close> are the runs from the first
    transfer of an addressed device on, where turns of the executor and steps of the controller interleave freely;
    \<open>kb_inv\<close> is their invariant. The bound 3 in \<open>will_answer\<close> is the rest of one transfer and the two TRBs of the next.
  \<^item> \<^theory_text>\<open>Acpi\<close>, \<^theory_text>\<open>Pci\<close>, \<^theory_text>\<open>Devices_Theorems\<close> (\<^verbatim>\<open>acpi.rs\<close>, \<^verbatim>\<open>pci.rs\<close>): table lookup in byte-addressed memory,
    configuration space, BAR probing, enumeration and the attach of the xHCI driver.
  \<^item> \<^theory_text>\<open>X86_Interrupts\<close>, \<^theory_text>\<open>X86_Tables\<close>, \<^theory_text>\<open>X86_Theorems\<close> (\<^verbatim>\<open>x86.rs\<close>): the assembly of the interrupt entries run on a
    stack machine, descriptor tables, the task state segment and its stacks.
  \<^item> \<^theory_text>\<open>Graphics\<close>, \<^theory_text>\<open>Graphics_Theorems\<close> (\<^verbatim>\<open>graphics.rs\<close>): bitmaps, rectangles, lines, glyphs, the text writer.
  \<^item> \<^theory_text>\<open>Serial_Print\<close>, \<^theory_text>\<open>Print_Theorems\<close> (\<^verbatim>\<open>serial.rs\<close>, \<^verbatim>\<open>print.rs\<close>, \<^verbatim>\<open>qemu.rs\<close>): the serial port, printing to both
    outputs under the lock, hexdump against a row-wise reference.
  \<^item> \<^theory_text>\<open>Boot\<close>, \<^theory_text>\<open>Boot_Theorems\<close> (\<^verbatim>\<open>uefi.rs\<close>, \<^verbatim>\<open>init.rs\<close>): firmware calls and the initialisation steps, which compose the
    components above; the identity mapping that \<^verbatim>\<open>init_paging\<close> builds from the memory map and the heap.
  \<^item> \<^theory_text>\<open>Kernel_Main\<close>, \<^theory_text>\<open>Kernel_Theorems\<close>, \<^theory_text>\<open>Task_Theorems\<close> (\<^verbatim>\<open>main.rs\<close>): \<open>efi_main\<close> as the composition of the steps, the three
    tasks it spawns between their awaits, the panic handler. The memory after the start: where the heap lies (\<open>heap_in\<close>),
    the objects of the descriptor tables (\<open>table_objects\<close>) and their mapping; the counting tasks over any clock that
    never goes back, of which the time stamps of \<open>Hpet\<close> are an instance (\<open>timestamp_steady\<close>).
  \<^item> \<^theory_text>\<open>Formatting\<close>, \<^theory_text>\<open>Formatting_Theorems\<close> (the \<^verbatim>\<open>Display\<close> and \<^verbatim>\<open>Debug\<close> implementations, the macros of \<^verbatim>\<open>print.rs\<close>, the
    report of \<^verbatim>\<open>inthandler\<close>): texts over the directives of \<^verbatim>\<open>core::fmt\<close>; \<open>scan_hex\<close> reads the numbers of a text back, so
    that a register dump is shown to give the interrupted machine and a table dump the entries it is about.
  \<^item> \<^theory_text>\<open>Heap_Bytes\<close>, \<^theory_text>\<open>Unit_Tests\<close>, \<^theory_text>\<open>Unit_Test_Theorems\<close>, \<^theory_text>\<open>Slices\<close> (\<^verbatim>\<open>allocator.rs\<close>, \<^verbatim>\<open>bits.rs\<close>, \<^verbatim>\<open>test_runner.rs\<close>, \<^verbatim>\<open>lib.rs\<close>,
    \<^verbatim>\<open>pin.rs\<close>, \<^verbatim>\<open>slice.rs\<close>): the heap with the contents of its memory. \<open>neat\<close> says that every header in memory belongs
    to a block of the chain, so the contents of live objects survive; the locale \<open>byte_memory\<close> is what the tests need of
    a heap, \<open>bytes\<close> interprets it. \<open>alloc_cost\<close> bounds what one allocation takes from the largest free block, and
    \<open>unit_tests_cost\<close> adds this up over the tests, which is the memory that lets all of them pass.

  \<^bold>\<open>How the parts meet.\<close> Page tables, scratchpad buffers, interrupt stacks and device boxes come from the one heap of
  \<open>First_Fit\<close>: \<open>owned_pages\<close> says that the tables are live heap objects, so the theorems on paging also say that no
  other object is touched. \<open>init_with_mmap\<close> and \<open>init_paging\<close> read the same memory map. The controller's commands go
  through \<open>Trb_Ring\<close> and come back through \<open>Event_Ring\<close> (\<open>send_command\<close>), whose futures the driver task awaits;
  \<open>keyboard_run\<close> runs that task, both rings and the queue of \<open>Executor\<close> together;
  \<open>boot_memory\<close> threads the heap of the memory map through the descriptor tables into the page tables; \<open>global_print\<close> uses the lock of
  \<open>Spin_Mutex\<close> around the text writer of \<open>Graphics\<close>; \<open>TimeoutFuture\<close> reads the time stamps of \<open>Hpet\<close>.

  \<^bold>\<open>Not modelled.\<close> Single instructions such as \<^verbatim>\<open>hlt\<close>, \<^verbatim>\<open>pause\<close> and the access to \<^verbatim>\<open>CR2\<close>, whose value is an argument; the log
  lines of \<^verbatim>\<open>efi_main\<close>; the text of \<^verbatim>\<open>PanicInfo\<close> and of \<^verbatim>\<open>Location\<close>, which the standard library writes; the font data;
  \<^verbatim>\<open>io_box_new\<close>, a test that only calls \<^verbatim>\<open>IoBox::new\<close>. The memory that a transfer has filled is an argument of \<open>run_poll\<close>, and
  the addresses of the boxes that hold it are \<open>run_boxes\<close>: what a USB device answers is not code of the repository.
  The runs of \<^theory_text>\<open>Keyboard_Kernel\<close> begin at the first transfer of an addressed device; of the two commands before it,
  \<open>send_command\<close> and the polls of their futures are covered by \<^theory_text>\<open>Xhci_Theorems\<close> and \<^theory_text>\<open>Driver_Theorems\<close>.
\<close>

end
